(* ===== verification/Prelude.thy ===== *)
theory Prelude
  imports Main "HOL-Library.Word" "HOL-Library.AList"
begin

section \<open>Prelude: machine types, Go maps, results\<close>

text \<open>
  What every component of the model shares: names for the fixed-width types of the Go code,
  Go maps as association lists, sums as results of code that can panic or return an error,
  and the lemma collections \<open>gmap\<close> and \<open>res\<close> that carry the component proofs.
\<close>

named_theorems gmap "lookups in maps after an update or a deletion"
named_theorems res "case analysis of results"

type_synonym u8 = "8 word"
type_synonym u64 = "64 word"
type_synonym u256 = "256 word"
type_synonym address = "160 word"
type_synonym hash = "256 word"
type_synonym bytes = "u8 list"

subsection \<open>Go maps\<close>

text \<open>
  A Go map is an association list: \<open>map_of\<close> is the lookup \<open>v, ok := m[k]\<close>,
  \<open>AList.update\<close> the assignment \<open>m[k] = v\<close>, \<open>AList.delete\<close> the built-in
  \<open>delete(m, k)\<close>. A \<open>range\<close> loop runs over the list; the order of the list is the
  arbitrary order Go runs it in, so a statement for all lists covers every order.
\<close>

type_synonym ('k, 'v) gmap = "('k \<times> 'v) list"

abbreviation mput :: "'k \<Rightarrow> 'v \<Rightarrow> ('k, 'v) gmap \<Rightarrow> ('k, 'v) gmap" where
  "mput k v m \<equiv> AList.update k v m"

abbreviation mdel :: "'k \<Rightarrow> ('k, 'v) gmap \<Rightarrow> ('k, 'v) gmap" where
  "mdel k m \<equiv> AList.delete k m"

text \<open>\<open>mget_or d m k\<close> is the Go expression \<open>m[k]\<close> with \<open>d\<close> the zero value.\<close>

definition mget_or :: "'v \<Rightarrow> ('k, 'v) gmap \<Rightarrow> 'k \<Rightarrow> 'v" where
  "mget_or d m k = (case map_of m k of Some v \<Rightarrow> v | None \<Rightarrow> d)"

definition mhas :: "('k, 'v) gmap \<Rightarrow> 'k \<Rightarrow> bool" where
  "mhas m k = (case map_of m k of Some v \<Rightarrow> True | None \<Rightarrow> False)"

lemma map_of_mput [simp, gmap]: "map_of (mput k v m) k' = (if k' = k then Some v else map_of m k')"
  by (simp add: update_conv')

lemma map_of_mdel [simp, gmap]: "map_of (mdel k m) k' = (if k' = k then None else map_of m k')"
  by (simp add: delete_conv')

lemma mget_or_mput [simp, gmap]: "mget_or d (mput k v m) k' = (if k' = k then v else mget_or d m k')"
  by (simp add: mget_or_def)

lemma mget_or_mdel [simp, gmap]: "mget_or d (mdel k m) k' = (if k' = k then d else mget_or d m k')"
  by (simp add: mget_or_def)

lemma mget_or_Nil [simp]: "mget_or d [] k = d"
  by (simp add: mget_or_def)

lemma mhas_iff [simp]: "mhas m k = (map_of m k \<noteq> None)"
  by (simp add: mhas_def split: option.split)

text \<open>The same as functions, for goals that compare two maps.\<close>

lemma mput_fun: "map_of (mput k v m) = (map_of m)(k := Some v)"
  by (simp add: fun_eq_iff)

lemma mdel_fun: "map_of (mdel k m) = (map_of m)(k := None)"
  by (simp add: fun_eq_iff)

lemma upd_None_idem: "f k = None \<Longrightarrow> f(k := None) = f"
  by (rule fun_upd_idem)

lemmas map_fun = mput_fun mdel_fun upd_None_idem

lemma distinct_mput [intro, simp]: "distinct (map fst m) \<Longrightarrow> distinct (map fst (mput k v m))"
  by (rule distinct_update)

lemma distinct_mdel [intro, simp]: "distinct (map fst m) \<Longrightarrow> distinct (map fst (mdel k m))"
  by (rule distinct_delete)

lemma mput_set: "x \<in> set (mput k v m) \<Longrightarrow> x = (k, v) \<or> x \<in> set m"
  by (induction m) (auto split: if_splits)

lemma mput_ball: "\<forall>x\<in>set m. P x \<Longrightarrow> P (k, v) \<Longrightarrow> \<forall>x\<in>set (mput k v m). P x"
  by (auto dest: mput_set)

declare delete_update_same [simp] delete_idem [simp]

lemma map_of_None_keys: "map_of m k = None \<longleftrightarrow> k \<notin> fst ` set m"
  by (rule map_of_eq_None_iff)

subsection \<open>Results\<close>

text \<open>
  \<open>Inl e\<close> is an early return with an error, or a panic; \<open>Inr x\<close> a normal return.
  \<open>rbind\<close> is the sequence "run this, return its error if it has one, else go on".
\<close>

definition rbind :: "'e + 'a \<Rightarrow> ('a \<Rightarrow> 'e + 'b) \<Rightarrow> 'e + 'b" where
  "rbind r f = (case r of Inl e \<Rightarrow> Inl e | Inr x \<Rightarrow> f x)"

lemma rbind_simps [simp, res]:
  "rbind (Inl e) f = Inl e"
  "rbind (Inr x) f = f x"
  by (simp_all add: rbind_def)

lemma rbind_Inr_iff [res]: "rbind r f = Inr y \<longleftrightarrow> (\<exists>x. r = Inr x \<and> f x = Inr y)"
  by (cases r) auto

lemma rbind_InrE:
  assumes "rbind r f = Inr y"
  obtains x where "r = Inr x" and "f x = Inr y"
  using assms by (auto simp: res)

text \<open>A loop that stops at the first error.\<close>

fun rfold :: "('a \<Rightarrow> 's \<Rightarrow> 'e + 's) \<Rightarrow> 'a list \<Rightarrow> 's \<Rightarrow> 'e + 's" where
  "rfold f [] s = Inr s"
| "rfold f (x # xs) s = rbind (f x s) (rfold f xs)"

lemma rfold_append: "rfold f (xs @ ys) s = rbind (rfold f xs s) (rfold f ys)"
  by (induction xs arbitrary: s) (auto simp: rbind_def split: sum.splits)

lemma rfold_map: "rfold f (map g xs) s = rfold (\<lambda>x. f (g x)) xs s"
  by (induction xs arbitrary: s) (auto simp: rbind_def split: sum.split)

lemma rfold_invariant:
  assumes "rfold f xs s = Inr t" and "P s"
    and "\<And>x s s'. x \<in> set xs \<Longrightarrow> P s \<Longrightarrow> f x s = Inr s' \<Longrightarrow> P s'"
  shows "P t"
  using assms
proof (induction xs arbitrary: s)
  case Nil
  then show ?case by simp
next
  case (Cons x xs)
  from Cons.prems(1) obtain s' where s': "f x s = Inr s'" "rfold f xs s' = Inr t"
    by (auto simp: res)
  have "P s'" by (rule Cons.prems(3) [OF _ Cons.prems(2) s'(1)]) simp
  with s'(2) Cons show ?case by auto
qed

subsection \<open>Panics of the world state\<close>

text \<open>One constructor per \<open>log.Panicf\<close> and per run-time panic the world state code can reach.\<close>

datatype panic =
    CreateBeingDeleted
  | CreateNonEmpty
  | OverwriteCode
  | DestructNotExisted
  | RefundBelowZero
  | UnknownSnapshot
  | BothAccessListRules
  | NotImplemented
  | SliceOutOfRange
  | NilHook
  | PersistBeingDeleted

subsection \<open>Word lemmas\<close>

lemma word_Suc_unat:
  fixes w :: "'a::len word"
  assumes "w \<noteq> - 1"
  shows "unat (w + 1) = Suc (unat w)"
proof -
  have "w + 1 \<noteq> 0"
  proof
    assume "w + 1 = 0"
    then have "w = - 1" by (rule eq_neg_iff_add_eq_0 [THEN iffD2])
    with assms show False by simp
  qed
  then show ?thesis by (rule unatSuc [unfolded add.commute [of 1]])
qed

lemma unat_mod_3: "unat ((w :: u64) mod 3) = unat w mod 3"
  by (simp add: unat_mod_distrib)

lemma mod3_cases:
  fixes w :: u64
  obtains "w mod 3 = 0" | "w mod 3 = 1" | "w mod 3 = 2"
proof -
  have "unat w mod 3 < 3" by simp
  then have "unat w mod 3 = 0 \<or> unat w mod 3 = 1 \<or> unat w mod 3 = 2" by linarith
  then have "unat (w mod 3) = 0 \<or> unat (w mod 3) = 1 \<or> unat (w mod 3) = 2"
    by (simp add: unat_mod_3)
  then have "w mod 3 = 0 \<or> w mod 3 = 1 \<or> w mod 3 = 2"
    by (auto simp: word_unat_eq_iff unat_mod_3)
  then show ?thesis by (elim disjE) (fact that)+
qed

lemma max_u64_mod3: "(- 1 :: u64) mod 3 = 0"
  by simp

lemma mod3_succ:
  fixes w :: u64
  shows "w \<noteq> - 1 \<Longrightarrow> w mod 3 = 0 \<Longrightarrow> (w + 1) mod 3 = 1"
    and "w mod 3 = 1 \<Longrightarrow> (w + 1) mod 3 = 2"
    and "w mod 3 = 2 \<Longrightarrow> (w + 1) mod 3 = 0"
proof -
  have step: "unat ((w + 1) mod 3) = Suc (unat w) mod 3" if "w \<noteq> - 1"
    using that by (simp add: unat_mod_3 word_Suc_unat)
  have ne: "w \<noteq> - 1" if "w mod 3 \<noteq> 0"
    using that by auto
  show "w \<noteq> - 1 \<Longrightarrow> w mod 3 = 0 \<Longrightarrow> (w + 1) mod 3 = 1"
    using step by (auto simp: word_unat_eq_iff unat_mod_3 mod_Suc)
  show "w mod 3 = 1 \<Longrightarrow> (w + 1) mod 3 = 2"
    using step ne by (auto simp: word_unat_eq_iff unat_mod_3 mod_Suc)
  show "w mod 3 = 2 \<Longrightarrow> (w + 1) mod 3 = 0"
    using step ne by (auto simp: word_unat_eq_iff unat_mod_3 mod_Suc)
qed

end
