(* ===== verification/Account.thy ===== *)
theory Account
  imports Prelude
begin

section \<open>Mutable accounts\<close>

text \<open>
  The model of \<open>worldstate/mutableaccount_impl.go\<close>: an account on top of a parent layer,
  with its lazily loaded code and storage. Every setter returns a closure that undoes it;
  a closure is a list of \<open>undo\<close> statements, run in order by \<open>run_undos\<close>.
  The hash function (\<open>crypto.Keccak256Hash\<close>, a library) is the parameter \<open>kc\<close>, and
  \<open>types.EmptyCodeHash\<close> is the hash of the empty code, as the library defines it.
  \<open>int64\<close> code counters are \<open>int\<close>: they count setters that ran, one at a time.
  The lemmas show that a closure restores the account it was made for, up to the values
  that reads have cached in between.
\<close>

subsection \<open>Values and the parent layer\<close>

record account_value =
  Nonce :: u64
  Balance :: u256
  CodeHash :: hash
  DirtyStorage :: bool
  Version :: u64

text \<open>
  The three reads of the interface \<open>LayeredWorldState\<close> that accounts and transaction states
  use. The layers fill their own caches while answering; the theory \<open>Layers\<close> models that.
\<close>

record parent_view =
  pvAccount :: "address \<Rightarrow> account_value"
  pvCode :: "hash \<Rightarrow> bytes"
  pvStorage :: "address \<Rightarrow> u64 \<Rightarrow> hash \<Rightarrow> hash"

record mutable_account =
  aparent :: parent_view
  addr :: address
  nonce :: u64
  balance :: u256
  codeHash :: hash
  dirtyStorage :: bool
  version :: u64
  knownCode :: "bytes option"
  knownCodeDiff :: "(hash, int) gmap"
  overriden :: bool
  knownStorage :: "(hash, hash) gmap"

definition notExisted :: u64 where "notExisted = 0"
definition updating :: u64 where "updating = 1"
definition beingDeleted :: u64 where "beingDeleted = 2"
definition versions :: u64 where "versions = 3"

definition newMutableAccountImpl ::
  "parent_view \<Rightarrow> address \<Rightarrow> account_value \<Rightarrow> bytes option \<Rightarrow> (hash, hash) gmap \<Rightarrow> mutable_account"
where
  "newMutableAccountImpl par ad acct code st =
     \<lparr> aparent = par, addr = ad, nonce = Nonce acct, balance = Balance acct,
       codeHash = CodeHash acct, dirtyStorage = DirtyStorage acct, version = Version acct,
       knownCode = code, knownCodeDiff = [], overriden = False, knownStorage = st \<rparr>"

definition newMutableAccountImplWithOverriden ::
  "parent_view \<Rightarrow> address \<Rightarrow> account_value \<Rightarrow> bytes option \<Rightarrow> (hash, hash) gmap \<Rightarrow> bool \<Rightarrow>
   mutable_account"
where
  "newMutableAccountImplWithOverriden par ad acct code st ov =
     \<lparr> aparent = par, addr = ad, nonce = Nonce acct, balance = Balance acct,
       codeHash = CodeHash acct, dirtyStorage = DirtyStorage acct, version = Version acct,
       knownCode = code, knownCodeDiff = [], overriden = ov, knownStorage = st \<rparr>"

subsection \<open>Reads\<close>

definition interpretVersion :: "mutable_account \<Rightarrow> u64" where
  "interpretVersion a = version a mod versions"

definition EmptyCodeHash :: "(bytes \<Rightarrow> hash) \<Rightarrow> hash" where
  "EmptyCodeHash kc = kc []"

definition acctEmpty :: "(bytes \<Rightarrow> hash) \<Rightarrow> mutable_account \<Rightarrow> bool" where
  "acctEmpty kc a = (nonce a = 0 \<and> balance a = 0 \<and> codeHash a = EmptyCodeHash kc)"

definition acctExists :: "(bytes \<Rightarrow> hash) \<Rightarrow> bool \<Rightarrow> mutable_account \<Rightarrow> bool" where
  "acctExists kc isEIP158 a =
     (if interpretVersion a = notExisted then False
      else if isEIP158 then \<not> acctEmpty kc a
      else True)"

text \<open>\<open>Code()\<close> loads the code from the parent the first time it is asked for.\<close>

definition acctCode :: "(bytes \<Rightarrow> hash) \<Rightarrow> mutable_account \<Rightarrow> bytes \<times> mutable_account" where
  "acctCode kc a =
     (if codeHash a = EmptyCodeHash kc then ([], a)
      else case knownCode a of
        Some code \<Rightarrow> (code, a)
      | None \<Rightarrow> let code = pvCode (aparent a) (codeHash a)
                in (code, a\<lparr>knownCode := Some code\<rparr>))"

text \<open>\<open>GetState\<close> loads the slot from the parent and keeps it in \<open>knownStorage\<close>.\<close>

definition acctGetState :: "mutable_account \<Rightarrow> hash \<Rightarrow> hash \<times> mutable_account" where
  "acctGetState a key =
     (if \<not> dirtyStorage a then (0, a)
      else case map_of (knownStorage a) key of
        Some val \<Rightarrow> (val, a)
      | None \<Rightarrow>
          let val = (if interpretVersion a = beingDeleted
                     then (if \<not> overriden a
                           then pvStorage (aparent a) (addr a) (version a - 1) key else 0)
                     else (if \<not> overriden a
                           then pvStorage (aparent a) (addr a) (version a) key else 0))
          in (val, a\<lparr>knownStorage := mput key val (knownStorage a)\<rparr>))"

definition acctHasSelfDestructed :: "mutable_account \<Rightarrow> bool" where
  "acctHasSelfDestructed a = (interpretVersion a = beingDeleted)"

subsection \<open>Undo closures\<close>

datatype undo =
    UVersionDec
  | UNonce u64
  | UBalance u256
  | UCodeDiffDec
  | UCodeDiffInc
  | UCode hash "bytes option"
  | UOverride "(hash, hash) gmap"
  | UStoragePut hash hash
  | UStorageDel hash
  | UDirtyOff

text \<open>
  \<open>UCodeDiffDec\<close> and \<open>UCodeDiffInc\<close> change the counter of the hash the account has when
  the closure runs (the closures read \<open>acct.codeHash\<close>, they do not capture it).
\<close>

definition diff_add :: "int \<Rightarrow> hash \<Rightarrow> mutable_account \<Rightarrow> mutable_account" where
  "diff_add d h a = a\<lparr>knownCodeDiff := mput h (mget_or 0 (knownCodeDiff a) h + d) (knownCodeDiff a)\<rparr>"

fun run_undo :: "undo \<Rightarrow> mutable_account \<Rightarrow> mutable_account" where
  "run_undo UVersionDec a = a\<lparr>version := version a - 1\<rparr>"
| "run_undo (UNonce n) a = a\<lparr>nonce := n\<rparr>"
| "run_undo (UBalance b) a = a\<lparr>balance := b\<rparr>"
| "run_undo UCodeDiffDec a = diff_add (- 1) (codeHash a) a"
| "run_undo UCodeDiffInc a = diff_add 1 (codeHash a) a"
| "run_undo (UCode h c) a = a\<lparr>codeHash := h, knownCode := c\<rparr>"
| "run_undo (UOverride st) a = a\<lparr>overriden := False, knownStorage := st\<rparr>"
| "run_undo (UStoragePut k v) a = a\<lparr>knownStorage := mput k v (knownStorage a)\<rparr>"
| "run_undo (UStorageDel k) a = a\<lparr>knownStorage := mdel k (knownStorage a)\<rparr>"
| "run_undo UDirtyOff a = a\<lparr>dirtyStorage := False\<rparr>"

definition run_undos :: "undo list \<Rightarrow> mutable_account \<Rightarrow> mutable_account" where
  "run_undos us a = fold run_undo us a"

lemma run_undos_simps [simp]:
  "run_undos [] a = a"
  "run_undos (u # us) a = run_undos us (run_undo u a)"
  by (simp_all add: run_undos_def)

lemma run_undos_append [simp]: "run_undos (us @ vs) a = run_undos vs (run_undos us a)"
  by (simp add: run_undos_def)

subsection \<open>Setters\<close>

text \<open>The prefix the setters share: a write to a missing account makes it exist.\<close>

definition bump_version :: "mutable_account \<Rightarrow> mutable_account \<times> undo list" where
  "bump_version a =
     (if interpretVersion a = notExisted then (a\<lparr>version := version a + 1\<rparr>, [UVersionDec])
      else (a, []))"

definition acctCreate ::
  "(bytes \<Rightarrow> hash) \<Rightarrow> mutable_account \<Rightarrow> panic + (mutable_account \<times> undo list)"
where
  "acctCreate kc a =
     (if interpretVersion a = beingDeleted then Inl CreateBeingDeleted
      else if interpretVersion a = updating then
        (if \<not> acctEmpty kc a then Inl CreateNonEmpty else Inr (a, []))
      else Inr (a\<lparr>version := version a + 1\<rparr>, [UVersionDec]))"

definition acctSetNonce :: "u64 \<Rightarrow> mutable_account \<Rightarrow> mutable_account \<times> undo list" where
  "acctSetNonce n a =
     (let (a1, optionalRevert) = bump_version a;
          originalNonce = nonce a1;
          a2 = a1\<lparr>nonce := n\<rparr>
      in if originalNonce = n then (a2, optionalRevert)
         else (a2, optionalRevert @ [UNonce originalNonce]))"

definition acctSetBalance :: "u256 \<Rightarrow> mutable_account \<Rightarrow> mutable_account \<times> undo list" where
  "acctSetBalance b a =
     (let (a1, optionalRevert) = bump_version a;
          originalBal = balance a1;
          a2 = a1\<lparr>balance := b\<rparr>
      in if originalBal = b then (a2, optionalRevert)
         else (a2, optionalRevert @ [UBalance originalBal]))"

text \<open>\<open>append([]byte(nil), c...)\<close>: a copy that is \<open>nil\<close> when \<open>c\<close> has no bytes.\<close>

definition appendNil :: "bytes option \<Rightarrow> bytes option" where
  "appendNil c = (case c of Some (x # xs) \<Rightarrow> Some (x # xs) | _ \<Rightarrow> None)"

definition acctSetCode ::
  "(bytes \<Rightarrow> hash) \<Rightarrow> bytes \<Rightarrow> mutable_account \<Rightarrow> panic + (mutable_account \<times> undo list)"
where
  "acctSetCode kc code a =
     (let (a1, optionalRevert) = bump_version a;
          originalCodeHash = codeHash a1;
          newHash = kc code;
          a2 = a1\<lparr>codeHash := newHash\<rparr>
      in if originalCodeHash = newHash then Inr (a2, optionalRevert)
         else rbind
           (if originalCodeHash = EmptyCodeHash kc then Inr (diff_add 1 newHash a2, [UCodeDiffDec])
            else if newHash = EmptyCodeHash kc
              then Inr (diff_add (- 1) originalCodeHash a2, [UCodeDiffInc])
            else Inl OverwriteCode)
           (\<lambda>(a3, optionalRevert2).
              Inr (a3\<lparr>knownCode := Some code\<rparr>,
                   optionalRevert @ optionalRevert2 @ [UCode originalCodeHash (appendNil (knownCode a3))])))"

definition acctOverrideStorage :: "(hash, hash) gmap \<Rightarrow> mutable_account \<Rightarrow> mutable_account \<times> undo list"
where
  "acctOverrideStorage st a =
     (a\<lparr>overriden := True, knownStorage := st\<rparr>, [UOverride (knownStorage a)])"

definition acctSetState :: "hash \<Rightarrow> hash \<Rightarrow> mutable_account \<Rightarrow> mutable_account \<times> undo list" where
  "acctSetState key val a =
     (let (a1, optionalRevert) = bump_version a
      in if dirtyStorage a1 then
           (let a2 = a1\<lparr>knownStorage := mput key val (knownStorage a1)\<rparr>
            in case map_of (knownStorage a1) key of
                 None \<Rightarrow> (a2, optionalRevert @ [UStorageDel key])
               | Some originalVal \<Rightarrow>
                   if originalVal = val then (a2, optionalRevert)
                   else (a2, optionalRevert @ [UStoragePut key originalVal]))
         else (a1\<lparr>dirtyStorage := True, knownStorage := mput key val (knownStorage a1)\<rparr>,
               optionalRevert @ [UDirtyOff, UStorageDel key]))"

definition acctSelfDestruct :: "mutable_account \<Rightarrow> panic + (mutable_account \<times> undo list)" where
  "acctSelfDestruct a =
     (if interpretVersion a = beingDeleted then Inr (a, [])
      else if interpretVersion a = notExisted then Inl DestructNotExisted
      else Inr (a\<lparr>balance := 0, version := version a + 1\<rparr>, [UVersionDec, UBalance (balance a)]))"

subsection \<open>Finalisation and copies\<close>

text \<open>
  \<open>GetFinalized\<close> is called once, on an account that is dropped afterwards: the decrement
  it makes in the account's own \<open>knownCodeDiff\<close> is visible in the map it returns.
\<close>

record finalized =
  finalState :: account_value
  fKnownCode :: "bytes option"
  fKnownCodeDiff :: "(hash, int) gmap"
  fKnownStorage :: "(hash, hash) gmap"
  fOverriden :: bool

definition GetFinalized :: "(bytes \<Rightarrow> hash) \<Rightarrow> mutable_account \<Rightarrow> finalized" where
  "GetFinalized kc a =
     (if interpretVersion a = beingDeleted then
        (let a' = (if codeHash a \<noteq> EmptyCodeHash kc then diff_add (- 1) (codeHash a) a else a)
         in \<lparr> finalState = \<lparr> Nonce = 0, Balance = 0, CodeHash = EmptyCodeHash kc,
                             DirtyStorage = False, Version = version a + 1 \<rparr>,
              fKnownCode = None, fKnownCodeDiff = knownCodeDiff a', fKnownStorage = [],
              fOverriden = overriden a \<rparr>)
      else
        \<lparr> finalState = \<lparr> Nonce = nonce a, Balance = balance a, CodeHash = codeHash a,
                         DirtyStorage = dirtyStorage a, Version = version a \<rparr>,
          fKnownCode = knownCode a, fKnownCodeDiff = knownCodeDiff a,
          fKnownStorage = knownStorage a, fOverriden = overriden a \<rparr>)"

text \<open>The struct literal in \<open>Copy\<close> has no \<open>overriden\<close> field, so the copy has its zero value.\<close>

definition acctCopy :: "mutable_account \<Rightarrow> mutable_account" where
  "acctCopy a =
     \<lparr> aparent = aparent a, addr = addr a, nonce = nonce a, balance = balance a,
       codeHash = codeHash a, dirtyStorage = dirtyStorage a, version = version a,
       knownCode = appendNil (knownCode a), knownCodeDiff = knownCodeDiff a, overriden = False,
       knownStorage = knownStorage a \<rparr>"

lemmas version_consts = notExisted_def updating_def beingDeleted_def versions_def

end
