(* ===== verification/AccountLaws.thy ===== *)
theory AccountLaws
  imports Account
begin

section \<open>Laws of mutable accounts\<close>

text \<open>
  What a caller of an account can rely on: which values it observes (\<open>acct_eq\<close>), that the
  closure a setter returns takes it back to what it observed before (\<open>undoes\<close>), the
  invariant that makes this true (\<open>acct_inv\<close>), and the life cycle of the version.
\<close>

subsection \<open>Observable state\<close>

text \<open>
  The version a slot is read at: the version itself while the account exists, the one before
  while it is being deleted, and the one it will get when it is first written to.
\<close>

definition eff_version :: "mutable_account \<Rightarrow> u64" where
  "eff_version a =
     (if interpretVersion a = beingDeleted then version a - 1
      else if interpretVersion a = notExisted then version a + 1
      else version a)"

definition base_slot :: "mutable_account \<Rightarrow> hash \<Rightarrow> hash" where
  "base_slot a k = (if overriden a then 0 else pvStorage (aparent a) (addr a) (eff_version a) k)"

definition slot :: "mutable_account \<Rightarrow> hash \<Rightarrow> hash" where
  "slot a k = (case map_of (knownStorage a) k of Some v \<Rightarrow> v | None \<Rightarrow> base_slot a k)"

definition code_of :: "(bytes \<Rightarrow> hash) \<Rightarrow> mutable_account \<Rightarrow> bytes" where
  "code_of kc a = fst (acctCode kc a)"

definition acct_eq :: "(bytes \<Rightarrow> hash) \<Rightarrow> mutable_account \<Rightarrow> mutable_account \<Rightarrow> bool" where
  "acct_eq kc a b =
     (aparent a = aparent b \<and> addr a = addr b \<and> nonce a = nonce b \<and> balance a = balance b \<and>
      codeHash a = codeHash b \<and> dirtyStorage a = dirtyStorage b \<and> version a = version b \<and>
      overriden a = overriden b \<and> code_of kc a = code_of kc b \<and>
      mget_or 0 (knownCodeDiff a) = mget_or 0 (knownCodeDiff b) \<and> slot a = slot b)"

lemma acct_eq_refl [simp]: "acct_eq kc a a"
  by (simp add: acct_eq_def)

lemma acct_eq_sym: "acct_eq kc a b \<Longrightarrow> acct_eq kc b a"
  by (auto simp: acct_eq_def)

lemma acct_eq_trans: "acct_eq kc a b \<Longrightarrow> acct_eq kc b c \<Longrightarrow> acct_eq kc a c"
  by (auto simp: acct_eq_def)

text \<open>
  The invariant: a missing account has no storage and its version can still grow; the slots
  cached for an account without storage are the ones its parent would give.
\<close>

definition acct_inv :: "mutable_account \<Rightarrow> bool" where
  "acct_inv a =
     ((interpretVersion a = notExisted \<longrightarrow> \<not> dirtyStorage a \<and> version a \<noteq> - 1) \<and>
      (\<not> dirtyStorage a \<longrightarrow> slot a = base_slot a))"

lemma interpretVersion_cong: "version a = version b \<Longrightarrow> interpretVersion a = interpretVersion b"
  by (simp add: interpretVersion_def)

lemma eff_version_cong: "version a = version b \<Longrightarrow> eff_version a = eff_version b"
  by (simp add: eff_version_def interpretVersion_def)

lemma base_slot_cong:
  "aparent a = aparent b \<Longrightarrow> addr a = addr b \<Longrightarrow> overriden a = overriden b \<Longrightarrow>
   eff_version a = eff_version b \<Longrightarrow> base_slot a = base_slot b"
  by (simp add: base_slot_def fun_eq_iff)

lemma acct_eq_base_slot: "acct_eq kc a b \<Longrightarrow> base_slot a = base_slot b"
  by (rule base_slot_cong) (auto simp: acct_eq_def intro: eff_version_cong)

lemma acct_inv_cong: "acct_eq kc a b \<Longrightarrow> acct_inv a = acct_inv b"
  using acct_eq_base_slot [of kc a b]
  by (auto simp: acct_inv_def acct_eq_def interpretVersion_def)

lemma code_of_alt:
  "code_of kc a = (if codeHash a = EmptyCodeHash kc then []
     else case knownCode a of Some c \<Rightarrow> c | None \<Rightarrow> pvCode (aparent a) (codeHash a))"
  by (simp add: code_of_def acctCode_def Let_def split: option.split)

text \<open>Updates the observations do not depend on.\<close>

lemma interpretVersion_upd [simp]:
  "interpretVersion (a\<lparr>nonce := n\<rparr>) = interpretVersion a"
  "interpretVersion (a\<lparr>balance := b\<rparr>) = interpretVersion a"
  "interpretVersion (a\<lparr>codeHash := h\<rparr>) = interpretVersion a"
  "interpretVersion (a\<lparr>dirtyStorage := d\<rparr>) = interpretVersion a"
  "interpretVersion (a\<lparr>knownCode := c\<rparr>) = interpretVersion a"
  "interpretVersion (a\<lparr>knownCodeDiff := kd\<rparr>) = interpretVersion a"
  "interpretVersion (a\<lparr>overriden := ov\<rparr>) = interpretVersion a"
  "interpretVersion (a\<lparr>knownStorage := st\<rparr>) = interpretVersion a"
  by (simp_all add: interpretVersion_def)

lemma eff_version_upd [simp]:
  "eff_version (a\<lparr>nonce := n\<rparr>) = eff_version a"
  "eff_version (a\<lparr>balance := b\<rparr>) = eff_version a"
  "eff_version (a\<lparr>codeHash := h\<rparr>) = eff_version a"
  "eff_version (a\<lparr>dirtyStorage := d\<rparr>) = eff_version a"
  "eff_version (a\<lparr>knownCode := c\<rparr>) = eff_version a"
  "eff_version (a\<lparr>knownCodeDiff := kd\<rparr>) = eff_version a"
  "eff_version (a\<lparr>overriden := ov\<rparr>) = eff_version a"
  "eff_version (a\<lparr>knownStorage := st\<rparr>) = eff_version a"
  by (simp_all add: eff_version_def)

lemma base_slot_upd [simp]:
  "base_slot (a\<lparr>nonce := n\<rparr>) = base_slot a" "base_slot (a\<lparr>balance := b\<rparr>) = base_slot a"
  "base_slot (a\<lparr>codeHash := h\<rparr>) = base_slot a" "base_slot (a\<lparr>dirtyStorage := d\<rparr>) = base_slot a"
  "base_slot (a\<lparr>knownCode := c\<rparr>) = base_slot a" "base_slot (a\<lparr>knownCodeDiff := kd\<rparr>) = base_slot a"
  "base_slot (a\<lparr>knownStorage := st\<rparr>) = base_slot a"
  by (simp_all add: base_slot_def fun_eq_iff)

lemma slot_upd [simp]:
  "slot (a\<lparr>nonce := n\<rparr>) = slot a" "slot (a\<lparr>balance := b\<rparr>) = slot a"
  "slot (a\<lparr>codeHash := h\<rparr>) = slot a" "slot (a\<lparr>dirtyStorage := d\<rparr>) = slot a"
  "slot (a\<lparr>knownCode := c\<rparr>) = slot a" "slot (a\<lparr>knownCodeDiff := kd\<rparr>) = slot a"
  by (simp_all add: slot_def fun_eq_iff split: option.split)

lemma slot_mput [simp]:
  "slot (a\<lparr>knownStorage := mput k v (knownStorage a)\<rparr>) = (slot a)(k := v)"
  by (auto simp: slot_def fun_eq_iff split: option.split)

lemma slot_mdel [simp]:
  "slot (a\<lparr>knownStorage := mdel k (knownStorage a)\<rparr>) = (slot a)(k := base_slot a k)"
  by (auto simp: slot_def fun_eq_iff split: option.split)

lemma slot_mdel_dirty [simp]:
  "slot (a\<lparr>dirtyStorage := d, knownStorage := mdel k (knownStorage a)\<rparr>) = (slot a)(k := base_slot a k)"
  using slot_mdel [of k "a\<lparr>dirtyStorage := d\<rparr>"] by simp

lemma code_of_upd [simp]:
  "code_of kc (a\<lparr>nonce := n\<rparr>) = code_of kc a" "code_of kc (a\<lparr>balance := b\<rparr>) = code_of kc a"
  "code_of kc (a\<lparr>dirtyStorage := d\<rparr>) = code_of kc a" "code_of kc (a\<lparr>version := v\<rparr>) = code_of kc a"
  "code_of kc (a\<lparr>knownCodeDiff := kd\<rparr>) = code_of kc a"
  "code_of kc (a\<lparr>overriden := ov\<rparr>) = code_of kc a"
  "code_of kc (a\<lparr>knownStorage := st\<rparr>) = code_of kc a"
  by (simp_all add: code_of_alt split: option.split)

subsection \<open>The version steps\<close>

lemma interpretVersion_cases:
  obtains "interpretVersion a = notExisted" | "interpretVersion a = updating"
    | "interpretVersion a = beingDeleted"
  by (rule mod3_cases [of "version a"]) (auto simp: interpretVersion_def version_consts)

lemma distinct_phases [simp]:
  "notExisted \<noteq> updating" "notExisted \<noteq> beingDeleted" "updating \<noteq> beingDeleted"
  "updating \<noteq> notExisted" "beingDeleted \<noteq> notExisted" "beingDeleted \<noteq> updating"
  by (simp_all add: version_consts)

lemma interpretVersion_Suc:
  "interpretVersion a = notExisted \<Longrightarrow> version a \<noteq> - 1 \<Longrightarrow>
     interpretVersion (a\<lparr>version := version a + 1\<rparr>) = updating"
  "interpretVersion a = updating \<Longrightarrow>
     interpretVersion (a\<lparr>version := version a + 1\<rparr>) = beingDeleted"
  by (simp_all add: interpretVersion_def version_consts mod3_succ)

text \<open>Bringing an account into existence, and marking it deleted, keep the slots it shows.\<close>

lemma eff_version_Suc:
  assumes "interpretVersion a = notExisted \<and> version a \<noteq> - 1 \<or> interpretVersion a = updating"
  shows "eff_version (a\<lparr>version := version a + 1\<rparr>) = eff_version a"
  using assms interpretVersion_Suc [of a] by (auto simp: eff_version_def)

lemma slot_version:
  "eff_version (a\<lparr>version := v\<rparr>) = eff_version a \<Longrightarrow> slot (a\<lparr>version := v\<rparr>) = slot a"
  by (simp add: slot_def base_slot_def fun_eq_iff split: option.split)

lemma base_slot_version:
  "eff_version (a\<lparr>version := v\<rparr>) = eff_version a \<Longrightarrow> base_slot (a\<lparr>version := v\<rparr>) = base_slot a"
  by (simp add: base_slot_def fun_eq_iff)

subsection \<open>The contract of a setter\<close>

text \<open>
  What the transaction state relies on when it records a setter's closure in its journal: on
  every account that shows what the setter left behind, the closure brings back what the
  account showed before the call (whatever reads have cached meanwhile), and the setter keeps
  the invariant. \<open>pre\<close> is the situation the contract is claimed for.
\<close>

locale undoable =
  fixes kc :: "bytes \<Rightarrow> hash"
    and setter :: "mutable_account \<Rightarrow> panic + (mutable_account \<times> undo list)"
    and pre :: "mutable_account \<Rightarrow> bool"
  assumes undo_back: "acct_inv a \<Longrightarrow> pre a \<Longrightarrow> setter a = Inr (a', us) \<Longrightarrow> acct_eq kc b a' \<Longrightarrow>
      acct_eq kc (run_undos us b) a"
    and keeps_inv: "acct_inv a \<Longrightarrow> pre a \<Longrightarrow> setter a = Inr (a', us) \<Longrightarrow> acct_inv a'"
    and keeps_place: "setter a = Inr (a', us) \<Longrightarrow> aparent a' = aparent a \<and> addr a' = addr a"
begin

lemma undo_at_once: "acct_inv a \<Longrightarrow> pre a \<Longrightarrow> setter a = Inr (a', us) \<Longrightarrow> acct_eq kc (run_undos us a') a"
  by (rule undo_back) auto

lemma undo_inv: "acct_inv a \<Longrightarrow> pre a \<Longrightarrow> setter a = Inr (a', us) \<Longrightarrow> acct_eq kc b a' \<Longrightarrow>
    acct_inv (run_undos us b)"
  using undo_back acct_inv_cong by blast

end

lemma acct_inv_version: "acct_inv a \<Longrightarrow> interpretVersion a = notExisted \<Longrightarrow> version a \<noteq> - 1"
  by (simp add: acct_inv_def)

lemma bump_version_eq:
  assumes "bump_version a = (a1, us)" and "interpretVersion a = notExisted \<Longrightarrow> version a \<noteq> - 1"
  shows "a1 = a\<lparr>version := version a1\<rparr>"
    and "version c = version a \<Longrightarrow> eff_version (c\<lparr>version := version a1\<rparr>) = eff_version c"
    and "interpretVersion a1 \<noteq> notExisted"
proof -
  show "a1 = a\<lparr>version := version a1\<rparr>"
    using assms(1) by (auto simp: bump_version_def split: if_splits)
  show "interpretVersion a1 \<noteq> notExisted"
    using assms interpretVersion_Suc [of a] by (auto simp: bump_version_def split: if_splits)
  assume c: "version c = version a"
  then have iv: "interpretVersion c = interpretVersion a" by (rule interpretVersion_cong)
  show "eff_version (c\<lparr>version := version a1\<rparr>) = eff_version c"
  proof (cases "interpretVersion a = notExisted")
    case True
    then have "version a1 = version c + 1" using assms(1) c by (auto simp: bump_version_def)
    with True assms(2) iv c show ?thesis using eff_version_Suc [of c] by simp
  next
    case False
    then have "version a1 = version a" using assms(1) by (auto simp: bump_version_def)
    with c show ?thesis by (auto intro!: eff_version_cong)
  qed
qed

lemma bump_undo:
  assumes "bump_version a = (a1, us)" and "interpretVersion a = notExisted \<Longrightarrow> version a \<noteq> - 1"
    and "version c = version a" and "acct_eq kc b (c\<lparr>version := version a1\<rparr>)"
  shows "acct_eq kc (run_undos us b) c"
proof -
  have eff: "eff_version (c\<lparr>version := version a1\<rparr>) = eff_version c"
    using bump_version_eq(2) [OF assms(1,2) assms(3)] by blast
  then have sl: "slot (c\<lparr>version := version a1\<rparr>) = slot c" by (rule slot_version)
  show ?thesis
  proof (cases "interpretVersion a = notExisted")
    case False
    then have "us = []" "version a1 = version c"
      using assms(1,3) by (auto simp: bump_version_def)
    with assms(4) show ?thesis by (simp add: acct_eq_def sl)
  next
    case True
    then have us: "us = [UVersionDec]" and v: "version a1 = version c + 1"
      using assms(1,3) by (auto simp: bump_version_def)
    have vb: "version b = version c + 1" using assms(4) v by (simp add: acct_eq_def)
    have "eff_version (b\<lparr>version := version c\<rparr>) = eff_version c"
      by (rule eff_version_cong) simp
    also have "\<dots> = eff_version b"
      using eff vb v by (metis eff_version_cong mutable_account.select_convs(7) mutable_account.surjective mutable_account.update_convs(7))
    finally have slb: "slot (b\<lparr>version := version c\<rparr>) = slot b" by (rule slot_version)
    have r: "run_undos us b = b\<lparr>version := version c\<rparr>" using us vb by simp
    show ?thesis unfolding r using assms(4) by (simp add: acct_eq_def sl slb)
  qed
qed

lemma acct_inv_bump:
  assumes "acct_inv a" and "bump_version a = (a1, us)"
  shows "acct_inv a1"
proof -
  note b = bump_version_eq [OF assms(2) acct_inv_version [OF assms(1)]]
  have eff: "eff_version (a\<lparr>version := version a1\<rparr>) = eff_version a" by (rule b(2)) simp_all
  have "slot a1 = slot a" "base_slot a1 = base_slot a" "dirtyStorage a1 = dirtyStorage a"
    using slot_version [OF eff] base_slot_version [OF eff] b(1) by (metis, metis, (metis mutable_account.select_convs(6) mutable_account.surjective mutable_account.update_convs(7)))
  with b(3) assms(1) show ?thesis by (auto simp: acct_inv_def)
qed

subsection \<open>Every setter keeps the contract\<close>

lemma acct_eq_updI:
  "acct_eq kc b c \<Longrightarrow> acct_eq kc (b\<lparr>nonce := n\<rparr>) (c\<lparr>nonce := n\<rparr>)"
  "acct_eq kc b c \<Longrightarrow> acct_eq kc (b\<lparr>balance := x\<rparr>) (c\<lparr>balance := x\<rparr>)"
  "acct_eq kc b c \<Longrightarrow> acct_eq kc (b\<lparr>dirtyStorage := d\<rparr>) (c\<lparr>dirtyStorage := d\<rparr>)"
  "acct_eq kc b c \<Longrightarrow>
     acct_eq kc (b\<lparr>knownStorage := mput k v (knownStorage b)\<rparr>) (c\<lparr>knownStorage := mput k v (knownStorage c)\<rparr>)"
  "acct_eq kc b c \<Longrightarrow>
     acct_eq kc (b\<lparr>knownStorage := mdel k (knownStorage b)\<rparr>) (c\<lparr>knownStorage := mdel k (knownStorage c)\<rparr>)"
  using acct_eq_base_slot [of kc b c] by (simp_all add: acct_eq_def)

lemma acct_inv_upd [simp]:
  "acct_inv (a\<lparr>nonce := n\<rparr>) = acct_inv a" "acct_inv (a\<lparr>balance := x\<rparr>) = acct_inv a"
  "acct_inv (a\<lparr>codeHash := h\<rparr>) = acct_inv a" "acct_inv (a\<lparr>knownCode := c\<rparr>) = acct_inv a"
  "acct_inv (a\<lparr>knownCodeDiff := kd\<rparr>) = acct_inv a"
  by (simp_all add: acct_inv_def)

lemma bump_version_place: "bump_version a = (a1, us) \<Longrightarrow> aparent a1 = aparent a \<and> addr a1 = addr a"
  by (auto simp: bump_version_def split: if_splits)

lemma create_undo:
  assumes "acct_inv a" "acctCreate kc a = Inr (a', us)"
  shows "acct_eq kc b a' \<Longrightarrow> acct_eq kc (run_undos us b) a" and "acct_inv a'"
proof -
  show "acct_inv a'"
  proof (cases "interpretVersion a = notExisted")
    case True
    then have "bump_version a = (a', us)" using assms(2)
      by (auto simp: bump_version_def acctCreate_def)
    with assms(1) show ?thesis by (rule acct_inv_bump)
  next
    case False
    with assms show ?thesis
      by (cases rule: interpretVersion_cases [of a]) (auto simp: acctCreate_def split: if_splits)
  qed
  assume b: "acct_eq kc b a'"
  show "acct_eq kc (run_undos us b) a"
  proof (cases "interpretVersion a = notExisted")
    case True
    then have bv: "bump_version a = (a', us)" using assms(2)
      by (auto simp: bump_version_def acctCreate_def)
    note v = acct_inv_version [OF assms(1)]
    show ?thesis by (rule bump_undo [OF bv v refl]) (use b bump_version_eq(1) [OF bv v] in simp_all)
  next
    case False
    with assms b show ?thesis
      by (cases rule: interpretVersion_cases [of a]) (auto simp: acctCreate_def split: if_splits)
  qed
qed

lemma create_place: "acctCreate kc a = Inr (a', us) \<Longrightarrow> aparent a' = aparent a \<and> addr a' = addr a"
  by (auto simp: acctCreate_def split: if_splits)

interpretation create: undoable kc "acctCreate kc" "\<lambda>_. True" for kc
  by unfold_locales (blast intro: create_undo dest: create_place)+

lemma version_first:
  "a\<lparr>version := v, nonce := n\<rparr> = a\<lparr>nonce := n, version := v\<rparr>"
  "a\<lparr>version := v, balance := x\<rparr> = a\<lparr>balance := x, version := v\<rparr>"
  "a\<lparr>version := v, knownStorage := st\<rparr> = a\<lparr>knownStorage := st, version := v\<rparr>"
  "a\<lparr>version := v, dirtyStorage := d\<rparr> = a\<lparr>dirtyStorage := d, version := v\<rparr>"
  "a\<lparr>version := v, dirtyStorage := d, knownStorage := st\<rparr> =
     a\<lparr>dirtyStorage := d, knownStorage := st, version := v\<rparr>"
  by (cases a; simp)+

text \<open>What is known of an account before and after \<open>bump_version\<close>, in one place.\<close>

lemma bumpE:
  assumes "acct_inv a"
  obtains v ous where "bump_version a = (a\<lparr>version := v\<rparr>, ous)"
    and "interpretVersion (a\<lparr>version := v\<rparr>) \<noteq> notExisted" and "acct_inv (a\<lparr>version := v\<rparr>)"
    and "\<And>b c. version c = version a \<Longrightarrow> acct_eq kc b (c\<lparr>version := v\<rparr>) \<Longrightarrow>
           acct_eq kc (run_undos ous b) c"
proof -
  obtain a1 ous where bv: "bump_version a = (a1, ous)" by fastforce
  note v = acct_inv_version [OF assms]
  note b = bump_version_eq [OF bv v]
  note inv = acct_inv_bump [OF assms bv]
  show thesis
  proof (rule that [of "version a1" ous])
    show "bump_version a = (a\<lparr>version := version a1\<rparr>, ous)" using bv b(1) by simp
    show "interpretVersion (a\<lparr>version := version a1\<rparr>) \<noteq> notExisted" using b(1,3) by metis
    show "acct_inv (a\<lparr>version := version a1\<rparr>)" using b(1) inv by metis
    show "acct_eq kc (run_undos ous x) c"
      if "version c = version a" "acct_eq kc x (c\<lparr>version := version a1\<rparr>)" for x c
      by (rule bump_undo [OF bv v that(1) that(2)])
  qed
qed

lemma setNonce_undo:
  assumes inv: "acct_inv a" and set: "acctSetNonce n a = (a', us)"
  shows "acct_eq kc b a' \<Longrightarrow> acct_eq kc (run_undos us b) a" and "acct_inv a'"
proof -
  obtain v ous where bv: "bump_version a = (a\<lparr>version := v\<rparr>, ous)" "acct_inv (a\<lparr>version := v\<rparr>)"
    "\<And>b c. version c = version a \<Longrightarrow> acct_eq kc b (c\<lparr>version := v\<rparr>) \<Longrightarrow> acct_eq kc (run_undos ous b) c"
    using bumpE [OF inv, of kc] by metis
  have a': "a' = a\<lparr>version := v\<rparr>\<lparr>nonce := n\<rparr>"
    and us: "us = ous @ (if nonce a = n then [] else [UNonce (nonce a)])"
    using set bv(1) by (auto simp: acctSetNonce_def Let_def split: if_splits)
  show "acct_inv a'" using bv(2) a' by simp
  assume "acct_eq kc b a'"
  then have "acct_eq kc (run_undos ous b) (a\<lparr>nonce := n\<rparr>)"
    unfolding a' version_first by (intro bv(3)) simp_all
  from acct_eq_updI(1) [OF this, of "nonce a"] this show "acct_eq kc (run_undos us b) a"
    by (auto simp: us)
qed

lemma setNonce_place: "acctSetNonce n a = (a', us) \<Longrightarrow> aparent a' = aparent a \<and> addr a' = addr a"
  by (auto dest: bump_version_place simp: acctSetNonce_def Let_def split: prod.splits if_splits)

interpretation setNonce: undoable kc "\<lambda>a. Inr (acctSetNonce n a)" "\<lambda>_. True" for kc n
  by unfold_locales (auto intro: setNonce_undo dest: setNonce_place)

lemma setBalance_undo:
  assumes inv: "acct_inv a" and set: "acctSetBalance x a = (a', us)"
  shows "acct_eq kc b a' \<Longrightarrow> acct_eq kc (run_undos us b) a" and "acct_inv a'"
proof -
  obtain v ous where bv: "bump_version a = (a\<lparr>version := v\<rparr>, ous)" "acct_inv (a\<lparr>version := v\<rparr>)"
    "\<And>b c. version c = version a \<Longrightarrow> acct_eq kc b (c\<lparr>version := v\<rparr>) \<Longrightarrow> acct_eq kc (run_undos ous b) c"
    using bumpE [OF inv, of kc] by metis
  have a': "a' = a\<lparr>version := v\<rparr>\<lparr>balance := x\<rparr>"
    and us: "us = ous @ (if balance a = x then [] else [UBalance (balance a)])"
    using set bv(1) by (auto simp: acctSetBalance_def Let_def split: if_splits)
  show "acct_inv a'" using bv(2) a' by simp
  assume "acct_eq kc b a'"
  then have "acct_eq kc (run_undos ous b) (a\<lparr>balance := x\<rparr>)"
    unfolding a' version_first by (intro bv(3)) simp_all
  from acct_eq_updI(2) [OF this, of "balance a"] this show "acct_eq kc (run_undos us b) a"
    by (auto simp: us)
qed

lemma setBalance_place: "acctSetBalance x a = (a', us) \<Longrightarrow> aparent a' = aparent a \<and> addr a' = addr a"
  by (auto dest: bump_version_place simp: acctSetBalance_def Let_def split: prod.splits if_splits)

interpretation setBalance: undoable kc "\<lambda>a. Inr (acctSetBalance x a)" "\<lambda>_. True" for kc x
  by unfold_locales (auto intro: setBalance_undo dest: setBalance_place)

text \<open>
  \<open>SetState\<close> on an account that had no storage: the closure forgets the slot and clears the
  dirty flag, which is right because by the invariant nothing but the parent's value is lost.
\<close>

lemma setState_undo:
  assumes inv: "acct_inv a" and set: "acctSetState k w a = (a', us)"
  shows "acct_eq kc b a' \<Longrightarrow> acct_eq kc (run_undos us b) a" and "acct_inv a'"
proof -
  obtain v ous where bv: "bump_version a = (a\<lparr>version := v\<rparr>, ous)"
    "interpretVersion (a\<lparr>version := v\<rparr>) \<noteq> notExisted"
    "\<And>b c. version c = version a \<Longrightarrow> acct_eq kc b (c\<lparr>version := v\<rparr>) \<Longrightarrow> acct_eq kc (run_undos ous b) c"
    using bumpE [OF inv, of kc] by metis
  define a2 where "a2 = a\<lparr>dirtyStorage := True, knownStorage := mput k w (knownStorage a)\<rparr>"
  define tl where "tl = (if dirtyStorage a then
      (case map_of (knownStorage a) k of None \<Rightarrow> [UStorageDel k]
       | Some x \<Rightarrow> if x = w then [] else [UStoragePut k x]) else [UDirtyOff, UStorageDel k])"
  have d: "dirtyStorage a \<Longrightarrow> a\<lparr>dirtyStorage := True\<rparr> = a" by (cases a) simp
  have a': "a' = a2\<lparr>version := v\<rparr>" and us: "us = ous @ tl"
  proof -
    have "a2\<lparr>version := v\<rparr> = a\<lparr>version := v, dirtyStorage := True, knownStorage := mput k w (knownStorage a)\<rparr>"
      by (simp add: a2_def version_first)
    moreover have "dirtyStorage a \<Longrightarrow> a\<lparr>version := v, dirtyStorage := True\<rparr> = a\<lparr>version := v\<rparr>"
      by (cases a) simp
    ultimately have "acctSetState k w a = (a2\<lparr>version := v\<rparr>, ous @ tl)"
      by (cases "map_of (knownStorage a) k") (simp_all add: acctSetState_def bv(1) tl_def)
    with set show "a' = a2\<lparr>version := v\<rparr>" "us = ous @ tl" by simp_all
  qed
  show "acct_inv a'"
    using bv(2) a' by (simp add: acct_inv_def a2_def interpretVersion_def)
  assume "acct_eq kc b a'"
  then have ba2: "acct_eq kc (run_undos ous b) a2"
    unfolding a' by (intro bv(3)) (simp_all add: a2_def)
  have "acct_eq kc (run_undos tl (run_undos ous b)) a"
  proof (cases "dirtyStorage a")
    case True
    then have "a2 = a\<lparr>knownStorage := mput k w (knownStorage a)\<rparr>" using d by (simp add: a2_def)
    then have eq: "acct_eq kc (run_undos ous b) (a\<lparr>knownStorage := mput k w (knownStorage a)\<rparr>)"
      using ba2 by simp
    show ?thesis
    proof (cases "map_of (knownStorage a) k")
      case None
      then have "slot a k = base_slot a k" by (simp add: slot_def)
      then show ?thesis using acct_eq_updI(5) [OF eq, of k] True None
        by (simp add: tl_def acct_eq_def fun_upd_idem)
    next
      case (Some x)
      then have "slot a k = x" by (simp add: slot_def)
      then show ?thesis using acct_eq_updI(4) [OF eq, of k x] eq True Some
        by (auto simp: tl_def acct_eq_def fun_upd_idem)
    qed
  next
    case False
    then have sl: "slot a k = base_slot a k" using inv by (simp add: acct_inv_def)
    have "acct_eq kc (run_undos ous b\<lparr>dirtyStorage := False\<rparr>) (a2\<lparr>dirtyStorage := False\<rparr>)"
      by (rule acct_eq_updI(3) [OF ba2])
    from acct_eq_updI(5) [OF this, of k] False sl show ?thesis
      by (simp add: tl_def a2_def acct_eq_def fun_upd_idem)
  qed
  then show "acct_eq kc (run_undos us b) a" by (simp add: us)
qed

lemma setState_place: "acctSetState k v a = (a', us) \<Longrightarrow> aparent a' = aparent a \<and> addr a' = addr a"
  by (auto dest: bump_version_place simp: acctSetState_def Let_def split: prod.splits if_splits option.splits)

interpretation setState: undoable kc "\<lambda>a. Inr (acctSetState k v a)" "\<lambda>_. True" for kc k v
  by unfold_locales (auto intro: setState_undo dest: setState_place)

lemma selfDestruct_undo:
  assumes inv: "acct_inv a" and set: "acctSelfDestruct a = Inr (a', us)"
  shows "acct_eq kc b a' \<Longrightarrow> acct_eq kc (run_undos us b) a" and "acct_inv a'"
proof -
  have "acct_inv a' \<and> (acct_eq kc b a' \<longrightarrow> acct_eq kc (run_undos us b) a)"
  proof (cases rule: interpretVersion_cases [of a])
    case 1
    with set show ?thesis by (simp add: acctSelfDestruct_def)
  next
    case 3
    with set inv show ?thesis by (simp add: acctSelfDestruct_def)
  next
    case 2
    define c where "c = a\<lparr>balance := 0\<rparr>"
    have ivc: "interpretVersion c = updating" using 2 by (simp add: c_def)
    have vc: "version c = version a" by (simp add: c_def)
    have a': "a' = c\<lparr>version := version c + 1\<rparr>" and us: "us = [UVersionDec, UBalance (balance a)]"
      using set 2 by (auto simp: acctSelfDestruct_def c_def)
    have eff: "eff_version (c\<lparr>version := version c + 1\<rparr>) = eff_version c"
      using ivc eff_version_Suc by blast
    have iva: "interpretVersion a' = beingDeleted"
      unfolding a' using ivc interpretVersion_Suc(2) by blast
    have invc: "acct_inv c" using inv by (simp add: c_def)
    have "acct_inv a'"
      using invc iva slot_version [OF eff] base_slot_version [OF eff] a' by (simp add: acct_inv_def)
    moreover have "acct_eq kc (run_undos us b) a" if b: "acct_eq kc b a'"
    proof -
      have vb: "version b = version c + 1" using b a' by (simp add: acct_eq_def)
      have "eff_version (b\<lparr>version := version c\<rparr>) = eff_version c"
        by (rule eff_version_cong) simp
      also have "\<dots> = eff_version a'" using eff a' by simp
      also have "\<dots> = eff_version b" by (rule eff_version_cong) (simp add: a' vb)
      finally have slb: "slot (b\<lparr>version := version a\<rparr>) = slot b"
        unfolding vc by (rule slot_version)
      have r: "run_undos us b = b\<lparr>version := version c, balance := balance a\<rparr>"
        using us vb by simp
      show ?thesis unfolding r using b slot_version [OF eff]
        by (simp add: acct_eq_def slb a' c_def)
    qed
    ultimately show ?thesis by blast
  qed
  then show "acct_eq kc b a' \<Longrightarrow> acct_eq kc (run_undos us b) a" and "acct_inv a'" by auto
qed

lemma selfDestruct_place:
  "acctSelfDestruct a = Inr (a', us) \<Longrightarrow> aparent a' = aparent a \<and> addr a' = addr a"
  by (auto simp: acctSelfDestruct_def split: if_splits)

interpretation selfDestruct: undoable kc acctSelfDestruct "\<lambda>_. True" for kc
  by unfold_locales (blast intro: selfDestruct_undo dest: selfDestruct_place)+

text \<open>
  \<open>SetCode\<close> keeps the contract when it adds code to an account without code, or sets the code
  the account already has. When it removes code, its closure does not: it adds 1 to the counter
  of the empty code instead of the code that was removed (\<open>setCode_removal_undo\<close>).
\<close>

definition adds_code :: "(bytes \<Rightarrow> hash) \<Rightarrow> bytes \<Rightarrow> mutable_account \<Rightarrow> bool" where
  "adds_code kc code a = (codeHash a = EmptyCodeHash kc \<or> codeHash a = kc code)"

lemma appendNil_code:
  "codeHash a = EmptyCodeHash kc \<Longrightarrow> code_of kc (a\<lparr>knownCode := appendNil c\<rparr>) = code_of kc a"
  by (simp add: code_of_alt)

lemma setCode_undo:
  assumes inv: "acct_inv a" and pre: "adds_code kc code a"
    and set: "acctSetCode kc code a = Inr (a', us)"
  shows "acct_eq kc b a' \<Longrightarrow> acct_eq kc (run_undos us b) a" and "acct_inv a'"
proof -
  obtain v ous where bv: "bump_version a = (a\<lparr>version := v\<rparr>, ous)" "acct_inv (a\<lparr>version := v\<rparr>)"
    "\<And>b c. version c = version a \<Longrightarrow> acct_eq kc b (c\<lparr>version := v\<rparr>) \<Longrightarrow> acct_eq kc (run_undos ous b) c"
    using bumpE [OF inv, of kc] by metis
  have "acct_inv a' \<and> (acct_eq kc b a' \<longrightarrow> acct_eq kc (run_undos us b) a)"
  proof (cases "codeHash a = kc code")
    case True
    have "a\<lparr>version := v, codeHash := kc code\<rparr> = a\<lparr>version := v\<rparr>" using True by (cases a) simp
    then have "a' = a\<lparr>version := v\<rparr>" "us = ous"
      using set bv(1) True by (auto simp: acctSetCode_def Let_def)
    with bv(2) bv(3) [of a b] show ?thesis by simp
  next
    case False
    then have emp: "codeHash a = EmptyCodeHash kc" using pre by (simp add: adds_code_def)
    define c where "c = (diff_add 1 (kc code) (a\<lparr>codeHash := kc code\<rparr>))\<lparr>knownCode := Some code\<rparr>"
    have a': "a' = c\<lparr>version := v\<rparr>"
      and us: "us = ous @ [UCodeDiffDec, UCode (EmptyCodeHash kc) (appendNil (knownCode a))]"
      using set bv(1) False emp
      by (auto simp: acctSetCode_def Let_def diff_add_def c_def)
    have "a' = a\<lparr>version := v, codeHash := kc code,
        knownCodeDiff := mput (kc code) (mget_or 0 (knownCodeDiff a) (kc code) + 1) (knownCodeDiff a),
        knownCode := Some code\<rparr>"
      unfolding a' c_def diff_add_def by (cases a) simp
    then have "acct_inv a'" using bv(2) by simp
    moreover have "acct_eq kc (run_undos us b) a" if "acct_eq kc b a'"
    proof -
      have "acct_eq kc (run_undos ous b) c"
        using that unfolding a' by (intro bv(3)) (simp_all add: c_def diff_add_def)
      then show ?thesis unfolding us using emp
        by (auto simp: acct_eq_def c_def diff_add_def code_of_alt fun_eq_iff)
    qed
    ultimately show ?thesis by blast
  qed
  then show "acct_eq kc b a' \<Longrightarrow> acct_eq kc (run_undos us b) a" and "acct_inv a'" by auto
qed

lemma setCode_place:
  "acctSetCode kc code a = Inr (a', us) \<Longrightarrow> aparent a' = aparent a \<and> addr a' = addr a"
  by (auto dest!: bump_version_place simp: acctSetCode_def Let_def rbind_Inr_iff diff_add_def
      split: prod.splits if_splits)

interpretation setCode: undoable kc "acctSetCode kc code" "adds_code kc code" for kc code
  by unfold_locales (blast intro: setCode_undo dest: setCode_place)+

text \<open>
  The removal of code, undone: the counter of the code that was removed has lost one, and the
  closure gave it back to the empty code.
\<close>

lemma setCode_removal_undo:
  assumes "codeHash a \<noteq> EmptyCodeHash kc" and "acctSetCode kc [] a = Inr (a', us)"
  shows "mget_or 0 (knownCodeDiff (run_undos us a')) (codeHash a) =
      mget_or 0 (knownCodeDiff a) (codeHash a) - 1"
    and "mget_or 0 (knownCodeDiff (run_undos us a')) (EmptyCodeHash kc) =
      mget_or 0 (knownCodeDiff a) (EmptyCodeHash kc) + 1"
  using assms
  by (auto simp: acctSetCode_def Let_def diff_add_def bump_version_def EmptyCodeHash_def split: if_splits)

text \<open>Code that is not empty cannot be replaced by other code: the setter panics.\<close>

lemma setCode_overwrite:
  assumes "codeHash a \<noteq> EmptyCodeHash kc" "kc code \<noteq> EmptyCodeHash kc" "codeHash a \<noteq> kc code"
  shows "acctSetCode kc code a = Inl OverwriteCode"
  using assms by (auto simp: acctSetCode_def Let_def bump_version_def split: if_splits)

subsection \<open>Reads are invisible\<close>

lemma code_read [simp]: "fst (acctCode kc a) = code_of kc a"
  by (simp add: code_of_def)

lemma code_read_eq: "acct_eq kc (snd (acctCode kc a)) a"
  by (auto simp: acctCode_def Let_def acct_eq_def code_of_alt slot_def base_slot_def split: option.splits)

lemma acctCode_place: "aparent (snd (acctCode kc a)) = aparent a \<and> addr (snd (acctCode kc a)) = addr a"
  by (simp add: acctCode_def Let_def split: option.splits)

lemma base_slot_read:
  assumes "acct_inv a" and "dirtyStorage a"
  shows "base_slot a k = (if overriden a then 0 else
     if interpretVersion a = beingDeleted then pvStorage (aparent a) (addr a) (version a - 1) k
     else pvStorage (aparent a) (addr a) (version a) k)"
proof -
  have "interpretVersion a \<noteq> notExisted" using assms by (auto simp: acct_inv_def)
  then show ?thesis by (simp add: base_slot_def eff_version_def)
qed

lemma getState_value:
  assumes "acct_inv a"
  shows "fst (acctGetState a k) = (if dirtyStorage a then slot a k else 0)"
  using base_slot_read [OF assms, of k]
  by (simp add: acctGetState_def slot_def Let_def split: option.split)

lemma getState_eq:
  assumes "acct_inv a"
  shows "acct_eq kc (snd (acctGetState a k)) a"
proof (cases "dirtyStorage a \<and> map_of (knownStorage a) k = None")
  case True
  have s: "snd (acctGetState a k) = a\<lparr>knownStorage := mput k (base_slot a k) (knownStorage a)\<rparr>"
    using True base_slot_read [OF assms, of k] by (simp add: acctGetState_def Let_def)
  have "slot a k = base_slot a k" using True by (simp add: slot_def)
  then show ?thesis unfolding s by (simp add: acct_eq_def fun_upd_idem)
next
  case False
  then show ?thesis by (auto simp: acctGetState_def split: option.split)
qed

lemma getState_place:
  "aparent (snd (acctGetState a k)) = aparent a \<and> addr (snd (acctGetState a k)) = addr a"
  by (simp add: acctGetState_def Let_def split: option.splits)

lemma acct_eq_empty: "acct_eq kc a b \<Longrightarrow> acctEmpty kc a = acctEmpty kc b"
  by (simp add: acct_eq_def acctEmpty_def)

lemma acct_eq_exists: "acct_eq kc a b \<Longrightarrow> acctExists kc e a = acctExists kc e b"
  by (simp add: acct_eq_def acctExists_def acctEmpty_def interpretVersion_def)

lemma acct_eq_getState: "acct_eq kc a b \<Longrightarrow> acct_inv a \<Longrightarrow> fst (acctGetState a k) = fst (acctGetState b k)"
  using getState_value [of a k] getState_value [of b k] acct_inv_cong [of kc a b]
  by (simp add: acct_eq_def)

subsection \<open>The life cycle of an account value\<close>

text \<open>
  What the datastore relies on: a value to persist is never "being deleted", and a value
  whose version says "does not exist" is blank.
\<close>

definition av_wf :: "(bytes \<Rightarrow> hash) \<Rightarrow> account_value \<Rightarrow> bool" where
  "av_wf kc v =
     (Version v mod 3 \<noteq> 2 \<and>
      (Version v mod 3 = 0 \<longrightarrow>
         Nonce v = 0 \<and> Balance v = 0 \<and> CodeHash v = EmptyCodeHash kc \<and> \<not> DirtyStorage v))"

definition acct_wf :: "(bytes \<Rightarrow> hash) \<Rightarrow> mutable_account \<Rightarrow> bool" where
  "acct_wf kc a =
     (interpretVersion a = notExisted \<longrightarrow>
        nonce a = 0 \<and> balance a = 0 \<and> codeHash a = EmptyCodeHash kc \<and> \<not> dirtyStorage a)"

lemma new_account_wf:
  "av_wf kc v \<Longrightarrow> acct_wf kc (newMutableAccountImplWithOverriden par ad v c st ov)"
  by (simp add: av_wf_def acct_wf_def newMutableAccountImplWithOverriden_def
      interpretVersion_def version_consts)

lemma finalized_wf: "acct_wf kc a \<Longrightarrow> av_wf kc (finalState (GetFinalized kc a))"
  using mod3_succ(3) [of "version a"]
  by (auto simp: acct_wf_def av_wf_def GetFinalized_def interpretVersion_def version_consts Let_def)

lemma acct_wf_existing: "interpretVersion a \<noteq> notExisted \<Longrightarrow> acct_wf kc a"
  by (simp add: acct_wf_def)

lemma acct_wf_cong: "acct_eq kc a b \<Longrightarrow> acct_wf kc a = acct_wf kc b"
  by (simp add: acct_wf_def acct_eq_def interpretVersion_def)

text \<open>A setter leaves an existing account, so it keeps well-formedness.\<close>

lemma setters_exist:
  assumes "acct_inv a"
  shows "acctSetNonce n a = (a', us) \<Longrightarrow> interpretVersion a' \<noteq> notExisted"
    and "acctSetBalance x a = (a', us) \<Longrightarrow> interpretVersion a' \<noteq> notExisted"
    and "acctSetState k w a = (a', us) \<Longrightarrow> interpretVersion a' \<noteq> notExisted"
    and "acctSetCode kc code a = Inr (a', us) \<Longrightarrow> interpretVersion a' \<noteq> notExisted"
    and "acctCreate kc a = Inr (a', us) \<Longrightarrow> interpretVersion a' \<noteq> notExisted"
    and "acctSelfDestruct a = Inr (a', us) \<Longrightarrow> interpretVersion a' \<noteq> notExisted"
proof -
  obtain v ous where bv: "bump_version a = (a\<lparr>version := v\<rparr>, ous)"
    "interpretVersion (a\<lparr>version := v\<rparr>) \<noteq> notExisted"
    using bumpE [OF assms, of kc] by metis
  show "acctSetNonce n a = (a', us) \<Longrightarrow> interpretVersion a' \<noteq> notExisted"
    "acctSetBalance x a = (a', us) \<Longrightarrow> interpretVersion a' \<noteq> notExisted"
    "acctSetState k w a = (a', us) \<Longrightarrow> interpretVersion a' \<noteq> notExisted"
    "acctSetCode kc code a = Inr (a', us) \<Longrightarrow> interpretVersion a' \<noteq> notExisted"
    using bv by (auto simp: acctSetNonce_def acctSetBalance_def acctSetState_def acctSetCode_def
        Let_def diff_add_def rbind_Inr_iff split: if_splits option.splits)
  show "acctCreate kc a = Inr (a', us) \<Longrightarrow> interpretVersion a' \<noteq> notExisted"
    using acct_inv_version [OF assms] interpretVersion_Suc(1) [of a]
    by (cases rule: interpretVersion_cases [of a]) (auto simp: acctCreate_def split: if_splits)
  show "acctSelfDestruct a = Inr (a', us) \<Longrightarrow> interpretVersion a' \<noteq> notExisted"
    using interpretVersion_Suc(2) [of "a\<lparr>balance := 0\<rparr>"]
    by (cases rule: interpretVersion_cases [of a]) (auto simp: acctSelfDestruct_def split: if_splits)
qed

end
