(* ===== verification/TempCommitted.thy ===== *)
theory TempCommitted
  imports AccountLaws
begin

section \<open>State committed by the transactions of a block\<close>

text \<open>
  The model of \<open>worldstate/tempcommitted_impl.go\<close>: what the finalised transactions of the
  block being processed have changed, on top of the parent layer. A storage key
  \<open>"addr.Hex()-version"\<close> (\<open>GetAccountStorageKey\<close>) is the pair it encodes; the theory
  \<open>Keys\<close> shows that the encoding loses nothing. \<open>Commit\<close>, which writes the layer log to
  the datastore, is in the theory \<open>Layers\<close>.
\<close>

type_synonym storage_key = "address \<times> u64"

record log_entry =
  lAddress :: address
  lTopics :: "hash list"
  lData :: bytes
  lBlockNumber :: u64
  lTxHash :: hash
  lTxIndex :: u64
  lBlockHash :: hash
  lIndex :: u64

record temp_committed =
  tparent :: parent_view
  tnewHeight :: u64
  LogSize :: u64
  tLogs :: "(hash, log_entry list) gmap"
  CommittedAccounts :: "(address, account_value) gmap"
  CommittedCodeCount :: "(hash, int) gmap"
  CodePreimage :: "(hash, bytes) gmap"
  CommittedStorage :: "(storage_key, (hash, hash) gmap) gmap"
  Overriden :: "(address, bool) gmap"
  committed :: bool

definition newTempCommittedState :: "parent_view \<Rightarrow> u64 \<Rightarrow> temp_committed" where
  "newTempCommittedState par height =
     \<lparr> tparent = par, tnewHeight = height, LogSize = 0, tLogs = [], CommittedAccounts = [],
       CommittedCodeCount = [], CodePreimage = [], CommittedStorage = [], Overriden = [],
       committed = False \<rparr>"

definition GetMutableAccount :: "temp_committed \<Rightarrow> address \<Rightarrow> mutable_account" where
  "GetMutableAccount s ad =
     (let acct = (case map_of (CommittedAccounts s) ad of
                    Some v \<Rightarrow> v | None \<Rightarrow> pvAccount (tparent s) ad);
          code = map_of (CodePreimage s) (CodeHash acct);
          storageCopy = mget_or [] (CommittedStorage s) (ad, Version acct);
          ov = mget_or False (Overriden s) ad
      in newMutableAccountImplWithOverriden (tparent s) ad acct code storageCopy ov)"

definition annotate_log :: "u64 \<Rightarrow> hash \<Rightarrow> log_entry \<Rightarrow> log_entry" where
  "annotate_log blockNumber blockHash l = l\<lparr>lBlockNumber := blockNumber, lBlockHash := blockHash\<rparr>"

text \<open>The logs are pointers: \<open>GetLogs\<close> annotates the ones the map holds.\<close>

definition tcGetLogs :: "temp_committed \<Rightarrow> hash \<Rightarrow> u64 \<Rightarrow> hash \<Rightarrow> log_entry list \<times> temp_committed"
where
  "tcGetLogs s h blockNumber blockHash =
     (case map_of (tLogs s) h of
        Some logs \<Rightarrow>
          (let logs' = map (annotate_log blockNumber blockHash) logs
           in (logs', s\<lparr>tLogs := mput h logs' (tLogs s)\<rparr>))
      | None \<Rightarrow> ([], s))"

definition GetLogSize :: "temp_committed \<Rightarrow> u64" where
  "GetLogSize s = LogSize s"

definition add_code_count :: "hash \<times> int \<Rightarrow> (hash, int) gmap \<Rightarrow> (hash, int) gmap" where
  "add_code_count = (\<lambda>(codeHash, diff) m. mput codeHash (mget_or 0 m codeHash + diff) m)"

definition put_slot ::
  "storage_key \<Rightarrow> hash \<times> hash \<Rightarrow> (storage_key, (hash, hash) gmap) gmap \<Rightarrow>
   (storage_key, (hash, hash) gmap) gmap"
where
  "put_slot accountKey = (\<lambda>(key, val) m. mput accountKey (mput key val (mget_or [] m accountKey)) m)"

text \<open>The body of the loop over the dirty accounts in \<open>ApplyChanges\<close>.\<close>

definition apply_account ::
  "(bytes \<Rightarrow> hash) \<Rightarrow> address \<times> mutable_account \<Rightarrow> temp_committed \<Rightarrow> temp_committed"
where
  "apply_account kc = (\<lambda>(ad, acct) s.
     let f = GetFinalized kc acct;
         s1 = s\<lparr>CommittedAccounts := mput ad (finalState f) (CommittedAccounts s)\<rparr>;
         s2 = (case fKnownCode f of
                 Some (b # bs) \<Rightarrow>
                   s1\<lparr>CodePreimage := mput (CodeHash (finalState f)) (b # bs) (CodePreimage s1)\<rparr>
               | _ \<Rightarrow> s1);
         s3 = s2\<lparr>CommittedCodeCount := fold add_code_count (fKnownCodeDiff f) (CommittedCodeCount s2)\<rparr>;
         accountKey = (ad, Version (finalState f));
         s4 = s3\<lparr>CommittedStorage := fold (put_slot accountKey) (fKnownStorage f) (CommittedStorage s3)\<rparr>
     in s4\<lparr>Overriden := mput ad (fOverriden f) (Overriden s4)\<rparr>)"

definition ApplyChanges ::
  "(bytes \<Rightarrow> hash) \<Rightarrow> hash \<Rightarrow> log_entry list \<Rightarrow> (address, mutable_account) gmap \<Rightarrow>
   temp_committed \<Rightarrow> temp_committed"
where
  "ApplyChanges kc txHash logs dirtyAccounts s =
     (let s1 = fold (apply_account kc) dirtyAccounts s
      in s1\<lparr>tLogs := mput txHash logs (tLogs s1), LogSize := LogSize s1 + of_nat (length logs)\<rparr>)"

text \<open>
  \<open>Copy\<close> copies every map; the model's values are immutable, so the copy has the same
  fields. (Code preimages are never empty, so copying one never gives \<open>nil\<close>.)
\<close>

definition tcCopy :: "temp_committed \<Rightarrow> temp_committed" where
  "tcCopy s =
     \<lparr> tparent = tparent s, tnewHeight = tnewHeight s, LogSize = LogSize s, tLogs = tLogs s,
       CommittedAccounts = CommittedAccounts s, CommittedCodeCount = CommittedCodeCount s,
       CodePreimage = CodePreimage s, CommittedStorage = CommittedStorage s,
       Overriden = Overriden s, committed = committed s \<rparr>"

subsection \<open>Accounts handed out\<close>

lemma GetMutableAccount_place [simp]:
  "aparent (GetMutableAccount s ad) = tparent s" "addr (GetMutableAccount s ad) = ad"
  by (simp_all add: GetMutableAccount_def newMutableAccountImplWithOverriden_def Let_def)

text \<open>Every account a transaction can load is well-formed and satisfies the invariant.\<close>

definition tc_ok :: "(bytes \<Rightarrow> hash) \<Rightarrow> temp_committed \<Rightarrow> bool" where
  "tc_ok kc s = (\<forall>ad. acct_inv (GetMutableAccount s ad) \<and> acct_wf kc (GetMutableAccount s ad))"

text \<open>
  The values of a parent layer that \<open>tc_ok\<close> needs: well-formed, and with a version that has
  room for one more life of the account.
\<close>

definition parent_ok :: "(bytes \<Rightarrow> hash) \<Rightarrow> parent_view \<Rightarrow> bool" where
  "parent_ok kc pv = (\<forall>ad. av_wf kc (pvAccount pv ad) \<and> Version (pvAccount pv ad) \<noteq> - 1)"

lemma tc_ok_new: "parent_ok kc pv \<Longrightarrow> tc_ok kc (newTempCommittedState pv h)"
  by (auto simp: tc_ok_def parent_ok_def newTempCommittedState_def GetMutableAccount_def Let_def
      acct_inv_def av_wf_def newMutableAccountImplWithOverriden_def interpretVersion_def
      version_consts acct_wf_def slot_def fun_eq_iff)

end
