(* ===== verification/MutableState.thy ===== *)
theory MutableState
  imports TempCommitted
begin

section \<open>The mutable world state\<close>

text \<open>
  The model of \<open>worldstate/mutablestate_impl.go\<close>: the state an EVM transaction runs on. Every
  change is recorded in \<open>Journals\<close> as a closure that undoes it; a snapshot is a mark on the
  last journal entry, and reverting to it runs the closures after the mark, last one first.

  A closure is a \<open>jrevert\<close>. A closure of an account captures the account's pointer: it runs
  on the account that \<open>DirtyAccounts\<close> holds for the address, which is that pointer as long as
  the entry that loaded it is in the journal. The maps of \<open>TransientState\<close> are captured by
  pointer too, and \<open>Prepare\<close> replaces them without touching the journal, so they live in a
  store (\<open>transientMaps\<close>) and \<open>TransientState\<close> holds indices into it. Tracing hooks are
  booleans (is the hook set) and a list of the calls made to them.
\<close>

datatype jrevert =
    JNop
  | JDelDirty address
  | JAcct address "undo list"
  | JDelNewContract address
  | JDelTransient address
  | JTransientPut nat hash hash
  | JTransientDel nat hash
  | JRefund u64
  | JDelAccessAddress address
  | JPopStorageDel address
  | JPopStorageReset address
  | JDelSlot nat hash
  | JPopLog

record journal =
  mark :: "(int, bool) gmap"
  revert :: jrevert

datatype hook_call =
    BalanceChange address u256 u256
  | NonceChangeV2 address u64 u64
  | CodeChange address hash bytes hash bytes
  | StorageChange address hash hash hash
  | LogEmitted log_entry

record hooks =
  OnBalanceChange :: bool
  OnNonceChange :: bool
  OnNonceChangeV2 :: bool
  OnCodeChange :: bool
  OnStorageChange :: bool
  OnLog :: bool

record mutable_state =
  newHeight :: u64
  sparent :: temp_committed
  config :: "u64 \<Rightarrow> bool"
  TxHash :: hash
  TxIdx :: int
  Refund :: u64
  Logs :: "log_entry list"
  DirtyAccounts :: "(address, mutable_account) gmap"
  TransientState :: "(address, nat) gmap"
  transientMaps :: "(hash, hash) gmap list"
  AccessAddress :: "(address, int) gmap"
  AccessStorage :: "(hash, bool) gmap list"
  NewContracts :: "(address, bool) gmap"
  Journals :: "journal list"
  snapshotId :: int
  logger :: "hooks option"
  hookCalls :: "hook_call list"

text \<open>\<open>config\<close> is \<open>ChainConfig.IsEIP158\<close> as a function of the height.\<close>

definition newMutableWorldState ::
  "(u64 \<Rightarrow> bool) \<Rightarrow> parent_view \<Rightarrow> u64 \<Rightarrow> hooks option \<Rightarrow> mutable_state"
where
  "newMutableWorldState cfg par height lg =
     \<lparr> newHeight = height, sparent = newTempCommittedState par height, config = cfg,
       TxHash = 0, TxIdx = - 1, Refund = 0, Logs = [], DirtyAccounts = [], TransientState = [],
       transientMaps = [], AccessAddress = [], AccessStorage = [], NewContracts = [],
       Journals = [], snapshotId = 0, logger = lg, hookCalls = [] \<rparr>"

definition SetLogger :: "hooks option \<Rightarrow> mutable_state \<Rightarrow> mutable_state" where
  "SetLogger l s = s\<lparr>logger := l\<rparr>"

text \<open>Is this hook set? The test \<open>s.logger != nil && s.logger.OnX != nil\<close>.\<close>

definition hooked :: "(hooks \<Rightarrow> bool) \<Rightarrow> mutable_state \<Rightarrow> bool" where
  "hooked h s = (case logger s of Some l \<Rightarrow> h l | None \<Rightarrow> False)"

definition emit :: "hook_call \<Rightarrow> mutable_state \<Rightarrow> mutable_state" where
  "emit c s = s\<lparr>hookCalls := hookCalls s @ [c]\<rparr>"

subsection \<open>Accounts and the journal\<close>

definition recordJournal :: "jrevert \<Rightarrow> mutable_state \<Rightarrow> mutable_state" where
  "recordJournal r s = s\<lparr>Journals := Journals s @ [\<lparr>mark = [], revert = r\<rparr>]\<rparr>"

definition loadAccount :: "address \<Rightarrow> bool \<Rightarrow> mutable_state \<Rightarrow> mutable_account \<times> mutable_state" where
  "loadAccount ad write s =
     (case map_of (DirtyAccounts s) ad of
        Some acct \<Rightarrow> (acct, s)
      | None \<Rightarrow>
          (let acct = GetMutableAccount (sparent s) ad
           in if write then
                (acct, recordJournal (JDelDirty ad)
                         (s\<lparr>DirtyAccounts := mput ad acct (DirtyAccounts s)\<rparr>))
              else (acct, s)))"

text \<open>
  A write through the account's pointer is seen by the state if the state holds the pointer;
  an account loaded for reading only is dropped with what it cached.
\<close>

definition storeAccount :: "address \<Rightarrow> mutable_account \<Rightarrow> mutable_state \<Rightarrow> mutable_state" where
  "storeAccount ad acct s =
     (case map_of (DirtyAccounts s) ad of
        Some old \<Rightarrow> s\<lparr>DirtyAccounts := mput ad acct (DirtyAccounts s)\<rparr>
      | None \<Rightarrow> s)"

text \<open>\<open>s.recordJournal(acct.Op())\<close>: run a setter of a loaded account, record its closure.\<close>

definition journalAccount ::
  "address \<Rightarrow> mutable_account \<times> undo list \<Rightarrow> mutable_state \<Rightarrow> mutable_state"
where
  "journalAccount ad r s = recordJournal (JAcct ad (snd r)) (storeAccount ad (fst r) s)"

subsection \<open>Reads\<close>

definition Exist :: "(bytes \<Rightarrow> hash) \<Rightarrow> address \<Rightarrow> mutable_state \<Rightarrow> bool" where
  "Exist kc ad s = acctExists kc (config s (newHeight s)) (fst (loadAccount ad False s))"

definition Empty :: "(bytes \<Rightarrow> hash) \<Rightarrow> address \<Rightarrow> mutable_state \<Rightarrow> bool" where
  "Empty kc ad s = acctEmpty kc (fst (loadAccount ad False s))"

definition GetBalance :: "address \<Rightarrow> mutable_state \<Rightarrow> u256" where
  "GetBalance ad s = balance (fst (loadAccount ad False s))"

definition GetNonce :: "address \<Rightarrow> mutable_state \<Rightarrow> u64" where
  "GetNonce ad s = nonce (fst (loadAccount ad False s))"

definition GetCodeHash :: "address \<Rightarrow> mutable_state \<Rightarrow> hash" where
  "GetCodeHash ad s = codeHash (fst (loadAccount ad False s))"

definition GetCode :: "(bytes \<Rightarrow> hash) \<Rightarrow> address \<Rightarrow> mutable_state \<Rightarrow> bytes \<times> mutable_state" where
  "GetCode kc ad s =
     (let (acct, s1) = loadAccount ad False s; (code, acct') = acctCode kc acct
      in (code, storeAccount ad acct' s1))"

definition GetCodeSize :: "(bytes \<Rightarrow> hash) \<Rightarrow> address \<Rightarrow> mutable_state \<Rightarrow> nat \<times> mutable_state" where
  "GetCodeSize kc ad s = (let (code, s1) = GetCode kc ad s in (length code, s1))"

text \<open>\<open>types.EmptyRootHash\<close> is the library's constant \<open>emptyRoot\<close>; the other value is \<open>HexToHash("1")\<close>.\<close>

definition GetStorageRoot :: "hash \<Rightarrow> address \<Rightarrow> mutable_state \<Rightarrow> hash" where
  "GetStorageRoot emptyRoot ad s =
     (if dirtyStorage (fst (loadAccount ad False s)) then 1 else emptyRoot)"

definition GetState :: "address \<Rightarrow> hash \<Rightarrow> mutable_state \<Rightarrow> hash \<times> mutable_state" where
  "GetState ad key s =
     (let (acct, s1) = loadAccount ad False s; (val, acct') = acctGetState acct key
      in (val, storeAccount ad acct' s1))"

definition GetCommittedState :: "address \<Rightarrow> hash \<Rightarrow> mutable_state \<Rightarrow> hash" where
  "GetCommittedState ad key s = fst (acctGetState (GetMutableAccount (sparent s) ad) key)"

definition TxIndex :: "mutable_state \<Rightarrow> int" where
  "TxIndex s = TxIdx s"

definition GetRefund :: "mutable_state \<Rightarrow> u64" where
  "GetRefund s = Refund s"

definition HasSelfDestructed :: "address \<Rightarrow> mutable_state \<Rightarrow> bool" where
  "HasSelfDestructed ad s = acctHasSelfDestructed (fst (loadAccount ad False s))"

definition GetTransientState :: "address \<Rightarrow> hash \<Rightarrow> mutable_state \<Rightarrow> hash" where
  "GetTransientState ad key s =
     (case map_of (TransientState s) ad of
        Some r \<Rightarrow> mget_or 0 (transientMaps s ! r) key
      | None \<Rightarrow> 0)"

definition AddressInAccessList :: "address \<Rightarrow> mutable_state \<Rightarrow> bool" where
  "AddressInAccessList ad s = mhas (AccessAddress s) ad"

text \<open>An index outside \<open>AccessStorage\<close> is Go's index-out-of-range panic.\<close>

definition SlotInAccessList :: "address \<Rightarrow> hash \<Rightarrow> mutable_state \<Rightarrow> panic + (bool \<times> bool)" where
  "SlotInAccessList ad sl s =
     (case map_of (AccessAddress s) ad of
        None \<Rightarrow> Inr (False, False)
      | Some idx \<Rightarrow>
          if idx = - 1 then Inr (True, False)
          else if idx < 0 \<or> int (length (AccessStorage s)) \<le> idx then Inl SliceOutOfRange
          else Inr (True, mhas (AccessStorage s ! nat idx) sl))"

definition PointCache :: "mutable_state \<Rightarrow> panic + unit" where
  "PointCache s = Inl NotImplemented"

definition AddPreimage :: "hash \<Rightarrow> bytes \<Rightarrow> mutable_state \<Rightarrow> mutable_state" where
  "AddPreimage key val s = s"

definition GetLogs :: "hash \<Rightarrow> u64 \<Rightarrow> hash \<Rightarrow> mutable_state \<Rightarrow> log_entry list \<times> mutable_state" where
  "GetLogs h blockNumber blockHash s =
     (if TxHash s = h then
        (let logs = map (annotate_log blockNumber blockHash) (Logs s)
         in (logs, s\<lparr>Logs := logs\<rparr>))
      else
        (let (logs, p) = tcGetLogs (sparent s) h blockNumber blockHash
         in (logs, s\<lparr>sparent := p\<rparr>)))"

subsection \<open>Transaction boundaries\<close>

definition SetTxContext :: "hash \<Rightarrow> int \<Rightarrow> mutable_state \<Rightarrow> mutable_state" where
  "SetTxContext thash ti s = s\<lparr>TxHash := thash, TxIdx := ti, Refund := 0, Logs := []\<rparr>"

subsection \<open>Writes\<close>

definition CreateAccount :: "(bytes \<Rightarrow> hash) \<Rightarrow> address \<Rightarrow> mutable_state \<Rightarrow> panic + mutable_state" where
  "CreateAccount kc ad s =
     (let (acct, s1) = loadAccount ad True s
      in rbind (acctCreate kc acct) (\<lambda>r. Inr (journalAccount ad r s1)))"

definition CreateContract :: "address \<Rightarrow> mutable_state \<Rightarrow> mutable_state" where
  "CreateContract ad s =
     (if mhas (NewContracts s) ad then s
      else recordJournal (JDelNewContract ad) (s\<lparr>NewContracts := mput ad True (NewContracts s)\<rparr>))"

definition balance_hook :: "address \<Rightarrow> u256 \<Rightarrow> u256 \<Rightarrow> mutable_state \<Rightarrow> mutable_state" where
  "balance_hook ad original new s =
     (if hooked OnBalanceChange s then emit (BalanceChange ad original new) s else s)"

text \<open>
  \<open>uint256.Int.Sign\<close> reads its argument as a two's complement number: \<open>new.Sign() < 0\<close> is
  \<open>new <s 0\<close>, after a subtraction that wraps.
\<close>

definition SubBalance :: "address \<Rightarrow> u256 \<Rightarrow> mutable_state \<Rightarrow> u256 \<times> mutable_state" where
  "SubBalance ad amt s =
     (let (acct, s1) = loadAccount ad True s;
          original = balance acct;
          diff = original - amt;
          new = (if diff <s 0 then 0 else diff);
          s2 = journalAccount ad (acctSetBalance new acct) s1
      in (original, balance_hook ad original new s2))"

definition AddBalance :: "address \<Rightarrow> u256 \<Rightarrow> mutable_state \<Rightarrow> u256 \<times> mutable_state" where
  "AddBalance ad amt s =
     (let (acct, s1) = loadAccount ad True s;
          original = balance acct;
          new = original + amt;
          s2 = journalAccount ad (acctSetBalance new acct) s1
      in (original, balance_hook ad original new s2))"

definition SetBalance :: "address \<Rightarrow> u256 \<Rightarrow> mutable_state \<Rightarrow> mutable_state" where
  "SetBalance ad amt s =
     (let (acct, s1) = loadAccount ad True s;
          original = balance acct;
          s2 = journalAccount ad (acctSetBalance amt acct) s1
      in balance_hook ad original amt s2)"

text \<open>\<open>SetNonce\<close> asks whether \<open>OnNonceChange\<close> is set and calls \<open>OnNonceChangeV2\<close>, which may be nil.\<close>

definition nonce_hook :: "address \<Rightarrow> u64 \<Rightarrow> u64 \<Rightarrow> mutable_state \<Rightarrow> panic + mutable_state" where
  "nonce_hook ad old new s =
     (if hooked OnNonceChange s then
        (if hooked OnNonceChangeV2 s then Inr (emit (NonceChangeV2 ad old new) s) else Inl NilHook)
      else Inr s)"

definition SetNonce :: "address \<Rightarrow> u64 \<Rightarrow> mutable_state \<Rightarrow> panic + mutable_state" where
  "SetNonce ad n s =
     (let (acct, s1) = loadAccount ad True s
      in rbind (nonce_hook ad (nonce acct) n s1)
           (\<lambda>s2. Inr (journalAccount ad (acctSetNonce n acct) s2)))"

definition SetCode ::
  "(bytes \<Rightarrow> hash) \<Rightarrow> address \<Rightarrow> bytes \<Rightarrow> mutable_state \<Rightarrow> panic + (bytes \<times> mutable_state)"
where
  "SetCode kc ad code s =
     (let (acct, s1) = loadAccount ad True s;
          (prevcode, acct1) = acctCode kc acct;
          s2 = storeAccount ad acct1 s1;
          s3 = (if hooked OnCodeChange s2
                then emit (CodeChange ad (codeHash acct1) prevcode (kc code) code) s2 else s2)
      in rbind (acctSetCode kc code acct1) (\<lambda>r. Inr (prevcode, journalAccount ad r s3)))"

definition SetStorage :: "address \<Rightarrow> (hash, hash) gmap \<Rightarrow> mutable_state \<Rightarrow> mutable_state" where
  "SetStorage ad st s =
     (let (acct, s1) = loadAccount ad True s in journalAccount ad (acctOverrideStorage st acct) s1)"

definition SetState :: "address \<Rightarrow> hash \<Rightarrow> hash \<Rightarrow> mutable_state \<Rightarrow> hash \<times> mutable_state" where
  "SetState ad key val s =
     (let (acct, s1) = loadAccount ad True s;
          (prev, acct1) = acctGetState acct key;
          s2 = storeAccount ad acct1 s1;
          s3 = (if hooked OnStorageChange s2 then emit (StorageChange ad key prev val) s2 else s2)
      in (prev, journalAccount ad (acctSetState key val acct1) s3))"

text \<open>The map of an address is created, and its creation journalled, on the first write.\<close>

definition ensureTransient :: "address \<Rightarrow> mutable_state \<Rightarrow> nat \<times> mutable_state" where
  "ensureTransient ad s =
     (case map_of (TransientState s) ad of
        Some r \<Rightarrow> (r, s)
      | None \<Rightarrow>
          (let r = length (transientMaps s)
           in (r, recordJournal (JDelTransient ad)
                    (s\<lparr>transientMaps := transientMaps s @ [[]],
                       TransientState := mput ad r (TransientState s)\<rparr>))))"

definition putTransient :: "nat \<Rightarrow> hash \<Rightarrow> hash \<Rightarrow> mutable_state \<Rightarrow> mutable_state" where
  "putTransient r key val s =
     s\<lparr>transientMaps := (transientMaps s)[r := mput key val (transientMaps s ! r)]\<rparr>"

definition SetTransientState :: "address \<Rightarrow> hash \<Rightarrow> hash \<Rightarrow> mutable_state \<Rightarrow> mutable_state" where
  "SetTransientState ad key val s =
     (let (r, s1) = ensureTransient ad s
      in case map_of (transientMaps s1 ! r) key of
           Some original \<Rightarrow> recordJournal (JTransientPut r key original) (putTransient r key val s1)
         | None \<Rightarrow> recordJournal (JTransientDel r key) (putTransient r key val s1))"

definition AddRefund :: "u64 \<Rightarrow> mutable_state \<Rightarrow> mutable_state" where
  "AddRefund gas s = recordJournal (JRefund (Refund s)) (s\<lparr>Refund := Refund s + gas\<rparr>)"

definition SubRefund :: "u64 \<Rightarrow> mutable_state \<Rightarrow> panic + mutable_state" where
  "SubRefund gas s =
     (if Refund s < gas then Inl RefundBelowZero
      else Inr (recordJournal (JRefund (Refund s)) (s\<lparr>Refund := Refund s - gas\<rparr>)))"

definition SelfDestruct :: "address \<Rightarrow> mutable_state \<Rightarrow> panic + (u256 \<times> mutable_state)" where
  "SelfDestruct ad s =
     (let (acct, s1) = loadAccount ad True s;
          original = balance acct;
          s2 = (if 0 <s original then balance_hook ad original 0 s1 else s1)
      in rbind (acctSelfDestruct acct) (\<lambda>r. Inr (original, journalAccount ad r s2)))"

text \<open>\<open>SelfDestruct6780\<close> drops the closure the account returns: nothing is journalled.\<close>

definition SelfDestruct6780 :: "address \<Rightarrow> mutable_state \<Rightarrow> panic + (u256 \<times> bool \<times> mutable_state)" where
  "SelfDestruct6780 ad s =
     (let (acct, s1) = loadAccount ad True s;
          original = balance acct
      in if mhas (NewContracts s1) ad then
           rbind (acctSelfDestruct acct) (\<lambda>r. Inr (original, True, storeAccount ad (fst r) s1))
         else Inr (original, False, s1))"

definition AddAddressToAccessList :: "address \<Rightarrow> mutable_state \<Rightarrow> mutable_state" where
  "AddAddressToAccessList ad s =
     (if mhas (AccessAddress s) ad then s
      else recordJournal (JDelAccessAddress ad)
             (s\<lparr>AccessAddress := mput ad (- 1) (AccessAddress s)\<rparr>))"

text \<open>The index of an address in \<open>AccessStorage\<close>, allocated with a journal entry if need be.\<close>

definition slotIndex :: "address \<Rightarrow> mutable_state \<Rightarrow> int \<times> mutable_state" where
  "slotIndex ad s =
     (let n = int (length (AccessStorage s));
          s1 = s\<lparr>AccessAddress := mput ad n (AccessAddress s),
                  AccessStorage := AccessStorage s @ [[]]\<rparr>
      in case map_of (AccessAddress s) ad of
           None \<Rightarrow> (n, recordJournal (JPopStorageDel ad) s1)
         | Some idx \<Rightarrow> if idx = - 1 then (n, recordJournal (JPopStorageReset ad) s1) else (idx, s))"

definition AddSlotToAccessList :: "address \<Rightarrow> hash \<Rightarrow> mutable_state \<Rightarrow> panic + mutable_state" where
  "AddSlotToAccessList ad sl s =
     (let (idx, s1) = slotIndex ad s
      in if idx < 0 \<or> int (length (AccessStorage s1)) \<le> idx then Inl SliceOutOfRange
         else if mhas (AccessStorage s1 ! nat idx) sl then Inr s1
         else Inr (recordJournal (JDelSlot (nat idx) sl)
                (s1\<lparr>AccessStorage :=
                   (AccessStorage s1)[nat idx := mput sl True (AccessStorage s1 ! nat idx)]\<rparr>)))"

definition AddLog :: "log_entry \<Rightarrow> mutable_state \<Rightarrow> mutable_state" where
  "AddLog l s =
     (let l' = l\<lparr>lTxHash := TxHash s, lTxIndex := of_int (TxIdx s),
                  lIndex := GetLogSize (sparent s) + of_nat (length (Logs s))\<rparr>;
          s1 = recordJournal JPopLog (s\<lparr>Logs := Logs s @ [l']\<rparr>)
      in if hooked OnLog s1 then emit (LogEmitted l') s1 else s1)"

text \<open>The fields of \<open>params.Rules\<close> that \<open>Prepare\<close> uses.\<close>

record rules =
  IsEIP2929 :: bool
  IsEIP4762 :: bool
  IsShanghai :: bool

definition addAccessTuple :: "address \<times> hash list \<Rightarrow> mutable_state \<Rightarrow> panic + mutable_state" where
  "addAccessTuple = (\<lambda>(ad, keys) s. rfold (AddSlotToAccessList ad) keys (AddAddressToAccessList ad s))"

definition Prepare ::
  "rules \<Rightarrow> address \<Rightarrow> address \<Rightarrow> address option \<Rightarrow> address list \<Rightarrow> (address \<times> hash list) list \<Rightarrow>
   mutable_state \<Rightarrow> panic + mutable_state"
where
  "Prepare r sender coinbase dest precompiles txAccesses s =
     (if IsEIP2929 r \<and> IsEIP4762 r then Inl BothAccessListRules
      else rbind
        (if IsEIP2929 r then
           (let s1 = AddAddressToAccessList sender (s\<lparr>AccessAddress := [], AccessStorage := []\<rparr>);
                s2 = (case dest of Some d \<Rightarrow> AddAddressToAccessList d s1 | None \<Rightarrow> s1);
                s3 = fold AddAddressToAccessList precompiles s2
            in rbind (rfold addAccessTuple txAccesses s3)
                 (\<lambda>s4. Inr (if IsShanghai r then AddAddressToAccessList coinbase s4 else s4)))
         else Inr s)
        (\<lambda>s5. Inr (s5\<lparr>TransientState := []\<rparr>)))"

subsection \<open>Snapshots\<close>

definition Snapshot :: "mutable_state \<Rightarrow> int \<times> mutable_state" where
  "Snapshot s =
     (let res = snapshotId s;
          s1 = s\<lparr>snapshotId := snapshotId s + 1\<rparr>;
          s2 = (if Journals s1 = [] then recordJournal JNop s1 else s1);
          i = length (Journals s2) - 1;
          entry = Journals s2 ! i
      in (res, s2\<lparr>Journals := (Journals s2)[i := entry\<lparr>mark := mput res True (mark entry)\<rparr>]\<rparr>))"

text \<open>Running a closure of the journal.\<close>

fun run_revert :: "jrevert \<Rightarrow> mutable_state \<Rightarrow> panic + mutable_state" where
  "run_revert JNop s = Inr s"
| "run_revert (JDelDirty ad) s = Inr (s\<lparr>DirtyAccounts := mdel ad (DirtyAccounts s)\<rparr>)"
| "run_revert (JAcct ad us) s =
     (case map_of (DirtyAccounts s) ad of
        Some acct \<Rightarrow> Inr (storeAccount ad (run_undos us acct) s)
      | None \<Rightarrow> Inr s)"
| "run_revert (JDelNewContract ad) s = Inr (s\<lparr>NewContracts := mdel ad (NewContracts s)\<rparr>)"
| "run_revert (JDelTransient ad) s = Inr (s\<lparr>TransientState := mdel ad (TransientState s)\<rparr>)"
| "run_revert (JTransientPut r key val) s = Inr (putTransient r key val s)"
| "run_revert (JTransientDel r key) s =
     Inr (s\<lparr>transientMaps := (transientMaps s)[r := mdel key (transientMaps s ! r)]\<rparr>)"
| "run_revert (JRefund original) s = Inr (s\<lparr>Refund := original\<rparr>)"
| "run_revert (JDelAccessAddress ad) s = Inr (s\<lparr>AccessAddress := mdel ad (AccessAddress s)\<rparr>)"
| "run_revert (JPopStorageDel ad) s =
     (if AccessStorage s = [] then Inl SliceOutOfRange
      else Inr (s\<lparr>AccessStorage := butlast (AccessStorage s),
                   AccessAddress := mdel ad (AccessAddress s)\<rparr>))"
| "run_revert (JPopStorageReset ad) s =
     (if AccessStorage s = [] then Inl SliceOutOfRange
      else Inr (s\<lparr>AccessStorage := butlast (AccessStorage s),
                   AccessAddress := mput ad (- 1) (AccessAddress s)\<rparr>))"
| "run_revert (JDelSlot i sl) s =
     (if length (AccessStorage s) \<le> i then Inl SliceOutOfRange
      else Inr (s\<lparr>AccessStorage := (AccessStorage s)[i := mdel sl (AccessStorage s ! i)]\<rparr>))"
| "run_revert JPopLog s =
     (if Logs s = [] then Inl SliceOutOfRange else Inr (s\<lparr>Logs := butlast (Logs s)\<rparr>))"

text \<open>The loop \<open>for i := len - 1; i >= 0; i--\<close> that looks for the mark; \<open>n\<close> is \<open>i + 1\<close>.\<close>

fun find_mark :: "int \<Rightarrow> journal list \<Rightarrow> nat \<Rightarrow> nat option" where
  "find_mark ti js 0 = None"
| "find_mark ti js (Suc i) =
     (if mget_or False (mark (js ! i)) ti then Some i else find_mark ti js i)"

definition run_reverts :: "journal list \<Rightarrow> mutable_state \<Rightarrow> panic + mutable_state" where
  "run_reverts js s = rfold (\<lambda>j. run_revert (revert j)) (rev js) s"

definition RevertToSnapshot :: "int \<Rightarrow> mutable_state \<Rightarrow> panic + mutable_state" where
  "RevertToSnapshot ti s =
     (case find_mark ti (Journals s) (length (Journals s)) of
        None \<Rightarrow> Inl UnknownSnapshot
      | Some i \<Rightarrow>
          (let entry = Journals s ! i;
               js = (Journals s)[i := entry\<lparr>mark := mdel ti (mark entry)\<rparr>];
               reverts = drop (Suc i) js
           in run_reverts reverts (s\<lparr>Journals := take (Suc i) js\<rparr>)))"

subsection \<open>Finalisation and copies\<close>

definition finalise_account ::
  "(bytes \<Rightarrow> hash) \<Rightarrow> bool \<Rightarrow> address \<times> mutable_account \<Rightarrow> mutable_state \<Rightarrow> panic + mutable_state"
where
  "finalise_account kc deleteEmptyObjects = (\<lambda>(ad, acct) s.
     rbind (if deleteEmptyObjects \<and> acctEmpty kc acct then
              rbind (acctSelfDestruct acct) (\<lambda>r. Inr (fst r, storeAccount ad (fst r) s))
            else Inr (acct, s))
       (\<lambda>(acct', s').
          Inr (if hooked OnBalanceChange s' \<and> acctHasSelfDestructed acct' \<and> balance acct' \<noteq> 0
               then emit (BalanceChange ad (balance acct') 0) s' else s')))"

definition Finalise :: "(bytes \<Rightarrow> hash) \<Rightarrow> bool \<Rightarrow> mutable_state \<Rightarrow> panic + mutable_state" where
  "Finalise kc deleteEmptyObjects s =
     rbind (rfold (finalise_account kc deleteEmptyObjects) (DirtyAccounts s) s)
       (\<lambda>s1. Inr (s1\<lparr>sparent := ApplyChanges kc (TxHash s1) (Logs s1) (DirtyAccounts s1) (sparent s1),
            DirtyAccounts := [], TransientState := [], AccessAddress := [], AccessStorage := [],
            NewContracts := [], Journals := []\<rparr>))"

definition IntermediateRoot ::
  "(bytes \<Rightarrow> hash) \<Rightarrow> hash \<Rightarrow> bool \<Rightarrow> mutable_state \<Rightarrow> panic + (hash \<times> mutable_state)"
where
  "IntermediateRoot kc emptyRoot deleteEmptyObjects s =
     rbind (Finalise kc deleteEmptyObjects s) (\<lambda>s1. Inr (emptyRoot, s1))"

text \<open>
  \<open>Copy\<close> assigns \<open>accessStorage[k]\<close> in a slice of length 0, so it panics when there is
  anything to copy. The journal entries are shared: their closures act on the original state,
  so for the copy they do nothing, which is what \<open>JNop\<close> says of them.
\<close>

definition copyTransient :: "mutable_state \<Rightarrow> (address, nat) gmap \<times> (hash, hash) gmap list" where
  "copyTransient s =
     (zip (map fst (TransientState s)) [0..<length (TransientState s)],
      map (\<lambda>(ad, r). transientMaps s ! r) (TransientState s))"

definition msCopy :: "mutable_state \<Rightarrow> panic + mutable_state" where
  "msCopy s =
     (if AccessStorage s \<noteq> [] then Inl SliceOutOfRange
      else Inr (s\<lparr>sparent := tcCopy (sparent s),
                   DirtyAccounts := map (\<lambda>(ad, acct). (ad, acctCopy acct)) (DirtyAccounts s),
                   TransientState := fst (copyTransient s), transientMaps := snd (copyTransient s),
                   Journals := map (\<lambda>j. j\<lparr>revert := JNop\<rparr>) (Journals s),
                   hookCalls := []\<rparr>))"

end
