(* ===== verification/MutableLaws.thy ===== *)
theory MutableLaws
  imports MutableState
begin

section \<open>Laws of the mutable world state\<close>

text \<open>
  What the EVM relies on: whatever it did since a snapshot, reverting to the snapshot gives
  back the state it saw then. The state it sees is \<open>state_eq\<close>; \<open>ms_inv\<close> is the invariant;
  \<open>unwinds\<close> says that a list of journal entries leads from one state back to another;
  the locale \<open>journalled\<close> is the contract of an operation, interpreted for every operation.
\<close>

subsection \<open>Observable state\<close>

definition acct_at :: "mutable_state \<Rightarrow> address \<Rightarrow> mutable_account" where
  "acct_at s ad = fst (loadAccount ad False s)"

lemma acct_at_alt:
  "acct_at s ad = (case map_of (DirtyAccounts s) ad of Some a \<Rightarrow> a | None \<Rightarrow> GetMutableAccount (sparent s) ad)"
  by (simp add: acct_at_def loadAccount_def Let_def split: option.split)

text \<open>The transient maps that \<open>TransientState\<close> points to, compared as maps.\<close>

definition transient_eq :: "mutable_state \<Rightarrow> mutable_state \<Rightarrow> bool" where
  "transient_eq s t =
     (map_of (TransientState s) = map_of (TransientState t) \<and>
      (\<forall>ad r. map_of (TransientState s) ad = Some r \<longrightarrow>
         r < length (transientMaps s) \<and> r < length (transientMaps t) \<and>
         map_of (transientMaps s ! r) = map_of (transientMaps t ! r)))"

definition slots_eq :: "(hash, bool) gmap list \<Rightarrow> (hash, bool) gmap list \<Rightarrow> bool" where
  "slots_eq xs ys = (map map_of xs = map map_of ys)"

text \<open>What two states share besides their accounts.\<close>

definition frame_eq :: "mutable_state \<Rightarrow> mutable_state \<Rightarrow> bool" where
  "frame_eq s t =
     (newHeight s = newHeight t \<and> sparent s = sparent t \<and> config s = config t \<and>
      TxHash s = TxHash t \<and> TxIdx s = TxIdx t \<and> Refund s = Refund t \<and> Logs s = Logs t \<and>
      logger s = logger t \<and> transient_eq s t \<and>
      map_of (AccessAddress s) = map_of (AccessAddress t) \<and>
      slots_eq (AccessStorage s) (AccessStorage t) \<and>
      map_of (NewContracts s) = map_of (NewContracts t))"

definition state_eq :: "(bytes \<Rightarrow> hash) \<Rightarrow> mutable_state \<Rightarrow> mutable_state \<Rightarrow> bool" where
  "state_eq kc s t =
     (frame_eq s t \<and>
      (\<forall>ad. (map_of (DirtyAccounts s) ad = None) = (map_of (DirtyAccounts t) ad = None) \<and>
            acct_eq kc (acct_at s ad) (acct_at t ad)))"

definition ms_inv :: "(bytes \<Rightarrow> hash) \<Rightarrow> mutable_state \<Rightarrow> bool" where
  "ms_inv kc s =
     (tc_ok kc (sparent s) \<and>
      (\<forall>ad. acct_inv (acct_at s ad) \<and> aparent (acct_at s ad) = tparent (sparent s) \<and>
            addr (acct_at s ad) = ad) \<and>
      (\<forall>ad r. map_of (TransientState s) ad = Some r \<longrightarrow> r < length (transientMaps s)) \<and>
      (\<forall>ad ad' r. map_of (TransientState s) ad = Some r \<longrightarrow>
         map_of (TransientState s) ad' = Some r \<longrightarrow> ad = ad'))"

lemma transient_eq_sym: "transient_eq s t \<Longrightarrow> transient_eq t s"
  by (auto simp: transient_eq_def)

lemma transient_eq_trans: "transient_eq s t \<Longrightarrow> transient_eq t u \<Longrightarrow> transient_eq s u"
  by (auto simp: transient_eq_def)

lemma state_eq_refl: "ms_inv kc s \<Longrightarrow> state_eq kc s s"
  by (auto simp: state_eq_def frame_eq_def ms_inv_def transient_eq_def slots_eq_def)

lemma state_eq_sym: "state_eq kc s t \<Longrightarrow> state_eq kc t s"
  by (auto simp: state_eq_def frame_eq_def slots_eq_def transient_eq_sym acct_eq_sym)

lemma state_eq_trans: "state_eq kc s t \<Longrightarrow> state_eq kc t u \<Longrightarrow> state_eq kc s u"
  unfolding state_eq_def frame_eq_def slots_eq_def by (auto intro: transient_eq_trans acct_eq_trans)

lemma ms_inv_cong:
  assumes eq: "state_eq kc s t" and inv: "ms_inv kc t"
  shows "ms_inv kc s"
proof -
  have a: "acct_eq kc (acct_at s ad) (acct_at t ad)" for ad using eq by (simp add: state_eq_def)
  then have "acct_inv (acct_at s ad) \<and> aparent (acct_at s ad) = aparent (acct_at t ad) \<and>
      addr (acct_at s ad) = addr (acct_at t ad)" for ad
    using inv acct_inv_cong [OF a] by (auto simp: ms_inv_def acct_eq_def)
  moreover have "map_of (TransientState s) = map_of (TransientState t)"
    "\<And>ad r. map_of (TransientState s) ad = Some r \<Longrightarrow> r < length (transientMaps s)"
    "sparent s = sparent t"
    using eq by (auto simp: state_eq_def frame_eq_def transient_eq_def)
  ultimately show ?thesis using inv unfolding ms_inv_def by metis
qed

text \<open>Fields no observation depends on.\<close>

lemma acct_at_other [simp]:
  "acct_at (s\<lparr>Journals := js\<rparr>) = acct_at s" "acct_at (s\<lparr>hookCalls := hc\<rparr>) = acct_at s"
  "acct_at (s\<lparr>snapshotId := n\<rparr>) = acct_at s" "acct_at (s\<lparr>Refund := rf\<rparr>) = acct_at s"
  "acct_at (s\<lparr>Logs := ls\<rparr>) = acct_at s" "acct_at (s\<lparr>TransientState := ts\<rparr>) = acct_at s"
  "acct_at (s\<lparr>transientMaps := tm\<rparr>) = acct_at s" "acct_at (s\<lparr>AccessAddress := aa\<rparr>) = acct_at s"
  "acct_at (s\<lparr>AccessStorage := ast\<rparr>) = acct_at s" "acct_at (s\<lparr>NewContracts := nc\<rparr>) = acct_at s"
  by (simp_all add: acct_at_alt fun_eq_iff split: option.split)

lemma state_eq_other [simp]:
  "state_eq kc (s\<lparr>Journals := js\<rparr>) t = state_eq kc s t"
  "state_eq kc t (s\<lparr>Journals := js\<rparr>) = state_eq kc t s"
  "state_eq kc (s\<lparr>hookCalls := hc\<rparr>) t = state_eq kc s t"
  "state_eq kc t (s\<lparr>hookCalls := hc\<rparr>) = state_eq kc t s"
  "state_eq kc (s\<lparr>snapshotId := n\<rparr>) t = state_eq kc s t"
  "state_eq kc t (s\<lparr>snapshotId := n\<rparr>) = state_eq kc t s"
  by (simp_all add: state_eq_def frame_eq_def transient_eq_def)

lemma frame_eq_dirty [simp]:
  "frame_eq (s\<lparr>DirtyAccounts := d\<rparr>) t = frame_eq s t"
  "frame_eq t (s\<lparr>DirtyAccounts := d\<rparr>) = frame_eq t s"
  by (simp_all add: frame_eq_def transient_eq_def)

lemma ms_inv_other [simp]:
  "ms_inv kc (s\<lparr>Journals := js\<rparr>) = ms_inv kc s"
  "ms_inv kc (s\<lparr>hookCalls := hc\<rparr>) = ms_inv kc s"
  "ms_inv kc (s\<lparr>snapshotId := n\<rparr>) = ms_inv kc s"
  "ms_inv kc (s\<lparr>Refund := rf\<rparr>) = ms_inv kc s"
  "ms_inv kc (s\<lparr>Logs := ls\<rparr>) = ms_inv kc s"
  "ms_inv kc (s\<lparr>AccessAddress := aa\<rparr>) = ms_inv kc s"
  "ms_inv kc (s\<lparr>AccessStorage := ast\<rparr>) = ms_inv kc s"
  "ms_inv kc (s\<lparr>NewContracts := nc\<rparr>) = ms_inv kc s"
  by (simp_all add: ms_inv_def)

subsection \<open>Unwinding\<close>

text \<open>
  \<open>unwinds kc s rs s'\<close>: the entries \<open>rs\<close>, run last one first, lead from any state that looks
  like \<open>s'\<close> back to one that looks like \<open>s\<close>, and so does every suffix of them lead back to the
  state in the middle.
\<close>

inductive unwinds :: "(bytes \<Rightarrow> hash) \<Rightarrow> mutable_state \<Rightarrow> jrevert list \<Rightarrow> mutable_state \<Rightarrow> bool"
  for kc s
where
  here: "state_eq kc s' s \<Longrightarrow> ms_inv kc s' \<Longrightarrow> unwinds kc s [] s'"
| more: "unwinds kc s rs u \<Longrightarrow> ms_inv kc s' \<Longrightarrow>
    \<forall>t. state_eq kc t s' \<longrightarrow> (\<exists>t'. run_revert r t = Inr t' \<and> state_eq kc t' u) \<Longrightarrow>
    unwinds kc s (rs @ [r]) s'"

inductive_cases unwinds_snocE: "unwinds kc s (rs @ [r]) s'"
inductive_cases unwinds_NilE: "unwinds kc s [] s'"

lemma unwinds_eq: "unwinds kc s rs u \<Longrightarrow> state_eq kc s' u \<Longrightarrow> unwinds kc s rs s'"
proof (induction rs u arbitrary: s' rule: unwinds.induct)
  case (here u)
  then show ?case by (metis state_eq_trans ms_inv_cong unwinds.here)
next
  case (more rs u v r)
  have "ms_inv kc s'" by (rule ms_inv_cong [OF more.prems more.hyps(2)])
  then show ?case
    by (rule unwinds.more [OF more.hyps(1)]) (use more.hyps(3) more.prems state_eq_trans in blast)
qed

lemma unwinds_trans: "unwinds kc u rs' s' \<Longrightarrow> unwinds kc s rs u \<Longrightarrow> unwinds kc s (rs @ rs') s'"
proof (induction rs' s' rule: unwinds.induct)
  case (here s')
  then show ?case by (simp add: unwinds_eq)
next
  case (more rs' v s' r)
  then have "unwinds kc s (rs @ rs') v" by simp
  from unwinds.more [OF this more.hyps(2,3)] show ?case by simp
qed

lemma unwinds_inv: "unwinds kc s rs s' \<Longrightarrow> ms_inv kc s'"
  by (erule unwinds.cases) simp_all

lemma unwinds_refl: "ms_inv kc s \<Longrightarrow> unwinds kc s [] s"
  by (simp add: unwinds.here state_eq_refl)

lemma unwinds_one:
  assumes "ms_inv kc s" "ms_inv kc s'"
    and "\<And>t. state_eq kc t s' \<Longrightarrow> \<exists>t'. run_revert r t = Inr t' \<and> state_eq kc t' s"
  shows "unwinds kc s [r] s'"
  using unwinds.more [OF unwinds_refl [OF assms(1)] assms(2), of r] assms(3) by simp

text \<open>Running a suffix of the entries stops at a state the remaining entries unwind.\<close>

lemma unwinds_run:
  "unwinds kc s (rs @ rs') s' \<Longrightarrow> state_eq kc t s' \<Longrightarrow>
   \<exists>t'. rfold run_revert (rev rs') t = Inr t' \<and> unwinds kc s rs t'"
proof (induction rs' arbitrary: s' t rule: rev_induct)
  case Nil
  then show ?case using unwinds_eq by fastforce
next
  case (snoc r rs')
  from snoc.prems(1) have "unwinds kc s ((rs @ rs') @ [r]) s'" by simp
  then obtain u where u: "unwinds kc s (rs @ rs') u"
    "\<forall>t. state_eq kc t s' \<longrightarrow> (\<exists>t'. run_revert r t = Inr t' \<and> state_eq kc t' u)"
    by (rule unwinds_snocE)
  from u(2) snoc.prems(2) obtain t1 where t1: "run_revert r t = Inr t1" "state_eq kc t1 u"
    by blast
  from snoc.IH [OF u(1) t1(2)] t1(1) show ?case by simp
qed

subsection \<open>The contract of an operation\<close>

definition appends :: "(bytes \<Rightarrow> hash) \<Rightarrow> mutable_state \<Rightarrow> mutable_state \<Rightarrow> bool" where
  "appends kc s s' =
     (\<exists>js. Journals s' = Journals s @ js \<and> (\<forall>j\<in>set js. mark j = []) \<and>
           unwinds kc s (map revert js) s' \<and> ms_inv kc s' \<and> snapshotId s' = snapshotId s)"

lemma appendsE:
  assumes "appends kc s s'"
  obtains js where "Journals s' = Journals s @ js" "\<forall>j\<in>set js. mark j = []"
    "unwinds kc s (map revert js) s'" "ms_inv kc s'" "snapshotId s' = snapshotId s"
  using assms by (auto simp: appends_def)

lemma appends_same:
  assumes "ms_inv kc s" and "state_eq kc s' s" "Journals s' = Journals s" "snapshotId s' = snapshotId s"
  shows "appends kc s s'"
  unfolding appends_def using assms ms_inv_cong [OF assms(2,1)]
  by (intro exI [of _ "[]"]) (auto intro: unwinds.here)

lemma appends_refl: "ms_inv kc s \<Longrightarrow> appends kc s s"
  by (simp add: appends_same state_eq_refl)

lemma appends_trans:
  assumes "appends kc s u" and "appends kc u s'"
  shows "appends kc s s'"
proof -
  from assms(1) obtain js where js: "Journals u = Journals s @ js" "\<forall>j\<in>set js. mark j = []"
    "unwinds kc s (map revert js) u" "snapshotId u = snapshotId s" by (rule appendsE)
  from assms(2) obtain js' where js': "Journals s' = Journals u @ js'" "\<forall>j\<in>set js'. mark j = []"
    "unwinds kc u (map revert js') s'" "ms_inv kc s'" "snapshotId s' = snapshotId u" by (rule appendsE)
  have "unwinds kc s (map revert (js @ js')) s'"
    using unwinds_trans [OF js'(3) js(3)] by simp
  then show ?thesis unfolding appends_def
    by (intro exI [of _ "js @ js'"]) (use js js' in auto)
qed

lemma appends_record:
  assumes "ms_inv kc s" "ms_inv kc s'" and "Journals s' = Journals s" "snapshotId s' = snapshotId s"
    and "\<And>t. state_eq kc t s' \<Longrightarrow> \<exists>t'. run_revert r t = Inr t' \<and> state_eq kc t' s"
  shows "appends kc s (recordJournal r s')"
  unfolding appends_def
  by (intro exI [of _ "[\<lparr>mark = [], revert = r\<rparr>]"])
    (use assms in \<open>auto simp: recordJournal_def intro!: unwinds_one\<close>)

lemma appends_inv: "appends kc s s' \<Longrightarrow> ms_inv kc s'"
  by (auto simp: appends_def)

lemma appends_other [simp]:
  "appends kc s (s'\<lparr>hookCalls := hc\<rparr>) = appends kc s s'"
proof -
  have "unwinds kc s rs (s'\<lparr>hookCalls := hc\<rparr>) = unwinds kc s rs s'" for rs
  proof
    assume u: "unwinds kc s rs (s'\<lparr>hookCalls := hc\<rparr>)"
    then show "unwinds kc s rs s'"
      by (cases rule: unwinds.cases) (auto intro: unwinds.intros)
  next
    assume u: "unwinds kc s rs s'"
    then show "unwinds kc s rs (s'\<lparr>hookCalls := hc\<rparr>)"
      by (cases rule: unwinds.cases) (auto intro: unwinds.intros)
  qed
  then show ?thesis by (simp add: appends_def)
qed

subsection \<open>Loading and storing accounts\<close>

lemma storeAccount_fields [simp]:
  "Journals (storeAccount ad a s) = Journals s" "snapshotId (storeAccount ad a s) = snapshotId s"
  "sparent (storeAccount ad a s) = sparent s" "TransientState (storeAccount ad a s) = TransientState s"
  "transientMaps (storeAccount ad a s) = transientMaps s" "NewContracts (storeAccount ad a s) = NewContracts s"
  "map_of (DirtyAccounts (storeAccount ad a s)) ad' =
     (if ad' = ad \<and> map_of (DirtyAccounts s) ad \<noteq> None then Some a else map_of (DirtyAccounts s) ad')"
  by (auto simp: storeAccount_def split: option.split)

lemma acct_at_store:
  "map_of (DirtyAccounts s) ad = Some a \<Longrightarrow> acct_at (storeAccount ad a' s) = (acct_at s)(ad := a')"
  by (simp add: storeAccount_def acct_at_alt fun_eq_iff split: option.split)

lemma acct_at_dirty: "map_of (DirtyAccounts s) ad = Some a \<Longrightarrow> acct_at s ad = a"
  by (simp add: acct_at_alt)

lemma state_eq_store:
  assumes "map_of (DirtyAccounts t) ad = Some b" and "map_of (DirtyAccounts s) ad = Some a"
    and "acct_eq kc b' a" and "state_eq kc t s'"
    and "s' = storeAccount ad a' s"
  shows "state_eq kc (storeAccount ad b' t) s"
proof -
  have "acct_eq kc (acct_at t x) (acct_at s x)" if "x \<noteq> ad" for x
  proof -
    have "acct_eq kc (acct_at t x) (acct_at s' x)" using assms(4) by (simp add: state_eq_def)
    then show ?thesis using that by (simp add: assms(5) acct_at_store [OF assms(2)])
  qed
  moreover have "acct_at s ad = a" by (rule acct_at_dirty [OF assms(2)])
  ultimately have acc: "acct_eq kc (acct_at (storeAccount ad b' t) x) (acct_at s x)" for x
    using assms(3) by (auto simp: acct_at_store [OF assms(1)])
  have d: "(map_of (DirtyAccounts t) x = None) = (map_of (DirtyAccounts s) x = None)" for x
    using assms(4) unfolding assms(5) state_eq_def by (auto split: if_splits)
  have f: "storeAccount ad b' t = t\<lparr>DirtyAccounts := mput ad b' (DirtyAccounts t)\<rparr>"
    "s' = s\<lparr>DirtyAccounts := mput ad a' (DirtyAccounts s)\<rparr>"
    using assms(1,2,5) by (simp_all add: storeAccount_def)
  have "frame_eq t s'" using assms(4) by (simp add: state_eq_def)
  then have "frame_eq (storeAccount ad b' t) s" by (simp add: f)
  moreover have "(map_of (DirtyAccounts (storeAccount ad b' t)) x = None) =
      (map_of (DirtyAccounts s) x = None)" for x
    using d [of x] assms(1,2) by (auto simp: f)
  ultimately show ?thesis unfolding state_eq_def using acc by blast
qed

lemma ms_inv_store:
  assumes "ms_inv kc s" and "map_of (DirtyAccounts s) ad = Some a"
    and "acct_inv a'" and "aparent a' = aparent a \<and> addr a' = addr a"
  shows "ms_inv kc (storeAccount ad a' s)"
  using assms acct_at_dirty [OF assms(2)] by (auto simp: ms_inv_def acct_at_store [OF assms(2)])

lemma state_eq_read:
  assumes inv: "ms_inv kc s" and eq: "acct_eq kc a' (acct_at s ad)"
  shows "state_eq kc (storeAccount ad a' s) s"
proof (cases "map_of (DirtyAccounts s) ad")
  case None
  then show ?thesis using state_eq_refl [OF inv] by (simp add: storeAccount_def)
next
  case (Some a)
  have s: "storeAccount ad a s = s\<lparr>DirtyAccounts := mput ad a (DirtyAccounts s)\<rparr>"
    using Some by (simp add: storeAccount_def)
  have "acct_at (storeAccount ad a s) = acct_at s"
    using Some by (simp add: acct_at_store [OF Some] fun_eq_iff acct_at_dirty)
  then have "state_eq kc s (storeAccount ad a s)"
    using state_eq_refl [OF inv] Some unfolding s by (auto simp: state_eq_def)
  from state_eq_store [OF Some Some _ this refl, of a'] eq acct_at_dirty [OF Some]
  show ?thesis by simp
qed

lemma appends_read:
  "ms_inv kc s \<Longrightarrow> acct_eq kc a' (acct_at s ad) \<Longrightarrow> appends kc s (storeAccount ad a' s)"
  by (rule appends_same) (simp_all add: state_eq_read)

lemma loadE:
  assumes "ms_inv kc s"
  obtains s1 where "loadAccount ad True s = (acct_at s ad, s1)" "appends kc s s1"
    "map_of (DirtyAccounts s1) ad = Some (acct_at s ad)" "acct_at s1 = acct_at s"
    "NewContracts s1 = NewContracts s" "logger s1 = logger s" "sparent s1 = sparent s"
proof (cases "map_of (DirtyAccounts s) ad")
  case (Some a)
  then show ?thesis using appends_refl [OF assms]
    by (intro that [of s]) (auto simp: loadAccount_def acct_at_alt)
next
  case None
  let ?s1 = "s\<lparr>DirtyAccounts := mput ad (acct_at s ad) (DirtyAccounts s)\<rparr>"
  have acc: "acct_at ?s1 = acct_at s"
    using None by (simp add: acct_at_alt fun_eq_iff split: option.split)
  have inv: "ms_inv kc ?s1"
    using assms acc by (simp add: ms_inv_def)
  have undone: "state_eq kc (t\<lparr>DirtyAccounts := mdel ad (DirtyAccounts t)\<rparr>) s"
    if t: "state_eq kc t ?s1" for t
  proof -
    have "acct_at (t\<lparr>DirtyAccounts := mdel ad (DirtyAccounts t)\<rparr>) x =
        (if x = ad then GetMutableAccount (sparent t) ad else acct_at t x)" for x
      by (simp add: acct_at_alt split: option.split)
    moreover have "sparent t = sparent s" "acct_eq kc (acct_at t x) (acct_at s x)" for x
      using t acc by (auto simp: state_eq_def frame_eq_def)
    ultimately show ?thesis
      using t None by (auto simp: state_eq_def acct_at_alt)
  qed
  have "loadAccount ad True s = (acct_at s ad, recordJournal (JDelDirty ad) ?s1)"
    using None by (simp add: loadAccount_def acct_at_alt Let_def)
  moreover have "appends kc s (recordJournal (JDelDirty ad) ?s1)"
    by (rule appends_record [OF assms inv]) (use undone in auto)
  moreover have "acct_at (recordJournal (JDelDirty ad) ?s1) = acct_at s"
    using acc by (simp add: recordJournal_def)
  ultimately show ?thesis
    by (intro that [of "recordJournal (JDelDirty ad) ?s1"]) (simp_all add: recordJournal_def)
qed

text \<open>A setter with the contract of \<open>undoable\<close>, recorded in the journal.\<close>

context undoable begin

lemma journals_setter:
  assumes inv: "ms_inv kc s" and d: "map_of (DirtyAccounts s) ad = Some a"
    and pre: "pre a" and set: "setter a = Inr r"
  shows "appends kc s (journalAccount ad r s)"
proof -
  obtain a' us where r: "r = (a', us)" by (cases r)
  have ai: "acct_inv a" using inv acct_at_dirty [OF d] unfolding ms_inv_def by metis
  note set' = set [unfolded r]
  have undone: "\<exists>t'. run_revert (JAcct ad us) t = Inr t' \<and> state_eq kc t' s"
    if t: "state_eq kc t (storeAccount ad a' s)" for t
  proof -
    have "map_of (DirtyAccounts t) ad \<noteq> None" using t d by (auto simp: state_eq_def)
    then obtain b where b: "map_of (DirtyAccounts t) ad = Some b" by blast
    have "acct_eq kc (acct_at t ad) (acct_at (storeAccount ad a' s) ad)"
      using t by (simp add: state_eq_def)
    then have "acct_eq kc b a'" by (simp add: acct_at_dirty [OF b] acct_at_store [OF d])
    then have "acct_eq kc (run_undos us b) a" by (rule undo_back [OF ai pre set'])
    from state_eq_store [OF b d this t refl] b show ?thesis by simp
  qed
  have "ms_inv kc (storeAccount ad a' s)"
    by (rule ms_inv_store [OF inv d keeps_inv [OF ai pre set'] keeps_place [OF set']])
  then show ?thesis unfolding r journalAccount_def
    by (auto intro!: appends_record [OF inv] undone)
qed

lemma journals_loaded:
  assumes inv: "ms_inv kc s" and pre: "pre (acct_at s ad)" and set: "setter (acct_at s ad) = Inr r"
  shows "appends kc s (journalAccount ad r (snd (loadAccount ad True s)))"
proof -
  from loadE [OF inv, of ad] obtain s1 where s1: "loadAccount ad True s = (acct_at s ad, s1)"
    "appends kc s s1" "map_of (DirtyAccounts s1) ad = Some (acct_at s ad)" by metis
  have "appends kc s1 (journalAccount ad r s1)"
    by (rule journals_setter [OF appends_inv [OF s1(2)] s1(3) pre set])
  with s1(1,2) show ?thesis by (simp add: appends_trans)
qed

end

lemma appends_emit [simp]: "appends kc s (emit c s') = appends kc s s'"
  by (simp add: emit_def)

lemma journalAccount_emit [simp]: "journalAccount ad r (emit c s) = emit c (journalAccount ad r s)"
  by (simp add: journalAccount_def recordJournal_def emit_def storeAccount_def split: option.split)

lemma hooked_cong: "logger s = logger t \<Longrightarrow> hooked h s = hooked h t"
  by (simp add: hooked_def)

lemma appends_balance_hook [simp]: "appends kc s (balance_hook ad x y s') = appends kc s s'"
  by (simp add: balance_hook_def)

lemma load_fst: "fst (loadAccount ad True s) = acct_at s ad"
  by (simp add: loadAccount_def acct_at_alt Let_def split: option.split)

lemma loadAccount_eq: "loadAccount ad True s = (acct_at s ad, snd (loadAccount ad True s))"
  by (metis load_fst prod.collapse)

text \<open>Loading, then a read of the loaded account, then a setter on what the read left.\<close>

context undoable begin

lemma journals_read:
  assumes inv: "ms_inv kc s" and rd: "acct_eq kc a' (acct_at s ad)"
    and place: "aparent a' = aparent (acct_at s ad) \<and> addr a' = addr (acct_at s ad)"
    and pre: "pre a'" and set: "setter a' = Inr r"
  shows "appends kc s (journalAccount ad r (storeAccount ad a' (snd (loadAccount ad True s))))"
proof -
  from loadE [OF inv, of ad] obtain s1 where s1: "loadAccount ad True s = (acct_at s ad, s1)"
    "appends kc s s1" "map_of (DirtyAccounts s1) ad = Some (acct_at s ad)" "acct_at s1 = acct_at s"
    by metis
  have r1: "appends kc s1 (storeAccount ad a' s1)"
    by (rule appends_read [OF appends_inv [OF s1(2)]]) (simp add: s1(4) rd)
  have "appends kc (storeAccount ad a' s1) (journalAccount ad r (storeAccount ad a' s1))"
    by (rule journals_setter [OF appends_inv [OF r1] _ pre set]) (simp add: s1(3))
  with r1 s1(1,2) show ?thesis by (metis appends_trans snd_conv)
qed

end

subsection \<open>The operations\<close>

locale journalled =
  fixes kc :: "bytes \<Rightarrow> hash"
    and op :: "mutable_state \<Rightarrow> panic + mutable_state"
    and pre :: "mutable_state \<Rightarrow> bool"
  assumes op_appends: "ms_inv kc s \<Longrightarrow> pre s \<Longrightarrow> op s = Inr s' \<Longrightarrow> appends kc s s'"
begin

lemma op_inv: "ms_inv kc s \<Longrightarrow> pre s \<Longrightarrow> op s = Inr s' \<Longrightarrow> ms_inv kc s'"
  using op_appends by (blast dest: appends_inv)

text \<open>Running the entries the operation added brings back what was seen before it.\<close>

lemma op_undone:
  assumes "ms_inv kc s" "pre s" "op s = Inr s'"
  shows "\<exists>t. run_reverts (drop (length (Journals s)) (Journals s')) s' = Inr t \<and> state_eq kc t s"
proof -
  have a: "appends kc s s'" by (rule op_appends [OF assms])
  then obtain js where js: "Journals s' = Journals s @ js" "unwinds kc s (map revert js) s'"
    by (rule appendsE)
  from unwinds_run [of kc s "[]" "map revert js" s' s'] js(2) state_eq_refl [OF appends_inv [OF a]]
  obtain t where t: "rfold run_revert (rev (map revert js)) s' = Inr t" "unwinds kc s [] t" by auto
  from t(1) have "rfold (\<lambda>j. run_revert (revert j)) (rev js) s' = Inr t"
    by (simp add: rev_map rfold_map)
  moreover from t(2) have "state_eq kc t s" by (cases rule: unwinds_NilE)
  ultimately show ?thesis using js(1) by (simp add: run_reverts_def)
qed

end

interpretation j_CreateAccount: journalled kc "CreateAccount kc ad" "\<lambda>_. True" for kc ad
proof
  fix s s' assume "ms_inv kc s" "CreateAccount kc ad s = Inr s'"
  then show "appends kc s s'"
    by (subst (asm) CreateAccount_def, subst (asm) loadAccount_eq)
      (auto simp: rbind_Inr_iff intro!: create.journals_loaded)
qed

interpretation j_SubBalance: journalled kc "\<lambda>s. Inr (snd (SubBalance ad amt s))" "\<lambda>_. True" for kc ad amt
proof
  fix s s' assume "ms_inv kc s" "(Inr (snd (SubBalance ad amt s)) :: panic + _) = Inr s'"
  then show "appends kc s s'"
    by (subst (asm) SubBalance_def, subst (asm) loadAccount_eq)
      (auto simp: Let_def intro!: setBalance.journals_loaded)
qed

interpretation j_AddBalance: journalled kc "\<lambda>s. Inr (snd (AddBalance ad amt s))" "\<lambda>_. True" for kc ad amt
proof
  fix s s' assume "ms_inv kc s" "(Inr (snd (AddBalance ad amt s)) :: panic + _) = Inr s'"
  then show "appends kc s s'"
    by (subst (asm) AddBalance_def, subst (asm) loadAccount_eq)
      (auto simp: Let_def intro!: setBalance.journals_loaded)
qed

interpretation j_SetBalance: journalled kc "\<lambda>s. Inr (SetBalance ad amt s)" "\<lambda>_. True" for kc ad amt
proof
  fix s s' assume "ms_inv kc s" "(Inr (SetBalance ad amt s) :: panic + _) = Inr s'"
  then show "appends kc s s'"
    by (subst (asm) SetBalance_def, subst (asm) loadAccount_eq)
      (auto simp: Let_def intro!: setBalance.journals_loaded)
qed

interpretation j_SetNonce: journalled kc "SetNonce ad n" "\<lambda>_. True" for kc ad n
proof
  fix s s' assume "ms_inv kc s" "SetNonce ad n s = Inr s'"
  then show "appends kc s s'"
    by (subst (asm) SetNonce_def, subst (asm) loadAccount_eq)
      (auto simp: rbind_Inr_iff nonce_hook_def split: if_splits intro!: setNonce.journals_loaded)
qed

interpretation j_SelfDestruct: journalled kc "\<lambda>s. map_sum id snd (SelfDestruct ad s)" "\<lambda>_. True" for kc ad
proof
  fix s s' assume inv: "ms_inv kc s" and sd: "map_sum id snd (SelfDestruct ad s) = Inr s'"
  obtain r c where r: "acctSelfDestruct (acct_at s ad) = Inr r"
    "s' = journalAccount ad r (snd (loadAccount ad True s)) \<or>
     s' = emit c (journalAccount ad r (snd (loadAccount ad True s)))"
    using sd by (subst (asm) SelfDestruct_def, subst (asm) loadAccount_eq)
      (cases "acctSelfDestruct (acct_at s ad)";
       auto simp: Let_def balance_hook_def split: if_splits)
  with selfDestruct.journals_loaded [OF inv _ r(1)] show "appends kc s s'" by auto
qed

lemma SetCode_cases:
  assumes "SetCode kc ad code s = Inr (prev, s')"
  obtains r c where "acctSetCode kc code (snd (acctCode kc (acct_at s ad))) = Inr r"
    "s' = journalAccount ad r (storeAccount ad (snd (acctCode kc (acct_at s ad))) (snd (loadAccount ad True s))) \<or>
     s' = emit c (journalAccount ad r
       (storeAccount ad (snd (acctCode kc (acct_at s ad))) (snd (loadAccount ad True s))))"
  using assms by (subst (asm) SetCode_def, subst (asm) loadAccount_eq)
    (auto simp: Let_def rbind_Inr_iff split: prod.splits if_splits)

interpretation j_SetCode: journalled kc "\<lambda>s. map_sum id snd (SetCode kc ad code s)"
  "\<lambda>s. adds_code kc code (acct_at s ad)" for kc ad code
proof
  fix s s' assume inv: "ms_inv kc s" and pre: "adds_code kc code (acct_at s ad)"
    and "map_sum id snd (SetCode kc ad code s) = Inr s'"
  then obtain prev where sc: "SetCode kc ad code s = Inr (prev, s')"
    by (cases "SetCode kc ad code s") auto
  have "adds_code kc code (snd (acctCode kc (acct_at s ad)))"
    using pre code_read_eq [of kc "acct_at s ad"] by (simp add: adds_code_def acct_eq_def)
  note j = setCode.journals_read [OF inv code_read_eq acctCode_place this]
  from sc show "appends kc s s'" by (rule SetCode_cases) (auto dest: j)
qed

interpretation j_SetState: journalled kc "\<lambda>s. Inr (snd (SetState ad key val s))" "\<lambda>_. True" for kc ad key val
proof
  fix s s' assume inv: "ms_inv kc s" and set: "(Inr (snd (SetState ad key val s)) :: panic + _) = Inr s'"
  let ?a = "snd (acctGetState (acct_at s ad) key)"
  let ?s1 = "journalAccount ad (acctSetState key val ?a) (storeAccount ad ?a (snd (loadAccount ad True s)))"
  let ?c = "StorageChange ad key (fst (acctGetState (acct_at s ad) key)) val"
  have s': "s' = ?s1 \<or> s' = emit ?c ?s1"
    using set by (auto simp: SetState_def Let_def case_prod_beta load_fst)
  have ai: "acct_inv (acct_at s ad)" using inv by (simp add: ms_inv_def)
  from setState.journals_read [OF inv getState_eq [OF ai] getState_place _ refl] s'
  show "appends kc s s'" by auto
qed

lemma load_read: "loadAccount ad False s = (acct_at s ad, s)"
  by (simp add: loadAccount_def acct_at_alt Let_def split: option.split)

interpretation j_GetCode: journalled kc "\<lambda>s. Inr (snd (GetCode kc ad s))" "\<lambda>_. True" for kc ad
proof
  fix s s' assume inv: "ms_inv kc s" and "(Inr (snd (GetCode kc ad s)) :: panic + _) = Inr s'"
  then have "s' = storeAccount ad (snd (acctCode kc (acct_at s ad))) s"
    by (simp add: GetCode_def load_read Let_def split: prod.splits)
  then show "appends kc s s'" using inv by (simp add: appends_read code_read_eq)
qed

interpretation j_GetState: journalled kc "\<lambda>s. Inr (snd (GetState ad key s))" "\<lambda>_. True" for kc ad key
proof
  fix s s' assume inv: "ms_inv kc s" and "(Inr (snd (GetState ad key s)) :: panic + _) = Inr s'"
  then have "s' = storeAccount ad (snd (acctGetState (acct_at s ad) key)) s"
    by (simp add: GetState_def load_read Let_def split: prod.splits)
  moreover have "acct_inv (acct_at s ad)" using inv by (simp add: ms_inv_def)
  ultimately show "appends kc s s'" using inv by (simp add: appends_read getState_eq)
qed

subsection \<open>Operations on the rest of the state\<close>

lemma slots_eq_length: "slots_eq xs ys \<Longrightarrow> length xs = length ys"
  unfolding slots_eq_def by (metis length_map)

lemma slots_eq_Nil: "slots_eq xs (ys @ [m]) \<Longrightarrow> xs \<noteq> [] \<and> slots_eq (butlast xs) ys"
  by (auto simp: slots_eq_def map_butlast)

lemma slots_eq_del:
  assumes "slots_eq xs (ys[i := mput k v (ys ! i)])" and "i < length ys"
    and "map_of (ys ! i) k = None"
  shows "slots_eq (xs[i := mdel k (xs ! i)]) ys"
proof -
  have len: "length xs = length ys" using slots_eq_length [OF assms(1)] by simp
  have nth: "map_of (xs ! j) = map_of ((ys[i := mput k v (ys ! i)]) ! j)" if "j < length ys" for j
    using assms(1) that len unfolding slots_eq_def by (metis length_list_update nth_map)
  have "map_of ((xs[i := mdel k (xs ! i)]) ! j) = map_of (ys ! j)" if "j < length ys" for j
    using nth [OF that] that len assms(2,3) by (cases "j = i") (auto simp: fun_eq_iff)
  then show ?thesis unfolding slots_eq_def using len by (intro nth_equalityI) auto
qed

interpretation j_CreateContract: journalled kc "\<lambda>s. Inr (CreateContract ad s)" "\<lambda>_. True" for kc ad
proof
  fix s s' assume inv: "ms_inv kc s" and "(Inr (CreateContract ad s) :: panic + _) = Inr s'"
  then show "appends kc s s'"
    by (auto simp: CreateContract_def appends_refl state_eq_def frame_eq_def transient_eq_def map_fun
        intro!: appends_record)
qed

lemma appends_refund:
  "ms_inv kc s \<Longrightarrow> appends kc s (recordJournal (JRefund (Refund s)) (s\<lparr>Refund := g\<rparr>))"
  by (auto simp: state_eq_def frame_eq_def transient_eq_def intro!: appends_record)

interpretation j_AddRefund: journalled kc "\<lambda>s. Inr (AddRefund gas s)" "\<lambda>_. True" for kc gas
  by unfold_locales (auto simp: AddRefund_def appends_refund)

interpretation j_SubRefund: journalled kc "SubRefund gas" "\<lambda>_. True" for kc gas
  by unfold_locales (auto simp: SubRefund_def appends_refund split: if_splits)

interpretation j_AddAddress: journalled kc "\<lambda>s. Inr (AddAddressToAccessList ad s)" "\<lambda>_. True" for kc ad
proof
  fix s s' assume inv: "ms_inv kc s" and "(Inr (AddAddressToAccessList ad s) :: panic + _) = Inr s'"
  then show "appends kc s s'"
    by (auto simp: AddAddressToAccessList_def appends_refl state_eq_def frame_eq_def transient_eq_def map_fun
        intro!: appends_record)
qed

lemma appends_slotIndex: "ms_inv kc s \<Longrightarrow> slotIndex ad s = (i, s') \<Longrightarrow> appends kc s s'"
  by (auto simp: slotIndex_def Let_def appends_refl state_eq_def frame_eq_def transient_eq_def fun_eq_iff
      dest!: slots_eq_Nil split: option.splits if_splits intro!: appends_record)

interpretation j_AddSlot: journalled kc "AddSlotToAccessList ad sl" "\<lambda>_. True" for kc ad sl
proof
  fix s s' assume inv: "ms_inv kc s" and add: "AddSlotToAccessList ad sl s = Inr s'"
  obtain i s1 where i: "slotIndex ad s = (i, s1)" by fastforce
  have a1: "appends kc s s1" by (rule appends_slotIndex [OF inv i])
  have "appends kc s1 s'"
  proof (cases "map_of (AccessStorage s1 ! nat i) sl")
    case (Some v)
    then have "s' = s1" using add i by (auto simp: AddSlotToAccessList_def split: if_splits)
    then show ?thesis using appends_refl [OF appends_inv [OF a1]] by simp
  next
    case None
    let ?s2 = "s1\<lparr>AccessStorage := (AccessStorage s1)[nat i := mput sl True (AccessStorage s1 ! nat i)]\<rparr>"
    have lt: "nat i < length (AccessStorage s1)" and s': "s' = recordJournal (JDelSlot (nat i) sl) ?s2"
      using add i None by (auto simp: AddSlotToAccessList_def split: if_splits)
    have len: "state_eq kc t ?s2 \<Longrightarrow> nat i < length (AccessStorage t)" for t
      using lt by (auto simp: state_eq_def frame_eq_def dest!: slots_eq_length)
    have "state_eq kc t ?s2 \<Longrightarrow> \<exists>t'. run_revert (JDelSlot (nat i) sl) t = Inr t' \<and> state_eq kc t' s1" for t
      using len [of t] slots_eq_del [OF _ lt None]
      by (auto simp: state_eq_def frame_eq_def transient_eq_def)
    then show ?thesis unfolding s'
      by (auto intro!: appends_record simp: appends_inv [OF a1])
  qed
  with a1 show "appends kc s s'" by (rule appends_trans)
qed

interpretation j_AddLog: journalled kc "\<lambda>s. Inr (AddLog l s)" "\<lambda>_. True" for kc l
proof
  fix s s' assume inv: "ms_inv kc s" and add: "(Inr (AddLog l s) :: panic + _) = Inr s'"
  have rec: "appends kc s (recordJournal JPopLog (s\<lparr>Logs := Logs s @ [l']\<rparr>))" for l'
    using inv by (auto simp: state_eq_def frame_eq_def transient_eq_def intro!: appends_record)
  show "appends kc s s'" using add rec by (auto simp: AddLog_def Let_def split: if_splits)
qed

lemma transient_eq_drop:
  assumes eq: "transient_eq t (s\<lparr>transientMaps := transientMaps s @ [[]],
      TransientState := mput ad (length (transientMaps s)) (TransientState s)\<rparr>)"
    and new: "map_of (TransientState s) ad = None"
    and lt: "\<And>ad' r. map_of (TransientState s) ad' = Some r \<Longrightarrow> r < length (transientMaps s)"
  shows "transient_eq (t\<lparr>TransientState := mdel ad (TransientState t)\<rparr>) s"
proof -
  have m: "map_of (TransientState t) = (map_of (TransientState s))(ad \<mapsto> length (transientMaps s))"
    using eq by (simp add: transient_eq_def mput_fun)
  have "r < length (transientMaps t) \<and> map_of (transientMaps t ! r) = map_of (transientMaps s ! r)"
    if r: "map_of (TransientState s) ad' = Some r" for ad' r
  proof -
    from new r have "ad' \<noteq> ad" by auto
    with m r have "map_of (TransientState t) ad' = Some r" by simp
    with eq have "r < length (transientMaps t)"
      "map_of (transientMaps t ! r) = map_of ((transientMaps s @ [[]]) ! r)"
      by (auto simp: transient_eq_def)
    with lt [OF r] show ?thesis by (simp add: nth_append)
  qed
  with new lt m show ?thesis by (auto simp: transient_eq_def map_fun)
qed

lemma appends_ensureTransient:
  assumes inv: "ms_inv kc s" and e: "ensureTransient ad s = (r, s')"
  shows "appends kc s s'" and "map_of (TransientState s') ad = Some r"
proof -
  show "appends kc s s'"
  proof (cases "map_of (TransientState s) ad")
    case (Some r')
    then show ?thesis using e appends_refl [OF inv] by (simp add: ensureTransient_def)
  next
    case None
    let ?s1 = "s\<lparr>transientMaps := transientMaps s @ [[]],
                TransientState := mput ad (length (transientMaps s)) (TransientState s)\<rparr>"
    have s': "s' = recordJournal (JDelTransient ad) ?s1"
      using e None by (auto simp: ensureTransient_def Let_def)
    have lt: "map_of (TransientState s) ad' = Some r' \<Longrightarrow> r' < length (transientMaps s)" for ad' r'
      using inv by (auto simp: ms_inv_def)
    have inv1: "ms_inv kc ?s1"
      using inv lt unfolding ms_inv_def by (auto simp: less_Suc_eq)
    show ?thesis unfolding s'
    proof (rule appends_record [OF inv inv1])
      fix t assume t: "state_eq kc t ?s1"
      then have "transient_eq (t\<lparr>TransientState := mdel ad (TransientState t)\<rparr>) s"
        by (intro transient_eq_drop [OF _ None lt]) (auto simp: state_eq_def frame_eq_def)
      with t have "state_eq kc (t\<lparr>TransientState := mdel ad (TransientState t)\<rparr>) s"
        by (simp add: state_eq_def frame_eq_def)
      then show "\<exists>t'. run_revert (JDelTransient ad) t = Inr t' \<and> state_eq kc t' s" by simp
    qed simp_all
  qed
  show "map_of (TransientState s') ad = Some r"
    using e by (auto simp: ensureTransient_def Let_def recordJournal_def split: option.splits)
qed

lemma putTransient_inv: "ms_inv kc s \<Longrightarrow> ms_inv kc (putTransient r k v s)"
  by (simp add: putTransient_def ms_inv_def)

text \<open>What is written to one transient map, undone in it, is as it was.\<close>

lemma transient_eq_put:
  assumes inv: "ms_inv kc s" and eq: "transient_eq t (putTransient r k v s)"
    and undo: "\<And>m. map_of m = map_of (mput k v (transientMaps s ! r)) \<Longrightarrow> map_of (f m) = map_of (transientMaps s ! r)"
  shows "transient_eq (t\<lparr>transientMaps := (transientMaps t)[r := f (transientMaps t ! r)]\<rparr>) s"
proof -
  let ?tm = "(transientMaps s)[r := mput k v (transientMaps s ! r)]"
  have m: "map_of (TransientState t) = map_of (TransientState s)"
    using eq by (simp add: transient_eq_def putTransient_def)
  have "map_of ((transientMaps t)[r := f (transientMaps t ! r)] ! i) = map_of (transientMaps s ! i)
      \<and> i < length (transientMaps t) \<and> i < length (transientMaps s)"
    if i: "map_of (TransientState s) ad = Some i" for ad i
  proof -
    have lt: "i < length (transientMaps t)" "i < length (transientMaps s)"
      and eqi: "map_of (transientMaps t ! i) = map_of (?tm ! i)"
      using eq i m by (auto simp: transient_eq_def putTransient_def)
    show ?thesis
    proof (cases "i = r")
      case True
      then have "map_of (transientMaps t ! r) = map_of (mput k v (transientMaps s ! r))"
        using eqi lt by simp
      from undo [OF this] lt True show ?thesis by simp
    next
      case False
      then show ?thesis using eqi lt by simp
    qed
  qed
  with m show ?thesis by (auto simp: transient_eq_def)
qed

lemma state_eq_put:
  assumes "state_eq kc t (putTransient r k v s)"
    and "transient_eq (t\<lparr>transientMaps := tm\<rparr>) s"
  shows "state_eq kc (t\<lparr>transientMaps := tm\<rparr>) s"
  using assms by (simp add: state_eq_def frame_eq_def putTransient_def)

interpretation j_SetTransient: journalled kc "\<lambda>s. Inr (SetTransientState ad key val s)" "\<lambda>_. True" for kc ad key val
proof
  fix s s' assume inv: "ms_inv kc s" and set: "(Inr (SetTransientState ad key val s) :: panic + _) = Inr s'"
  obtain r s1 where e: "ensureTransient ad s = (r, s1)" by fastforce
  note a1 = appends_ensureTransient(1) [OF inv e]
  note inv1 = appends_inv [OF a1]
  let ?s2 = "putTransient r key val s1"
  have s2: "Journals ?s2 = Journals s1" "snapshotId ?s2 = snapshotId s1"
    by (simp_all add: putTransient_def)
  have "appends kc s1 s'"
  proof (cases "map_of (transientMaps s1 ! r) key")
    case None
    then have s': "s' = recordJournal (JTransientDel r key) ?s2"
      using set e by (simp add: SetTransientState_def)
    show ?thesis unfolding s'
    proof (rule appends_record [OF inv1 putTransient_inv [OF inv1] s2])
      fix t assume t: "state_eq kc t ?s2"
      have "transient_eq (t\<lparr>transientMaps := (transientMaps t)[r := mdel key (transientMaps t ! r)]\<rparr>) s1"
        by (rule transient_eq_put [OF inv1, where k = key and v = val])
          (use t None in \<open>auto simp: state_eq_def frame_eq_def map_fun\<close>)
      from state_eq_put [OF t this]
      show "\<exists>t'. run_revert (JTransientDel r key) t = Inr t' \<and> state_eq kc t' s1" by simp
    qed
  next
    case (Some x)
    then have s': "s' = recordJournal (JTransientPut r key x) ?s2"
      using set e by (simp add: SetTransientState_def)
    show ?thesis unfolding s'
    proof (rule appends_record [OF inv1 putTransient_inv [OF inv1] s2])
      fix t assume t: "state_eq kc t ?s2"
      have "transient_eq (t\<lparr>transientMaps := (transientMaps t)[r := mput key x (transientMaps t ! r)]\<rparr>) s1"
        by (rule transient_eq_put [OF inv1, where k = key and v = val])
          (use t Some in \<open>auto simp: state_eq_def frame_eq_def map_fun fun_upd_idem\<close>)
      from state_eq_put [OF t this]
      show "\<exists>t'. run_revert (JTransientPut r key x) t = Inr t' \<and> state_eq kc t' s1"
        by (simp add: putTransient_def)
    qed
  qed
  with a1 show "appends kc s s'" by (rule appends_trans)
qed

interpretation j_SelfDestruct6780: journalled kc "\<lambda>s. map_sum id (snd \<circ> snd) (SelfDestruct6780 ad s)"
  "\<lambda>s. map_of (NewContracts s) ad = None" for kc ad
proof
  fix s s' assume inv: "ms_inv kc s" and pre: "map_of (NewContracts s) ad = None"
    and sd: "map_sum id (snd \<circ> snd) (SelfDestruct6780 ad s) = Inr s'"
  from loadE [OF inv, of ad] obtain s1 where s1: "loadAccount ad True s = (acct_at s ad, s1)"
    "appends kc s s1" "NewContracts s1 = NewContracts s" by metis
  then have "s' = s1" using sd pre by (simp add: SelfDestruct6780_def Let_def)
  with s1(2) show "appends kc s s'" by simp
qed

end
