(* ===== verification/Snapshots.thy ===== *)
theory Snapshots
  imports MutableLaws
begin

section \<open>Runs of the EVM and snapshots\<close>

text \<open>
  What a transaction does to the state is a list of calls (\<open>evm_op\<close>), executed one by one by
  \<open>exec_op\<close>, snapshots and reverts among them. The theorems: the invariant holds along every
  run; reverting to a snapshot gives back the state that was seen when it was taken, whatever
  calls, nested snapshots and inner reverts came in between; a revert never panics for a
  snapshot that was taken in the run and not reverted past. \<open>op_ok\<close> names the two calls the
  code does not undo: a code removal and a 6780 destruction of a new contract.
\<close>

datatype evm_op =
    OCreateAccount address
  | OCreateContract address
  | OSubBalance address u256
  | OAddBalance address u256
  | OSetBalance address u256
  | OSetNonce address u64
  | OSetCode address bytes
  | OSetState address hash hash
  | OSetTransient address hash hash
  | OAddRefund u64
  | OSubRefund u64
  | OSelfDestruct address
  | OSelfDestruct6780 address
  | OAddAddress address
  | OAddSlot address hash
  | OAddLog log_entry
  | OGetCode address
  | OGetState address hash
  | OSnapshot
  | ORevert int

fun exec_op :: "(bytes \<Rightarrow> hash) \<Rightarrow> evm_op \<Rightarrow> mutable_state \<Rightarrow> panic + mutable_state" where
  "exec_op kc (OCreateAccount ad) s = CreateAccount kc ad s"
| "exec_op kc (OCreateContract ad) s = Inr (CreateContract ad s)"
| "exec_op kc (OSubBalance ad amt) s = Inr (snd (SubBalance ad amt s))"
| "exec_op kc (OAddBalance ad amt) s = Inr (snd (AddBalance ad amt s))"
| "exec_op kc (OSetBalance ad amt) s = Inr (SetBalance ad amt s)"
| "exec_op kc (OSetNonce ad n) s = SetNonce ad n s"
| "exec_op kc (OSetCode ad code) s = map_sum id snd (SetCode kc ad code s)"
| "exec_op kc (OSetState ad key val) s = Inr (snd (SetState ad key val s))"
| "exec_op kc (OSetTransient ad key val) s = Inr (SetTransientState ad key val s)"
| "exec_op kc (OAddRefund gas) s = Inr (AddRefund gas s)"
| "exec_op kc (OSubRefund gas) s = SubRefund gas s"
| "exec_op kc (OSelfDestruct ad) s = map_sum id snd (SelfDestruct ad s)"
| "exec_op kc (OSelfDestruct6780 ad) s = map_sum id (snd \<circ> snd) (SelfDestruct6780 ad s)"
| "exec_op kc (OAddAddress ad) s = Inr (AddAddressToAccessList ad s)"
| "exec_op kc (OAddSlot ad sl) s = AddSlotToAccessList ad sl s"
| "exec_op kc (OAddLog l) s = Inr (AddLog l s)"
| "exec_op kc (OGetCode ad) s = Inr (snd (GetCode kc ad s))"
| "exec_op kc (OGetState ad key) s = Inr (snd (GetState ad key s))"
| "exec_op kc OSnapshot s = Inr (snd (Snapshot s))"
| "exec_op kc (ORevert ti) s = RevertToSnapshot ti s"

definition exec_ops :: "(bytes \<Rightarrow> hash) \<Rightarrow> evm_op list \<Rightarrow> mutable_state \<Rightarrow> panic + mutable_state" where
  "exec_ops kc ops s = rfold (exec_op kc) ops s"

text \<open>\<open>low\<close> is the first snapshot id that may be reverted to.\<close>

fun op_ok :: "(bytes \<Rightarrow> hash) \<Rightarrow> int \<Rightarrow> evm_op \<Rightarrow> mutable_state \<Rightarrow> bool" where
  "op_ok kc low (OSetCode ad code) s = adds_code kc code (acct_at s ad)"
| "op_ok kc low (OSelfDestruct6780 ad) s = (map_of (NewContracts s) ad = None)"
| "op_ok kc low (ORevert ti) s = (low \<le> ti)"
| "op_ok kc low _ s = True"

fun ops_ok :: "(bytes \<Rightarrow> hash) \<Rightarrow> int \<Rightarrow> evm_op list \<Rightarrow> mutable_state \<Rightarrow> bool" where
  "ops_ok kc low [] s = True"
| "ops_ok kc low (op # ops) s =
     (op_ok kc low op s \<and> (case exec_op kc op s of Inl e \<Rightarrow> True | Inr s' \<Rightarrow> ops_ok kc low ops s'))"

fun is_snap :: "evm_op \<Rightarrow> bool" where
  "is_snap OSnapshot = True"
| "is_snap (ORevert ti) = True"
| "is_snap _ = False"

lemma exec_op_appends:
  assumes "ms_inv kc s" "op_ok kc low op s" "exec_op kc op s = Inr s'" "\<not> is_snap op"
  shows "appends kc s s'"
proof (cases op)
  case (OCreateAccount ad) with assms show ?thesis by (auto intro: j_CreateAccount.op_appends)
next
  case (OCreateContract ad) with assms show ?thesis by (auto intro: j_CreateContract.op_appends)
next
  case (OSubBalance ad amt) with assms show ?thesis by (auto intro: j_SubBalance.op_appends)
next
  case (OAddBalance ad amt) with assms show ?thesis by (auto intro: j_AddBalance.op_appends)
next
  case (OSetBalance ad amt) with assms show ?thesis by (auto intro: j_SetBalance.op_appends)
next
  case (OSetNonce ad n) with assms show ?thesis by (auto intro: j_SetNonce.op_appends)
next
  case (OSetCode ad code) with assms show ?thesis
    using j_SetCode.op_appends [of kc s code ad s'] by simp
next
  case (OSetState ad key val) with assms show ?thesis by (auto intro: j_SetState.op_appends)
next
  case (OSetTransient ad key val) with assms show ?thesis by (auto intro: j_SetTransient.op_appends)
next
  case (OAddRefund gas) with assms show ?thesis by (auto intro: j_AddRefund.op_appends)
next
  case (OSubRefund gas) with assms show ?thesis by (auto intro: j_SubRefund.op_appends)
next
  case (OSelfDestruct ad) with assms show ?thesis
    using j_SelfDestruct.op_appends [of kc s ad s'] by simp
next
  case (OSelfDestruct6780 ad) with assms show ?thesis
    using j_SelfDestruct6780.op_appends [of kc s ad s'] by simp
next
  case (OAddAddress ad) with assms show ?thesis by (auto intro: j_AddAddress.op_appends)
next
  case (OAddSlot ad sl) with assms show ?thesis by (auto intro: j_AddSlot.op_appends)
next
  case (OAddLog l) with assms show ?thesis by (auto intro: j_AddLog.op_appends)
next
  case (OGetCode ad) with assms show ?thesis by (auto intro: j_GetCode.op_appends)
next
  case (OGetState ad key) with assms show ?thesis by (auto intro: j_GetState.op_appends)
qed (use assms in simp_all)

subsection \<open>Marks\<close>

definition marked :: "journal \<Rightarrow> int \<Rightarrow> bool" where
  "marked j ti = mget_or False (mark j) ti"

lemma marked_upd [simp]:
  "marked (j\<lparr>mark := mput ti b (mark j)\<rparr>) tj = (if tj = ti then b else marked j tj)"
  "marked (j\<lparr>mark := mdel ti (mark j)\<rparr>) tj = (tj \<noteq> ti \<and> marked j tj)"
  by (simp_all add: marked_def)

lemma marked_Nil [simp]: "mark j = [] \<Longrightarrow> \<not> marked j ti"
  by (simp add: marked_def)

definition marks_fresh :: "mutable_state \<Rightarrow> bool" where
  "marks_fresh s = (\<forall>j\<in>set (Journals s). \<forall>ti. marked j ti \<longrightarrow> ti < snapshotId s)"

lemma find_mark_Some:
  "find_mark ti js n = Some i \<Longrightarrow> i < n \<and> marked (js ! i) ti"
  by (induction n) (auto simp: marked_def split: if_splits)

lemma find_mark_last:
  "marked (js ! i) ti \<Longrightarrow> i < n \<Longrightarrow> (\<And>k. i < k \<Longrightarrow> k < n \<Longrightarrow> \<not> marked (js ! k) ti) \<Longrightarrow>
   find_mark ti js n = Some i"
proof (induction n)
  case 0
  then show ?case by simp
next
  case (Suc n)
  show ?case
  proof (cases "i = n")
    case True
    then show ?thesis using Suc.prems(1) by (simp add: marked_def)
  next
    case False
    then have "i < n" using Suc.prems(2) by simp
    moreover have "\<not> marked (js ! n) ti" using Suc.prems(3) calculation by simp
    ultimately show ?thesis using Suc by (simp add: marked_def)
  qed
qed

lemma map_revert_mark: "map revert (js[i := (js ! i)\<lparr>mark := m\<rparr>]) = map revert js"
proof (cases "i < length js")
  case True
  then have "(map revert js)[i := revert (js ! i)] = map revert js"
    by (metis list_update_id nth_map)
  then show ?thesis by (simp add: map_update)
next
  case False
  then show ?thesis by (simp add: list_update_beyond)
qed

text \<open>What a snapshot does to the journal.\<close>

lemma SnapshotE:
  assumes "Snapshot s = (ti, s')"
  obtains js where "ti = snapshotId s" "snapshotId s' = snapshotId s + 1"
    "s' = s\<lparr>snapshotId := snapshotId s + 1, Journals := Journals s'\<rparr>"
    "js = (if Journals s = [] then [\<lparr>mark = [], revert = JNop\<rparr>] else Journals s)"
    "Journals s' = js[length js - 1 := (js ! (length js - 1))
        \<lparr>mark := mput (snapshotId s) True (mark (js ! (length js - 1)))\<rparr>]"
proof -
  let ?js = "if Journals s = [] then [\<lparr>mark = [], revert = JNop\<rparr>] else Journals s"
  show thesis
    by (rule that [of ?js]) (use assms in \<open>auto simp: Snapshot_def Let_def recordJournal_def\<close>)
qed

lemma Snapshot_eq: "ms_inv kc s \<Longrightarrow> Snapshot s = (ti, s') \<Longrightarrow> state_eq kc s' s \<and> ms_inv kc s'"
  by (elim SnapshotE, erule ssubst [of s']) (simp add: state_eq_refl)

lemma run_reverts_unwinds:
  assumes "unwinds kc s (map revert js @ map revert js') s'" and "state_eq kc t s'"
  obtains u where "run_reverts js' t = Inr u" "unwinds kc s (map revert js) u"
proof -
  from unwinds_run [OF assms] obtain u where
    u: "rfold run_revert (rev (map revert js')) t = Inr u" "unwinds kc s (map revert js) u" by blast
  then show thesis by (intro that) (simp_all add: run_reverts_def rev_map rfold_map)
qed

lemma run_revert_journals:
  "run_revert r s = Inr s' \<Longrightarrow> Journals s' = Journals s \<and> snapshotId s' = snapshotId s"
  by (cases r) (auto simp: putTransient_def split: option.splits if_splits)

lemma run_reverts_journals:
  "run_reverts js s = Inr s' \<Longrightarrow> Journals s' = Journals s \<and> snapshotId s' = snapshotId s"
  unfolding run_reverts_def
  by (rule rfold_invariant [where P = "\<lambda>u. Journals u = Journals s \<and> snapshotId u = snapshotId s"])
    (auto dest: run_revert_journals)

subsection \<open>States reached after a snapshot\<close>

text \<open>
  \<open>since kc s1 s2\<close>: the journal of \<open>s2\<close> is that of \<open>s1\<close> and then entries that unwind to
  \<open>s1\<close>; the marks of the snapshots \<open>s1\<close> knows are where they were, and the later marks are
  at the end of the journal of \<open>s1\<close> or after it.
\<close>

definition since :: "(bytes \<Rightarrow> hash) \<Rightarrow> mutable_state \<Rightarrow> mutable_state \<Rightarrow> bool" where
  "since kc s1 s2 =
     (\<exists>js js'. Journals s2 = js @ js' \<and> length js = length (Journals s1) \<and>
        map revert js = map revert (Journals s1) \<and> unwinds kc s1 (map revert js') s2 \<and>
        ms_inv kc s2 \<and> snapshotId s1 \<le> snapshotId s2 \<and>
        (\<forall>i < length js. \<forall>k < snapshotId s1. marked (js ! i) k = marked (Journals s1 ! i) k) \<and>
        (\<forall>j\<in>set js'. \<forall>k < snapshotId s1. \<not> marked j k) \<and>
        (\<forall>i. Suc i < length js \<longrightarrow> (\<forall>k\<ge>snapshotId s1. \<not> marked (js ! i) k)))"

lemma sinceI:
  assumes "Journals s2 = js @ js'" "length js = length (Journals s1)"
    and "map revert js = map revert (Journals s1)" "unwinds kc s1 (map revert js') s2"
    and "ms_inv kc s2" "snapshotId s1 \<le> snapshotId s2"
    and "\<And>i k. i < length js \<Longrightarrow> k < snapshotId s1 \<Longrightarrow> marked (js ! i) k = marked (Journals s1 ! i) k"
    and "\<And>j k. j \<in> set js' \<Longrightarrow> k < snapshotId s1 \<Longrightarrow> \<not> marked j k"
    and "\<And>i k. Suc i < length js \<Longrightarrow> snapshotId s1 \<le> k \<Longrightarrow> \<not> marked (js ! i) k"
  shows "since kc s1 s2"
  unfolding since_def
  apply (rule exI [of _ js], rule exI [of _ js'], intro conjI allI impI ballI)
  using assms by blast+

lemma sinceE:
  assumes "since kc s1 s2"
  obtains js js' where "Journals s2 = js @ js'" "length js = length (Journals s1)"
    "map revert js = map revert (Journals s1)" "unwinds kc s1 (map revert js') s2"
    "ms_inv kc s2" "snapshotId s1 \<le> snapshotId s2"
    "\<And>i k. i < length js \<Longrightarrow> k < snapshotId s1 \<Longrightarrow> marked (js ! i) k = marked (Journals s1 ! i) k"
    "\<And>j k. j \<in> set js' \<Longrightarrow> k < snapshotId s1 \<Longrightarrow> \<not> marked j k"
    "\<And>i k. Suc i < length js \<Longrightarrow> snapshotId s1 \<le> k \<Longrightarrow> \<not> marked (js ! i) k"
  using assms unfolding since_def by blast

lemma since_refl:
  assumes "ms_inv kc s" "marks_fresh s"
  shows "since kc s s"
proof (rule sinceI [of s "Journals s" "[]"])
  show "unwinds kc s (map revert []) s" by (simp add: unwinds_refl [OF assms(1)])
  show "\<not> marked (Journals s ! i) k" if "Suc i < length (Journals s)" "snapshotId s \<le> k" for i k
    using assms(2) that unfolding marks_fresh_def by (meson Suc_lessD linorder_not_less nth_mem)
qed (use assms in auto)

lemma since_appends:
  assumes since: "since kc s1 s2" and app: "appends kc s2 s3"
  shows "since kc s1 s3"
proof -
  from since obtain js js' where s: "Journals s2 = js @ js'" "length js = length (Journals s1)"
    "map revert js = map revert (Journals s1)" "unwinds kc s1 (map revert js') s2"
    "snapshotId s1 \<le> snapshotId s2"
    "\<And>i k. i < length js \<Longrightarrow> k < snapshotId s1 \<Longrightarrow> marked (js ! i) k = marked (Journals s1 ! i) k"
    "\<And>j k. j \<in> set js' \<Longrightarrow> k < snapshotId s1 \<Longrightarrow> \<not> marked j k"
    "\<And>i k. Suc i < length js \<Longrightarrow> snapshotId s1 \<le> k \<Longrightarrow> \<not> marked (js ! i) k"
    by (rule sinceE) blast
  from app obtain new where n: "Journals s3 = Journals s2 @ new" "\<forall>j\<in>set new. mark j = []"
    "unwinds kc s2 (map revert new) s3" "ms_inv kc s3" "snapshotId s3 = snapshotId s2"
    by (rule appendsE)
  show ?thesis
  proof (rule sinceI [of s3 js "js' @ new"])
    show "unwinds kc s1 (map revert (js' @ new)) s3" using unwinds_trans [OF n(3) s(4)] by simp
    show "\<not> marked j k" if "j \<in> set (js' @ new)" "k < snapshotId s1" for j k
      using that s(7) n(2) by auto
  qed (use s n in auto)
qed

lemma since_Snapshot:
  assumes since: "since kc s1 s2" and snap: "Snapshot s2 = (ti, s3)" and ne: "Journals s1 \<noteq> []"
  shows "since kc s1 s3"
proof -
  from since obtain js js' where s: "Journals s2 = js @ js'" "length js = length (Journals s1)"
    "map revert js = map revert (Journals s1)" "unwinds kc s1 (map revert js') s2"
    "ms_inv kc s2" "snapshotId s1 \<le> snapshotId s2"
    "\<And>i k. i < length js \<Longrightarrow> k < snapshotId s1 \<Longrightarrow> marked (js ! i) k = marked (Journals s1 ! i) k"
    "\<And>j k. j \<in> set js' \<Longrightarrow> k < snapshotId s1 \<Longrightarrow> \<not> marked j k"
    "\<And>i k. Suc i < length js \<Longrightarrow> snapshotId s1 \<le> k \<Longrightarrow> \<not> marked (js ! i) k"
    by (rule sinceE) blast
  have ne2: "Journals s2 \<noteq> []" "js \<noteq> []" using s(1,2) ne by auto
  define upd where "upd = (\<lambda>j :: journal. j\<lparr>mark := mput (snapshotId s2) True (mark j)\<rparr>)"
  define n where "n = length (Journals s2) - 1"
  from snap obtain js0 where "snapshotId s3 = snapshotId s2 + 1"
    "js0 = (if Journals s2 = [] then [\<lparr>mark = [], revert = JNop\<rparr>] else Journals s2)"
    "Journals s3 = js0[length js0 - 1 := (js0 ! (length js0 - 1))
        \<lparr>mark := mput (snapshotId s2) True (mark (js0 ! (length js0 - 1)))\<rparr>]"
    by (rule SnapshotE)
  then have j3: "snapshotId s3 = snapshotId s2 + 1" "Journals s3 = (Journals s2)[n := upd (Journals s2 ! n)]"
    using ne2 by (simp_all add: upd_def n_def)
  have upd: "revert (upd j) = revert j" "k < snapshotId s1 \<Longrightarrow> marked (upd j) k = marked j k" for j k
    using s(6) by (auto simp: upd_def)
  have mr: "map revert (xs[i := upd (xs ! i)]) = map revert xs" for xs i
    by (cases "i < length xs") (auto simp: list_eq_iff_nth_eq nth_list_update upd(1) list_update_beyond)
  note eq3 = Snapshot_eq [OF s(5) snap]
  have un: "unwinds kc s1 rs s3" if "unwinds kc s1 rs s2" for rs
    using unwinds_eq [OF that] eq3 by blast
  show ?thesis
  proof (cases "js' = []")
    case True
    have n: "n = length js - 1" using True s(1) by (simp add: n_def)
    show ?thesis
    proof (rule sinceI [of s3 "js[n := upd (js ! n)]" "[]"])
      show "unwinds kc s1 (map revert []) s3" using un s(4) True by simp
      show "marked (js[n := upd (js ! n)] ! i) k = marked (Journals s1 ! i) k"
        if "i < length (js[n := upd (js ! n)])" "k < snapshotId s1" for i k
        using that s(7) [of i k] upd(2) n ne2(2) by (simp add: nth_list_update)
      show "\<not> marked (js[n := upd (js ! n)] ! i) k"
        if "Suc i < length (js[n := upd (js ! n)])" "snapshotId s1 \<le> k" for i k
        using that s(9) [of i k] n by (simp add: nth_list_update)
    qed (use True s j3 eq3 mr [of js] in auto)
  next
    case False
    define m where "m = length js' - 1"
    have n: "n = length js + m" using False s(1) by (cases js') (simp_all add: n_def m_def)
    show ?thesis
    proof (rule sinceI [of s3 js "js'[m := upd (js' ! m)]"])
      show "Journals s3 = js @ js'[m := upd (js' ! m)]"
        using j3(2) s(1) n by (simp add: list_update_append nth_append)
      show "unwinds kc s1 (map revert (js'[m := upd (js' ! m)])) s3" using un s(4) by (simp add: mr)
      show "\<not> marked j k" if j: "j \<in> set (js'[m := upd (js' ! m)])" "k < snapshotId s1" for j k
      proof -
        have "j \<in> insert (upd (js' ! m)) (set js')" using j(1) set_update_subset_insert by fastforce
        moreover have "js' ! m \<in> set js'" using False by (simp add: m_def)
        ultimately show ?thesis using s(8) upd(2) j(2) by auto
      qed
    qed (use s j3 eq3 in auto)
  qed
qed

text \<open>Where a revert stops in the journal, and what it leaves of it.\<close>

lemma RevertE:
  assumes "RevertToSnapshot ti s = Inr s'"
  obtains i pre where "i < length (Journals s)" "marked (Journals s ! i) ti"
    "pre = take i (Journals s) @ [(Journals s ! i)\<lparr>mark := mdel ti (mark (Journals s ! i))\<rparr>]"
    "run_reverts (drop (Suc i) (Journals s)) (s\<lparr>Journals := pre\<rparr>) = Inr s'"
    "Journals s' = pre" "snapshotId s' = snapshotId s"
proof -
  from assms obtain i where i: "find_mark ti (Journals s) (length (Journals s)) = Some i"
    by (auto simp: RevertToSnapshot_def split: option.splits)
  note lt = find_mark_Some [OF i]
  let ?pre = "take i (Journals s) @ [(Journals s ! i)\<lparr>mark := mdel ti (mark (Journals s ! i))\<rparr>]"
  have "take (Suc i) ((Journals s)[i := (Journals s ! i)\<lparr>mark := mdel ti (mark (Journals s ! i))\<rparr>]) = ?pre"
    using lt by (simp add: take_Suc_conv_app_nth)
  then have r: "run_reverts (drop (Suc i) (Journals s)) (s\<lparr>Journals := ?pre\<rparr>) = Inr s'"
    using assms i lt by (simp add: RevertToSnapshot_def Let_def drop_update_cancel)
  show thesis
    by (rule that [OF _ _ refl r]) (use lt run_reverts_journals [OF r] in auto)
qed

lemma since_Revert:
  assumes since: "since kc s1 s2" and rev: "RevertToSnapshot ti s2 = Inr s3"
    and ti: "snapshotId s1 \<le> ti" and ne: "Journals s1 \<noteq> []"
  shows "since kc s1 s3"
proof -
  from since obtain js js' where s: "Journals s2 = js @ js'" "length js = length (Journals s1)"
    "map revert js = map revert (Journals s1)" "unwinds kc s1 (map revert js') s2"
    "ms_inv kc s2" "snapshotId s1 \<le> snapshotId s2"
    "\<And>i k. i < length js \<Longrightarrow> k < snapshotId s1 \<Longrightarrow> marked (js ! i) k = marked (Journals s1 ! i) k"
    "\<And>j k. j \<in> set js' \<Longrightarrow> k < snapshotId s1 \<Longrightarrow> \<not> marked j k"
    "\<And>i k. Suc i < length js \<Longrightarrow> snapshotId s1 \<le> k \<Longrightarrow> \<not> marked (js ! i) k"
    by (rule sinceE) blast
  from rev obtain i pre where i: "i < length (Journals s2)" "marked (Journals s2 ! i) ti"
    "pre = take i (Journals s2) @ [(Journals s2 ! i)\<lparr>mark := mdel ti (mark (Journals s2 ! i))\<rparr>]"
    "run_reverts (drop (Suc i) (Journals s2)) (s2\<lparr>Journals := pre\<rparr>) = Inr s3"
    "Journals s3 = pre" "snapshotId s3 = snapshotId s2" by (rule RevertE)
  have ge: "length js \<le> Suc i"
  proof (rule ccontr)
    assume "\<not> length js \<le> Suc i"
    then have "Suc i < length js" by simp
    with s(9) [OF this ti] i(2) s(1) show False by (simp add: nth_append)
  qed
  define m where "m = Suc i - length js"
  have dr: "drop (Suc i) (Journals s2) = drop m js'" using s(1) ge by (simp add: m_def)
  have un: "unwinds kc s1 (map revert (take m js') @ map revert (drop m js')) s2"
    using s(4) by (metis append_take_drop_id map_append)
  have eq: "state_eq kc (s2\<lparr>Journals := pre\<rparr>) s2" by (simp add: state_eq_refl [OF s(5)])
  from run_reverts_unwinds [OF un eq] obtain u where
    u: "run_reverts (drop m js') (s2\<lparr>Journals := pre\<rparr>) = Inr u" "unwinds kc s1 (map revert (take m js')) u"
    by blast
  then have u3: "unwinds kc s1 (map revert (take m js')) s3" using i(4) dr by simp
  let ?upd = "\<lambda>j :: journal. j\<lparr>mark := mdel ti (mark j)\<rparr>"
  define q where "q = take i (Journals s2) @ [?upd (Journals s2 ! i)]"
  have jq: "Journals s3 = q" using i(3,5) by (simp add: q_def)
  have nq: "length q = Suc i" using i(1) by (simp add: q_def)
  have q_nth: "revert (q ! k) = revert (Journals s2 ! k) \<and>
      (\<forall>x. marked (q ! k) x \<longrightarrow> marked (Journals s2 ! k) x) \<and>
      (\<forall>x<ti. marked (q ! k) x = marked (Journals s2 ! k) x)" if "k < Suc i" for k
    using that i(1) by (cases "k = i") (auto simp: q_def nth_append)
  show ?thesis
  proof (rule sinceI [of s3 "take (length js) q" "drop (length js) q"])
    show "length (take (length js) q) = length (Journals s1)" using nq ge s(2) by simp
    have "map revert (take (length js) q) = map revert js"
    proof (rule nth_equalityI)
      show "length (map revert (take (length js) q)) = length (map revert js)" using nq ge by simp
      fix k assume "k < length (map revert (take (length js) q))"
      then have k: "k < length js" "k < Suc i" using ge by auto
      then have "revert (q ! k) = revert (js ! k)" using q_nth [OF k(2)] s(1) by (simp add: nth_append)
      then show "map revert (take (length js) q) ! k = map revert js ! k" using k nq by simp
    qed
    then show "map revert (take (length js) q) = map revert (Journals s1)" using s(3) by simp
    have "map revert (drop (length js) q) = map revert (take m js')"
    proof (rule nth_equalityI)
      show "length (map revert (drop (length js) q)) = length (map revert (take m js'))"
        using nq ge i(1) s(1) by (auto simp: m_def)
      fix k assume "k < length (map revert (drop (length js) q))"
      then have "k < m" "length js + k < Suc i" using nq by (auto simp: m_def)
      then show "map revert (drop (length js) q) ! k = map revert (take m js') ! k"
        using q_nth [of "length js + k"] s(1) nq i(1) by (simp add: nth_append)
    qed
    then show "unwinds kc s1 (map revert (drop (length js) q)) s3" using u3 by simp
    show "marked (take (length js) q ! k) x = marked (Journals s1 ! k) x"
      if "k < length (take (length js) q)" "x < snapshotId s1" for k x
      using that q_nth [of k] s(1) s(7) [of k x] nq ge ti by (auto simp: nth_append)
    show "\<not> marked j x" if "j \<in> set (drop (length js) q)" "x < snapshotId s1" for j x
    proof -
      from that(1) obtain k where "j = q ! (length js + k)" "length js + k < Suc i" "k < length js'"
        using nq i(1) s(1) by (auto simp: in_set_conv_nth)
      then show ?thesis
        using q_nth [of "length js + k"] s(1) s(8) [of "js' ! k" x] that(2) by (auto simp: nth_append)
    qed
    show "\<not> marked (take (length js) q ! k) x"
      if "Suc k < length (take (length js) q)" "snapshotId s1 \<le> x" for k x
      using that q_nth [of k] s(1) s(9) [of k x] nq ge by (auto simp: nth_append)
  qed (use jq i(6) s(6) unwinds_inv [OF u3] in simp_all)
qed

lemma since_op:
  assumes since: "since kc s1 s2" and ok: "op_ok kc (snapshotId s1) op s2"
    and ex: "exec_op kc op s2 = Inr s3" and ne: "Journals s1 \<noteq> []"
  shows "since kc s1 s3"
proof -
  have inv: "ms_inv kc s2" using since by (auto elim: sinceE)
  consider "op = OSnapshot" | ti where "op = ORevert ti" | "\<not> is_snap op"
    by (cases op) simp_all
  then show ?thesis
  proof cases
    case 1
    then show ?thesis using ex since_Snapshot [OF since _ ne] by (metis exec_op.simps(19) prod.collapse sum.inject(2))
  next
    case 2
    then show ?thesis using ex ok since_Revert [OF since _ _ ne] by simp
  next
    case 3
    from since_appends [OF since exec_op_appends [OF inv ok ex 3]] show ?thesis .
  qed
qed

lemma since_ops:
  "since kc s1 s2 \<Longrightarrow> ops_ok kc (snapshotId s1) ops s2 \<Longrightarrow> exec_ops kc ops s2 = Inr s3 \<Longrightarrow>
   Journals s1 \<noteq> [] \<Longrightarrow> since kc s1 s3"
  unfolding exec_ops_def
proof (induction ops arbitrary: s2)
  case Nil
  then show ?case by simp
next
  case (Cons op ops)
  from Cons.prems(3) obtain u where u: "exec_op kc op s2 = Inr u" "rfold (exec_op kc) ops u = Inr s3"
    unfolding rfold.simps by (rule rbind_InrE)
  have ok: "op_ok kc (snapshotId s1) op s2" "ops_ok kc (snapshotId s1) ops u"
    using Cons.prems(2) u(1) by simp_all
  have "since kc s1 u" by (rule since_op [OF Cons.prems(1) ok(1) u(1) Cons.prems(4)])
  from Cons.IH [OF this ok(2) u(2) Cons.prems(4)] show ?case .
qed

lemma Snapshot_fresh:
  assumes fresh: "marks_fresh s" and snap: "Snapshot s = (ti, s1)"
  shows "marks_fresh s1" and "Journals s1 \<noteq> []" and "marked (last (Journals s1)) ti"
    and "snapshotId s1 = ti + 1"
proof -
  from snap obtain js where js: "ti = snapshotId s" "snapshotId s1 = snapshotId s + 1"
    "js = (if Journals s = [] then [\<lparr>mark = [], revert = JNop\<rparr>] else Journals s)"
    "Journals s1 = js[length js - 1 := (js ! (length js - 1))
        \<lparr>mark := mput (snapshotId s) True (mark (js ! (length js - 1)))\<rparr>]" by (rule SnapshotE)
  have ne: "js \<noteq> []" using js(3) by (simp split: if_splits)
  have old: "marked j k \<Longrightarrow> k < snapshotId s" if "j \<in> set js" for j k
    using that fresh js(3) by (auto simp: marks_fresh_def split: if_splits)
  have "j \<in> insert ((js ! (length js - 1))\<lparr>mark := mput (snapshotId s) True (mark (js ! (length js - 1)))\<rparr>) (set js)"
    if "j \<in> set (Journals s1)" for j
    using that unfolding js(4) using set_update_subset_insert by fast
  moreover have "js ! (length js - 1) \<in> set js" using ne by simp
  ultimately show "marks_fresh s1"
    unfolding marks_fresh_def js(2) using old by (fastforce split: if_splits)
  show "Journals s1 \<noteq> []" "marked (last (Journals s1)) ti" "snapshotId s1 = ti + 1"
    using js ne by (simp_all add: last_conv_nth)
qed

subsection \<open>New states and a small example\<close>

lemma ms_inv_new:
  assumes "parent_ok kc pv"
  shows "ms_inv kc (newMutableWorldState cfg pv h lg)"
  using tc_ok_new [OF assms, of h]
  by (auto simp: ms_inv_def newMutableWorldState_def acct_at_alt tc_ok_def newTempCommittedState_def)

lemma new_fields [simp]:
  "Journals (newMutableWorldState cfg pv h lg) = []"
  "NewContracts (newMutableWorldState cfg pv h lg) = []"
  by (simp_all add: newMutableWorldState_def)

definition demo_hash :: "bytes \<Rightarrow> hash" where
  "demo_hash bs = (if bs = [] then 7 else of_nat (length bs) + 100)"

definition demo_parent :: parent_view where
  "demo_parent = \<lparr> pvAccount = (\<lambda>ad. \<lparr> Nonce = 0, Balance = 0, CodeHash = 7, DirtyStorage = False, Version = 0 \<rparr>),
     pvCode = (\<lambda>h. []), pvStorage = (\<lambda>ad v k. 0) \<rparr>"

definition demo_state :: mutable_state where
  "demo_state = newMutableWorldState (\<lambda>h. True) demo_parent 1 None"

definition demo_ops :: "evm_op list" where
  "demo_ops = [OAddBalance 1 5, OSetState 1 2 3, OSnapshot, OSetCode 1 [1, 2], OSetTransient 1 2 9,
     ORevert 1, OAddSlot 4 5, OAddRefund 6, OSelfDestruct 1]"

lemma demo_parent_ok: "parent_ok demo_hash demo_parent"
  by (simp add: parent_ok_def av_wf_def demo_parent_def EmptyCodeHash_def demo_hash_def)

lemma demo_inv: "ms_inv demo_hash demo_state"
  by (simp add: demo_state_def ms_inv_new demo_parent_ok)

lemma demo_fresh: "marks_fresh demo_state"
  by (simp add: demo_state_def marks_fresh_def)

lemma demo_snapshot: "Snapshot demo_state = (0, snd (Snapshot demo_state))"
  by (simp add: Snapshot_def demo_state_def newMutableWorldState_def Let_def)

lemma demo_ok: "ops_ok demo_hash 1 demo_ops (snd (Snapshot demo_state))"
  by code_simp

lemma demo_runs: "\<not> isl (exec_ops demo_hash demo_ops (snd (Snapshot demo_state)))"
  by code_simp

lemma not_isl_Inr: "\<not> isl r \<Longrightarrow> r = Inr (projr r)"
  by (cases r) simp_all

subsection \<open>Reverting to a snapshot\<close>

lemma revert_since:
  assumes since: "since kc s1 s2" and ne: "Journals s1 \<noteq> []"
    and ti: "marked (last (Journals s1)) ti" "ti < snapshotId s1"
  shows "\<exists>s3. RevertToSnapshot ti s2 = Inr s3 \<and> state_eq kc s3 s1 \<and> ms_inv kc s3"
proof -
  from since obtain js js' where s: "Journals s2 = js @ js'" "length js = length (Journals s1)"
    "map revert js = map revert (Journals s1)" "unwinds kc s1 (map revert js') s2" "ms_inv kc s2"
    "\<And>i k. i < length js \<Longrightarrow> k < snapshotId s1 \<Longrightarrow> marked (js ! i) k = marked (Journals s1 ! i) k"
    "\<And>j k. j \<in> set js' \<Longrightarrow> k < snapshotId s1 \<Longrightarrow> \<not> marked j k" by (rule sinceE) blast
  define i where "i = length (Journals s1) - 1"
  have i: "i < length js" "Suc i = length js" using ne s(2) by (simp_all add: i_def)
  have "marked (js ! i) ti" using s(6) [OF i(1) ti(2)] ti(1) ne by (simp add: i_def last_conv_nth)
  moreover have "\<not> marked (Journals s2 ! k) ti" if "i < k" "k < length (Journals s2)" for k
    using that i s(1) s(7) [OF _ ti(2)] by (simp add: nth_append)
  ultimately have f: "find_mark ti (Journals s2) (length (Journals s2)) = Some i"
    using i s(1) by (intro find_mark_last) (simp_all add: nth_append)
  define pre where "pre = take (Suc i) ((Journals s2)[i := (Journals s2 ! i)\<lparr>mark := mdel ti (mark (Journals s2 ! i))\<rparr>])"
  have "RevertToSnapshot ti s2 = run_reverts (drop (Suc i) (Journals s2)) (s2\<lparr>Journals := pre\<rparr>)"
    using f by (simp add: RevertToSnapshot_def Let_def drop_update_cancel pre_def)
  also have "drop (Suc i) (Journals s2) = js'" using i s(1) by simp
  finally have r: "RevertToSnapshot ti s2 = run_reverts js' (s2\<lparr>Journals := pre\<rparr>)" .
  have un: "unwinds kc s1 (map revert [] @ map revert js') s2" using s(4) by simp
  have eq: "state_eq kc (s2\<lparr>Journals := pre\<rparr>) s2" by (simp add: state_eq_refl [OF s(5)])
  from run_reverts_unwinds [OF un eq] obtain u
    where u: "run_reverts js' (s2\<lparr>Journals := pre\<rparr>) = Inr u" "unwinds kc s1 [] u" by auto
  from u(2) have "state_eq kc u s1" by (cases rule: unwinds_NilE)
  with u r unwinds_inv [OF u(2)] show ?thesis by simp
qed

text \<open>(C1)
  Reverting to a snapshot restores the state. Take a snapshot, run any sequence of EVM calls
  (writes, reads, nested snapshots, reverts to snapshots taken later) that does not panic, and
  revert to the snapshot: the revert succeeds, and accounts, storage, code, refund, logs,
  transient storage, access lists and new contracts are all as they were at the snapshot.
\<close>

theorem revert_to_snapshot:
  assumes "ms_inv kc s" and "marks_fresh s" and "Snapshot s = (ti, s1)"
    and "ops_ok kc (ti + 1) ops s1" and "exec_ops kc ops s1 = Inr s2"
  shows "\<exists>s3. RevertToSnapshot ti s2 = Inr s3 \<and> state_eq kc s3 s \<and> ms_inv kc s3"
proof -
  note eq = Snapshot_eq [OF assms(1,3)]
  note f = Snapshot_fresh [OF assms(2,3)]
  have "since kc s1 s1" by (rule since_refl [OF conjunct2 [OF eq] f(1)])
  from since_ops [OF this _ assms(5) f(2)] assms(4) have "since kc s1 s2" by (simp only: f(4))
  from revert_since [OF this f(2,3)] obtain s3
    where s3: "RevertToSnapshot ti s2 = Inr s3" "state_eq kc s3 s1" "ms_inv kc s3"
    unfolding f(4) by auto
  have "state_eq kc s3 s" by (rule state_eq_trans [OF s3(2) conjunct1 [OF eq]])
  with s3 show ?thesis by blast
qed

theorem revert_to_snapshot_witness:
  "\<exists>s2 s3. exec_ops demo_hash demo_ops (snd (Snapshot demo_state)) = Inr s2 \<and>
     RevertToSnapshot 0 s2 = Inr s3 \<and> state_eq demo_hash s3 demo_state"
  using revert_to_snapshot [OF demo_inv demo_fresh demo_snapshot _ not_isl_Inr [OF demo_runs]]
    demo_ok not_isl_Inr [OF demo_runs] by fastforce

subsection \<open>The invariant along a run\<close>

definition run_inv :: "(bytes \<Rightarrow> hash) \<Rightarrow> mutable_state \<Rightarrow> mutable_state \<Rightarrow> bool" where
  "run_inv kc s0 s = (unwinds kc s0 (map revert (Journals s)) s \<and> marks_fresh s)"

lemma run_inv_appends:
  assumes run: "run_inv kc s0 s" and app: "appends kc s s'"
  shows "run_inv kc s0 s'"
proof -
  from app obtain js where js: "Journals s' = Journals s @ js" "\<forall>j\<in>set js. mark j = []"
    "unwinds kc s (map revert js) s'" "snapshotId s' = snapshotId s" by (rule appendsE)
  have "unwinds kc s0 (map revert (Journals s')) s'"
    using unwinds_trans [OF js(3)] run js(1) by (simp add: run_inv_def)
  moreover have "marks_fresh s'" using run js unfolding run_inv_def marks_fresh_def by auto
  ultimately show ?thesis by (simp add: run_inv_def)
qed

lemma run_inv_Snapshot:
  assumes run: "run_inv kc s0 s" and ne: "state_eq kc s0 s0" and snap: "Snapshot s = (ti, s')"
  shows "run_inv kc s0 s'"
proof -
  have un: "unwinds kc s0 (map revert (Journals s)) s" and fr: "marks_fresh s"
    using run by (simp_all add: run_inv_def)
  have inv: "ms_inv kc s" by (rule unwinds_inv [OF un])
  note eq = Snapshot_eq [OF inv snap]
  have un': "unwinds kc s0 (map revert (Journals s)) s'" using unwinds_eq [OF un] eq by blast
  from snap obtain js where js:
    "js = (if Journals s = [] then [\<lparr>mark = [], revert = JNop\<rparr>] else Journals s)"
    "Journals s' = js[length js - 1 := (js ! (length js - 1))
        \<lparr>mark := mput (snapshotId s) True (mark (js ! (length js - 1)))\<rparr>]"
    by (rule SnapshotE)
  have "map revert (Journals s') = map revert js"
    unfolding js(2) by (rule map_revert_mark)
  moreover have "unwinds kc s0 (map revert js) s'"
  proof (cases "Journals s = []")
    case False
    then show ?thesis using un' js(1) by simp
  next
    case True
    then have "unwinds kc s0 [] s'" using un' by simp
    have "\<forall>t. state_eq kc t s' \<longrightarrow> (\<exists>t'. run_revert JNop t = Inr t' \<and> state_eq kc t' s')"
      by auto
    from unwinds.more [OF \<open>unwinds kc s0 [] s'\<close> conjunct2 [OF eq] this]
    have "unwinds kc s0 ([] @ [JNop]) s'" .
    then show ?thesis using True js(1) by simp
  qed
  ultimately show ?thesis using Snapshot_fresh(1) [OF fr snap] by (simp add: run_inv_def)
qed

lemma run_inv_Revert:
  assumes run: "run_inv kc s0 s" and rev: "RevertToSnapshot ti s = Inr s'"
  shows "run_inv kc s0 s'"
proof -
  have un: "unwinds kc s0 (map revert (Journals s)) s" and fr: "marks_fresh s"
    using run by (simp_all add: run_inv_def)
  from rev obtain i pre where i: "i < length (Journals s)"
    "pre = take i (Journals s) @ [(Journals s ! i)\<lparr>mark := mdel ti (mark (Journals s ! i))\<rparr>]"
    "run_reverts (drop (Suc i) (Journals s)) (s\<lparr>Journals := pre\<rparr>) = Inr s'"
    "Journals s' = pre" "snapshotId s' = snapshotId s" by (rule RevertE)
  have "unwinds kc s0 (map revert (take (Suc i) (Journals s)) @ map revert (drop (Suc i) (Journals s))) s"
    using un by (metis append_take_drop_id map_append)
  moreover have "state_eq kc (s\<lparr>Journals := pre\<rparr>) s"
    by (simp add: state_eq_refl [OF unwinds_inv [OF un]])
  ultimately obtain u where u: "run_reverts (drop (Suc i) (Journals s)) (s\<lparr>Journals := pre\<rparr>) = Inr u"
    "unwinds kc s0 (map revert (take (Suc i) (Journals s))) u" by (rule run_reverts_unwinds)
  have "map revert pre = map revert (take (Suc i) (Journals s))"
    using i(1) by (simp add: i(2) take_Suc_conv_app_nth)
  moreover have "marks_fresh s'"
    using fr i(1) unfolding marks_fresh_def i(4) i(2) i(5) by (auto dest: in_set_takeD)
  ultimately show ?thesis using u i(3,4) by (simp add: run_inv_def)
qed

lemma run_inv_ops:
  assumes "ms_inv kc s0" "run_inv kc s0 s" "ops_ok kc low ops s" "exec_ops kc ops s = Inr s'"
  shows "run_inv kc s0 s'"
  using assms(2-4) unfolding exec_ops_def
proof (induction ops arbitrary: s)
  case Nil
  then show ?case by simp
next
  case (Cons op ops)
  from Cons.prems(3) obtain u where u: "exec_op kc op s = Inr u" "rfold (exec_op kc) ops u = Inr s'"
    unfolding rfold.simps by (rule rbind_InrE)
  have ok: "op_ok kc low op s" "ops_ok kc low ops u" using Cons.prems(2) u(1) by simp_all
  have inv: "ms_inv kc s" using Cons.prems(1) unwinds_inv unfolding run_inv_def by blast
  consider "op = OSnapshot" | ti where "op = ORevert ti" | "\<not> is_snap op"
    by (cases op) simp_all
  then have "run_inv kc s0 u"
  proof cases
    case 1
    with u(1) have "Snapshot s = (fst (Snapshot s), u)" by auto
    then show ?thesis by (rule run_inv_Snapshot [OF Cons.prems(1) state_eq_refl [OF assms(1)]])
  next
    case 2
    with u(1) show ?thesis by (simp add: run_inv_Revert [OF Cons.prems(1)])
  next
    case 3
    show ?thesis by (rule run_inv_appends [OF Cons.prems(1) exec_op_appends [OF inv ok(1) u(1) 3]])
  qed
  from Cons.IH [OF this ok(2) u(2)] show ?case .
qed

lemma run_inv_new:
  "parent_ok kc pv \<Longrightarrow> run_inv kc (newMutableWorldState cfg pv h lg) (newMutableWorldState cfg pv h lg)"
  by (simp add: run_inv_def marks_fresh_def unwinds_refl ms_inv_new)


lemma demo_run0:
  "ops_ok demo_hash 0 (OSnapshot # demo_ops) demo_state"
  "\<not> isl (exec_ops demo_hash (OSnapshot # demo_ops) demo_state)"
  by code_simp+


subsection \<open>What the EVM can see\<close>

lemma reads_eq:
  assumes eq: "state_eq kc s t" and inv: "ms_inv kc t"
  shows "Exist kc ad s = Exist kc ad t" "Empty kc ad s = Empty kc ad t"
    "GetBalance ad s = GetBalance ad t" "GetNonce ad s = GetNonce ad t"
    "GetCodeHash ad s = GetCodeHash ad t" "fst (GetCode kc ad s) = fst (GetCode kc ad t)"
    "fst (GetCodeSize kc ad s) = fst (GetCodeSize kc ad t)"
    "GetStorageRoot er ad s = GetStorageRoot er ad t"
    "fst (GetState ad key s) = fst (GetState ad key t)"
    "GetCommittedState ad key s = GetCommittedState ad key t"
    "HasSelfDestructed ad s = HasSelfDestructed ad t" "GetRefund s = GetRefund t"
    "TxIndex s = TxIndex t" "GetTransientState ad key s = GetTransientState ad key t"
    "AddressInAccessList ad s = AddressInAccessList ad t"
    "SlotInAccessList ad key s = SlotInAccessList ad key t"
proof -
  have a: "acct_eq kc (acct_at s ad) (acct_at t ad)" using eq by (simp add: state_eq_def)
  have ai: "acct_inv (acct_at s ad)"
    using ms_inv_cong [OF eq inv] by (simp add: ms_inv_def)
  have f: "frame_eq s t" using eq by (simp add: state_eq_def)
  note ld = load_read [of ad s] load_read [of ad t]
  show "Exist kc ad s = Exist kc ad t"
    using acct_eq_exists [OF a] f by (simp add: Exist_def ld frame_eq_def)
  show "Empty kc ad s = Empty kc ad t" using acct_eq_empty [OF a] by (simp add: Empty_def ld)
  show "GetBalance ad s = GetBalance ad t" "GetNonce ad s = GetNonce ad t"
    "GetCodeHash ad s = GetCodeHash ad t" "GetStorageRoot er ad s = GetStorageRoot er ad t"
    "HasSelfDestructed ad s = HasSelfDestructed ad t"
    using a by (simp_all add: GetBalance_def GetNonce_def GetCodeHash_def GetStorageRoot_def
        HasSelfDestructed_def acctHasSelfDestructed_def interpretVersion_def ld acct_eq_def)
  have "code_of kc (acct_at s ad) = code_of kc (acct_at t ad)" using a by (simp add: acct_eq_def)
  then show c: "fst (GetCode kc ad s) = fst (GetCode kc ad t)"
    by (simp add: GetCode_def ld case_prod_beta)
  then show "fst (GetCodeSize kc ad s) = fst (GetCodeSize kc ad t)"
    by (simp add: GetCodeSize_def case_prod_beta)
  show "fst (GetState ad key s) = fst (GetState ad key t)"
    using acct_eq_getState [OF a ai] by (simp add: GetState_def ld case_prod_beta)
  show "GetCommittedState ad key s = GetCommittedState ad key t" "GetRefund s = GetRefund t"
    "TxIndex s = TxIndex t" "AddressInAccessList ad s = AddressInAccessList ad t"
    using f by (simp_all add: GetCommittedState_def GetRefund_def TxIndex_def
        AddressInAccessList_def frame_eq_def)
  show "GetTransientState ad key s = GetTransientState ad key t"
    using f by (auto simp: GetTransientState_def frame_eq_def transient_eq_def mget_or_def split: option.split)
  have len: "length (AccessStorage s) = length (AccessStorage t)"
    and nth: "i < length (AccessStorage t) \<Longrightarrow> map_of (AccessStorage s ! i) = map_of (AccessStorage t ! i)" for i
    using f slots_eq_length [of "AccessStorage s" "AccessStorage t"]
    unfolding frame_eq_def slots_eq_def by (auto dest: arg_cong [where f = "\<lambda>xs. xs ! i"])
  show "SlotInAccessList ad key s = SlotInAccessList ad key t"
    using f len nth by (auto simp: SlotInAccessList_def frame_eq_def split: option.split)
qed


text \<open>A state that cached a slot answers like the one that did not.\<close>

lemma demo_cached: "state_eq demo_hash (snd (GetState 1 2 demo_state)) demo_state"
proof -
  have "GetState 1 2 demo_state = (0, demo_state)" by code_simp
  then show ?thesis using state_eq_refl [OF demo_inv] by simp
qed


subsection \<open>Destruction in the transaction of creation\<close>

text \<open>\<open>SelfDestruct6780\<close> destructs exactly the contracts created in the same transaction: it
  returns the balance before the call, the contract then counts as destructed with balance 0,
  and no other account changes. The call adds nothing to the journal of a loaded account, so
  no snapshot can take it back.
\<close>

theorem selfdestruct6780_effect:
  assumes "map_of (DirtyAccounts s) ad = Some a" and "SelfDestruct6780 ad s = Inr (bal, destructed, s')"
    and "interpretVersion a = updating"
  shows "bal = balance a \<and> destructed = mhas (NewContracts s) ad \<and> Journals s' = Journals s \<and>
    HasSelfDestructed ad s' = destructed \<and> (destructed \<longrightarrow> GetBalance ad s' = 0) \<and>
    (\<forall>ad'. ad' \<noteq> ad \<longrightarrow> acct_at s' ad' = acct_at s ad')"
proof -
  have ld: "loadAccount ad True s = (a, s)" using assms(1) by (simp add: loadAccount_def)
  show ?thesis
  proof (cases "mhas (NewContracts s) ad")
    case False
    then show ?thesis using assms ld
      by (auto simp: SelfDestruct6780_def HasSelfDestructed_def acctHasSelfDestructed_def load_read acct_at_dirty)
  next
    case True
    then have s': "s' = storeAccount ad (a\<lparr>balance := 0, version := version a + 1\<rparr>) s"
      and r: "bal = balance a" "destructed"
      using assms ld by (auto simp: SelfDestruct6780_def acctSelfDestruct_def)
    have iv: "interpretVersion (a\<lparr>balance := 0, version := version a + 1\<rparr>) = beingDeleted"
      using interpretVersion_Suc(2) [of "a\<lparr>balance := 0\<rparr>"] assms(3) by simp
    show ?thesis using True r iv
      by (auto simp: s' HasSelfDestructed_def acctHasSelfDestructed_def GetBalance_def load_read
          acct_at_store [OF assms(1)])
  qed
qed

text \<open>The run the statement is about, on the example state.\<close>

definition demo_created :: "evm_op list" where
  "demo_created = [OCreateAccount 1, OCreateContract 1, OAddBalance 1 5, OSnapshot]"

lemma demo_6780:
  "GetBalance 1 (projr (exec_ops demo_hash demo_created demo_state)) = 5"
  "GetBalance 1 (projr (exec_ops demo_hash (demo_created @ [OSelfDestruct6780 1, ORevert 0]) demo_state)) = 0"
  by code_simp+

theorem selfdestruct6780_effect_witness:
  "HasSelfDestructed 1 (projr (exec_ops demo_hash (demo_created @ [OSelfDestruct6780 1]) demo_state))"
proof -
  let ?s = "projr (exec_ops demo_hash demo_created demo_state)"
  let ?a = "the (map_of (DirtyAccounts ?s) 1)"
  let ?r = "projr (SelfDestruct6780 1 ?s)"
  have c: "mhas (DirtyAccounts ?s) 1" "\<not> isl (SelfDestruct6780 1 ?s)"
    "interpretVersion ?a = updating" "mhas (NewContracts ?s) 1"
    "\<not> isl (exec_ops demo_hash demo_created demo_state)"
    by code_simp+
  have r: "SelfDestruct6780 1 ?s = Inr (fst ?r, fst (snd ?r), snd (snd ?r))"
    using not_isl_Inr [OF c(2)] by simp
  have "map_of (DirtyAccounts ?s) 1 = Some ?a" using c(1) by auto
  from selfdestruct6780_effect [OF this r c(3)] c(4) have "HasSelfDestructed 1 (snd (snd ?r))" by simp
  moreover have "exec_ops demo_hash (demo_created @ [OSelfDestruct6780 1]) demo_state = Inr (snd (snd ?r))"
  proof -
    have e: "exec_op demo_hash (OSelfDestruct6780 1) ?s = Inr (snd (snd ?r))"
      by (subst exec_op.simps, subst r) (simp only: map_sum.simps comp_apply snd_conv)
    have "exec_ops demo_hash (demo_created @ [OSelfDestruct6780 1]) demo_state =
        rbind (exec_ops demo_hash demo_created demo_state) (rfold (exec_op demo_hash) [OSelfDestruct6780 1])"
      unfolding exec_ops_def by (rule rfold_append)
    also have "\<dots> = rfold (exec_op demo_hash) [OSelfDestruct6780 1] ?s"
      by (subst not_isl_Inr [OF c(5)]) (rule rbind_simps(2))
    also have "\<dots> = Inr (snd (snd ?r))" by (simp only: rfold.simps e rbind_simps)
    finally show ?thesis .
  qed
  ultimately show ?thesis by (simp only: sum.sel)
qed

end
