(* ===== verification/StateStore.thy ===== *)
theory StateStore
  imports TempCommitted
begin

section \<open>The state store\<close>

text \<open>
  The model of \<open>statestore/\<close>: \<open>statestore_impl.go\<close> (reads), \<open>txn.go\<close> (transactions) and the
  garbage collection round of \<open>routine.go\<close>; and of \<open>types/types.go\<close> (the layer log).
  A datastore key is a \<open>dskey\<close>, one constructor per key function of \<open>utils.go\<close>, and a stored
  value is a \<open>dsval\<close>, one constructor per codec; the theories \<open>Keys\<close> and \<open>CodecLaws\<close> show that
  the strings and bytes they stand for lose nothing. Badger itself is not under \<open>src/\<close>: it is
  the record \<open>ds_api\<close> of the calls the code makes, and \<open>ds_law\<close> is what the code relies on.
\<close>

record layer_log =
  BlockNumber :: u64
  RootHash :: hash
  UpdatedAccounts :: "(address, account_value) gmap"
  UpdatedCodeCount :: "(hash, int) gmap"
  lCodePreimage :: "(hash, bytes) gmap"
  UpdatedStorage :: "(storage_key, (hash, hash) gmap) gmap"

datatype dskey =
    KPersisted
  | KChildren u64 hash
  | KLayerLog u64 hash
  | KAccount address
  | KVersion address
  | KStorage address u64 hash
  | KCode hash
  | KGC address u64

datatype dsval =
    VHeight u64 hash
  | VChildren "hash list"
  | VLayerLog layer_log
  | VAccount account_value
  | VVersion u64
  | VHash hash
  | VCode bytes int
  | VEmpty

datatype store_err =
    ErrNotFound
  | ErrDatastore
  | ErrDecode
  | ErrNewCodeNegative hash
  | ErrNoPreimage hash
  | ErrCodeBelowZero hash
  | ErrEmptyGenesis
  | ErrAlready
  | ErrCommitted
  | ErrHeight
  | ErrNoChild
  | OutOfFuel
  | PanicStore panic
  | PanicNil
  | PanicBalance

subsection \<open>The datastore\<close>

datatype dsop = BPut dskey dsval | BDelete dskey

type_synonym batch = "dsop list"

text \<open>
  \<open>dsBatch\<close> is the error of \<open>Batch\<close>, if any, \<open>dsQueue\<close> that of a \<open>Put\<close> or \<open>Delete\<close> on a
  batch; \<open>dsGCKeys\<close> and \<open>dsSlots\<close> are the two key-only queries of the garbage collection.
\<close>

record 'db ds_api =
  dsGet :: "'db \<Rightarrow> dskey \<Rightarrow> store_err + dsval"
  dsBatch :: "'db \<Rightarrow> store_err option"
  dsQueue :: "'db \<Rightarrow> dskey \<Rightarrow> store_err option"
  dsCommit :: "'db \<Rightarrow> batch \<Rightarrow> store_err + 'db"
  dsGCKeys :: "'db \<Rightarrow> store_err + (address \<times> u64) list"
  dsSlots :: "'db \<Rightarrow> address \<Rightarrow> u64 \<Rightarrow> store_err + hash list"

type_synonym dsview = "dskey \<Rightarrow> dsval option"

fun apply_op :: "dsop \<Rightarrow> dsview \<Rightarrow> dsview" where
  "apply_op (BPut k v) f = f(k := Some v)"
| "apply_op (BDelete k) f = f(k := None)"

text \<open>
  What is documented of the datastore: a read gives what is stored or says that nothing is, a
  batch that commits takes effect, a query lists the keys that are there.
\<close>

definition ds_law :: "'db ds_api \<Rightarrow> ('db \<Rightarrow> dsview) \<Rightarrow> bool" where
  "ds_law api view =
     ((\<forall>db k v. dsGet api db k = Inr v \<longrightarrow> view db k = Some v) \<and>
      (\<forall>db k. dsGet api db k = Inl ErrNotFound \<longrightarrow> view db k = None) \<and>
      (\<forall>db b db'. dsCommit api db b = Inr db' \<longrightarrow> view db' = fold apply_op b (view db)) \<and>
      (\<forall>db xs. dsGCKeys api db = Inr xs \<longrightarrow> set xs = {(a, v). view db (KGC a v) \<noteq> None}) \<and>
      (\<forall>db a v xs. dsSlots api db a v = Inr xs \<longrightarrow> set xs = {k. view db (KStorage a v k) \<noteq> None}))"

lemma ds_lawD:
  assumes "ds_law api view"
  shows "dsGet api db k = Inr v \<Longrightarrow> view db k = Some v"
    and "dsGet api db k = Inl ErrNotFound \<Longrightarrow> view db k = None"
    and "dsCommit api db b = Inr db' \<Longrightarrow> view db' = fold apply_op b (view db)"
    and "dsGCKeys api db = Inr xs \<Longrightarrow> set xs = {(a, v). view db (KGC a v) \<noteq> None}"
    and "dsSlots api db a v' = Inr ys \<Longrightarrow> set ys = {s. view db (KStorage a v' s) \<noteq> None}"
  using assms unfolding ds_law_def by blast+

subsection \<open>Reads\<close>

definition GetPersistedHeight :: "'db ds_api \<Rightarrow> 'db \<Rightarrow> store_err + (u64 \<times> hash)" where
  "GetPersistedHeight api db =
     rbind (dsGet api db KPersisted) (\<lambda>v. case v of VHeight h r \<Rightarrow> Inr (h, r) | _ \<Rightarrow> Inl ErrDecode)"

definition GetChildren :: "'db ds_api \<Rightarrow> 'db \<Rightarrow> u64 \<Rightarrow> hash \<Rightarrow> store_err + hash list" where
  "GetChildren api db height rootHash =
     rbind (dsGet api db (KChildren height rootHash))
       (\<lambda>v. case v of VChildren cs \<Rightarrow> Inr cs | _ \<Rightarrow> Inl ErrDecode)"

definition GetLayerLog :: "'db ds_api \<Rightarrow> 'db \<Rightarrow> u64 \<Rightarrow> hash \<Rightarrow> store_err + layer_log" where
  "GetLayerLog api db height rootHash =
     rbind (dsGet api db (KLayerLog height rootHash))
       (\<lambda>v. case v of VLayerLog l \<Rightarrow> Inr l | _ \<Rightarrow> Inl ErrDecode)"

text \<open>The value of an account the store has no value for: blank, with the stored version.\<close>

definition blank_account :: "(bytes \<Rightarrow> hash) \<Rightarrow> u64 \<Rightarrow> account_value" where
  "blank_account kc ver =
     \<lparr> Nonce = 0, Balance = 0, CodeHash = EmptyCodeHash kc, DirtyStorage = False, Version = ver \<rparr>"

definition ssGetAccountValue ::
  "(bytes \<Rightarrow> hash) \<Rightarrow> 'db ds_api \<Rightarrow> 'db \<Rightarrow> address \<Rightarrow> store_err + account_value"
where
  "ssGetAccountValue kc api db ad =
     (case dsGet api db (KAccount ad) of
        Inl ErrNotFound \<Rightarrow>
          (case dsGet api db (KVersion ad) of
             Inr (VVersion ver) \<Rightarrow> Inr (blank_account kc ver)
           | Inr _ \<Rightarrow> Inl ErrDecode
           | Inl ErrNotFound \<Rightarrow> Inr (blank_account kc 0)
           | Inl e \<Rightarrow> Inl e)
      | Inl e \<Rightarrow> Inl e
      | Inr (VAccount v) \<Rightarrow> Inr v
      | Inr _ \<Rightarrow> Inl ErrDecode)"

definition ssGetStorageByVersion ::
  "'db ds_api \<Rightarrow> 'db \<Rightarrow> address \<Rightarrow> u64 \<Rightarrow> hash \<Rightarrow> store_err + hash"
where
  "ssGetStorageByVersion api db ad ver key =
     (case dsGet api db (KStorage ad ver key) of
        Inl ErrNotFound \<Rightarrow> Inr 0
      | Inl e \<Rightarrow> Inl e
      | Inr (VHash v) \<Rightarrow> Inr v
      | Inr _ \<Rightarrow> Inl ErrDecode)"

definition ssGetCodeByHash :: "'db ds_api \<Rightarrow> 'db \<Rightarrow> hash \<Rightarrow> store_err + bytes" where
  "ssGetCodeByHash api db h =
     rbind (dsGet api db (KCode h)) (\<lambda>v. case v of VCode code n \<Rightarrow> Inr code | _ \<Rightarrow> Inl ErrDecode)"

subsection \<open>Transactions\<close>

text \<open>\<open>t.txn.Put\<close> and \<open>t.txn.Delete\<close>: queue an operation or fail.\<close>

definition queue :: "'db ds_api \<Rightarrow> 'db \<Rightarrow> dskey \<Rightarrow> dsop \<Rightarrow> batch \<Rightarrow> store_err + batch" where
  "queue api db k op b = (case dsQueue api db k of Some e \<Rightarrow> Inl e | None \<Rightarrow> Inr (b @ [op]))"

definition tput :: "'db ds_api \<Rightarrow> 'db \<Rightarrow> dskey \<Rightarrow> dsval \<Rightarrow> batch \<Rightarrow> store_err + batch" where
  "tput api db k v b = queue api db k (BPut k v) b"

definition tdel :: "'db ds_api \<Rightarrow> 'db \<Rightarrow> dskey \<Rightarrow> batch \<Rightarrow> store_err + batch" where
  "tdel api db k b = queue api db k (BDelete k) b"

text \<open>The version the datastore holds for an account, 0 if none: the check before the GC keys.\<close>

definition committedVersion :: "'db ds_api \<Rightarrow> 'db \<Rightarrow> address \<Rightarrow> store_err + u64" where
  "committedVersion api db ad =
     (case dsGet api db (KVersion ad) of
        Inr (VVersion v) \<Rightarrow> Inr v
      | Inr _ \<Rightarrow> Inl ErrDecode
      | Inl ErrNotFound \<Rightarrow>
          (case dsGet api db (KAccount ad) of
             Inr (VAccount a) \<Rightarrow> Inr (Version a)
           | Inr _ \<Rightarrow> Inl ErrDecode
           | Inl ErrNotFound \<Rightarrow> Inr 0
           | Inl e \<Rightarrow> Inl e)
      | Inl e \<Rightarrow> Inl e)"

text \<open>The loop \<open>for i := version; i < acctp.Version; i++\<close>, over the naturals the words denote.\<close>

definition versions_between :: "u64 \<Rightarrow> u64 \<Rightarrow> u64 list" where
  "versions_between lo hi = map of_nat [unat lo..<unat hi]"

definition persist_account ::
  "'db ds_api \<Rightarrow> 'db \<Rightarrow> address \<times> account_value \<Rightarrow> batch \<Rightarrow> store_err + batch"
where
  "persist_account api db = (\<lambda>(ad, acctp) b.
     if Version acctp = 0 then Inr b
     else rbind
       (if Version acctp mod 3 = 0 then
          rbind (tdel api db (KAccount ad) b) (tput api db (KVersion ad) (VVersion (Version acctp)))
        else if Version acctp mod 3 = 2 then Inl (PanicStore PersistBeingDeleted)
        else rbind (tput api db (KAccount ad) (VAccount acctp) b) (tdel api db (KVersion ad)))
       (\<lambda>b1. rbind (committedVersion api db ad)
          (\<lambda>ver. if ver > 0
             then rfold (\<lambda>i. tput api db (KGC ad i) VEmpty) (versions_between ver (Version acctp)) b1
             else Inr b1)))"

definition persist_code ::
  "'db ds_api \<Rightarrow> 'db \<Rightarrow> (hash, bytes) gmap \<Rightarrow> hash \<times> int \<Rightarrow> batch \<Rightarrow> store_err + batch"
where
  "persist_code api db preimage = (\<lambda>(h, diff) b.
     if diff = 0 then Inr b
     else (case dsGet api db (KCode h) of
         Inl ErrNotFound \<Rightarrow>
           (if diff < 0 then Inl (ErrNewCodeNegative h)
            else (case map_of preimage h of
                None \<Rightarrow> Inl (ErrNoPreimage h)
              | Some code \<Rightarrow> tput api db (KCode h) (VCode code diff) b))
       | Inl e \<Rightarrow> Inl e
       | Inr (VCode code existing) \<Rightarrow>
           (let new = existing + diff
            in if new < 0 then Inl (ErrCodeBelowZero h)
               else if new = 0 then tdel api db (KCode h) b
               else tput api db (KCode h) (VCode code new) b)
       | Inr _ \<Rightarrow> Inl ErrDecode))"

definition persist_storage ::
  "'db ds_api \<Rightarrow> 'db \<Rightarrow> storage_key \<times> (hash, hash) gmap \<Rightarrow> batch \<Rightarrow> store_err + batch"
where
  "persist_storage api db = (\<lambda>((ad, ver), storage).
     rfold (\<lambda>(k, v). tput api db (KStorage ad ver k) (VHash v)) storage)"

definition PersistLayerLog :: "'db ds_api \<Rightarrow> 'db \<Rightarrow> layer_log \<Rightarrow> batch \<Rightarrow> store_err + batch" where
  "PersistLayerLog api db l b =
     rbind (tput api db KPersisted (VHeight (BlockNumber l) (RootHash l)) b)
       (\<lambda>b1. rbind (rfold (persist_account api db) (UpdatedAccounts l) b1)
         (\<lambda>b2. rbind (rfold (persist_code api db (lCodePreimage l)) (UpdatedCodeCount l) b2)
           (rfold (persist_storage api db) (UpdatedStorage l))))"

definition PutChildren :: "'db ds_api \<Rightarrow> 'db \<Rightarrow> u64 \<Rightarrow> hash \<Rightarrow> hash list \<Rightarrow> batch \<Rightarrow> store_err + batch" where
  "PutChildren api db height root children = tput api db (KChildren height root) (VChildren children)"

definition DeleteChildren :: "'db ds_api \<Rightarrow> 'db \<Rightarrow> u64 \<Rightarrow> hash \<Rightarrow> batch \<Rightarrow> store_err + batch" where
  "DeleteChildren api db height root = tdel api db (KChildren height root)"

definition PutLayerLog :: "'db ds_api \<Rightarrow> 'db \<Rightarrow> layer_log \<Rightarrow> batch \<Rightarrow> store_err + batch" where
  "PutLayerLog api db l = tput api db (KLayerLog (BlockNumber l) (RootHash l)) (VLayerLog l)"

definition DeleteLayerLog :: "'db ds_api \<Rightarrow> 'db \<Rightarrow> u64 \<Rightarrow> hash \<Rightarrow> batch \<Rightarrow> store_err + batch" where
  "DeleteLayerLog api db height root = tdel api db (KLayerLog height root)"

definition NewTransaction :: "'db ds_api \<Rightarrow> 'db \<Rightarrow> store_err + batch" where
  "NewTransaction api db = (case dsBatch api db of Some e \<Rightarrow> Inl e | None \<Rightarrow> Inr [])"

definition txnCommit :: "'db ds_api \<Rightarrow> 'db \<Rightarrow> batch \<Rightarrow> store_err + 'db" where
  "txnCommit api db b = dsCommit api db b"

subsection \<open>Garbage collection\<close>

text \<open>
  One pass of \<open>gcRoutine\<close>: for every GC entry, delete the slots of that version of the account
  and the entry, in one batch; an entry whose batch fails is left for the next round. (The
  loop stops early when the context is cancelled: then a prefix of the entries is done.)
\<close>

definition gcClear :: "'db ds_api \<Rightarrow> address \<times> u64 \<Rightarrow> 'db \<Rightarrow> 'db" where
  "gcClear api = (\<lambda>(ad, ver) db.
     case rbind (NewTransaction api db)
       (\<lambda>b. rbind (dsSlots api db ad ver)
         (\<lambda>ks. rbind (rfold (\<lambda>k. tdel api db (KStorage ad ver k)) ks b)
           (\<lambda>b1. rbind (tdel api db (KGC ad ver) b1) (txnCommit api db)))) of
       Inr db' \<Rightarrow> db'
     | Inl e \<Rightarrow> db)"

definition gcRound :: "'db ds_api \<Rightarrow> 'db \<Rightarrow> 'db" where
  "gcRound api db = (case dsGCKeys api db of Inl e \<Rightarrow> db | Inr keys \<Rightarrow> fold (gcClear api) keys db)"

subsection \<open>Genesis\<close>

record genesis_account =
  gaNonce :: u64
  gaBalance :: int
  gaCode :: bytes
  gaStorage :: "(hash, hash) gmap"

text \<open>
  \<open>uint256.MustFromBig\<close> panics on a number of more than 256 bits. The assignments in the loop
  over \<open>account.Storage\<close> build a copy of that map.
\<close>

definition genesis_value :: "(bytes \<Rightarrow> hash) \<Rightarrow> genesis_account \<Rightarrow> store_err + account_value" where
  "genesis_value kc a =
     (if abs (gaBalance a) \<ge> 2 ^ 256 then Inl PanicBalance
      else Inr \<lparr> Nonce = gaNonce a, Balance = of_int (gaBalance a), CodeHash = kc (gaCode a),
                 DirtyStorage = False, Version = 1 \<rparr>)"

definition genesis_account_log ::
  "(bytes \<Rightarrow> hash) \<Rightarrow> address \<times> genesis_account \<Rightarrow> layer_log \<Rightarrow> store_err + layer_log"
where
  "genesis_account_log kc = (\<lambda>(ad, account) l.
     rbind (genesis_value kc account) (\<lambda>acctp.
       let l1 = (if length (gaCode account) > 0 then
                   l\<lparr>UpdatedCodeCount := mput (CodeHash acctp) (mget_or 0 (UpdatedCodeCount l) (CodeHash acctp) + 1)
                                           (UpdatedCodeCount l),
                      lCodePreimage := mput (CodeHash acctp) (gaCode account) (lCodePreimage l)\<rparr>
                 else l);
           st = fold (\<lambda>(k, v). mput k v) (gaStorage account) [];
           l2 = (if length (gaStorage account) > 0 then
                   l1\<lparr>UpdatedStorage := mput (ad, 1) st (UpdatedStorage l1)\<rparr>
                 else l1);
           acctp' = (if length (gaStorage account) > 0 then acctp\<lparr>DirtyStorage := True\<rparr> else acctp)
       in Inr (l2\<lparr>UpdatedAccounts := mput ad acctp' (UpdatedAccounts l2)\<rparr>)))"

definition LayerLogFromGenesis ::
  "(bytes \<Rightarrow> hash) \<Rightarrow> (address, genesis_account) gmap \<Rightarrow> hash \<Rightarrow> store_err + layer_log"
where
  "LayerLogFromGenesis kc alloc genesisRoot =
     rfold (genesis_account_log kc) alloc
       \<lparr> BlockNumber = 0, RootHash = genesisRoot, UpdatedAccounts = [], UpdatedCodeCount = [],
         lCodePreimage = [], UpdatedStorage = [] \<rparr>"

text \<open>
  \<open>NewStateStoreImpl\<close> on an open datastore: an existing one is kept, a new one is filled from
  the genesis block. When no batch can be made, \<open>defer txn.Discard()\<close> runs on a nil interface
  before the error is looked at.
\<close>

definition NewStateStore ::
  "(bytes \<Rightarrow> hash) \<Rightarrow> 'db ds_api \<Rightarrow> (address, genesis_account) gmap option \<Rightarrow> hash \<Rightarrow> 'db \<Rightarrow> store_err + 'db"
where
  "NewStateStore kc api genesis genesisRoot db =
     (case dsGet api db KPersisted of
        Inr v \<Rightarrow> Inr db
      | Inl ErrNotFound \<Rightarrow>
          (case genesis of
             None \<Rightarrow> Inl ErrEmptyGenesis
           | Some alloc \<Rightarrow>
               rbind (LayerLogFromGenesis kc alloc genesisRoot)
                 (\<lambda>l. case NewTransaction api db of
                     Inl e \<Rightarrow> Inl PanicNil
                   | Inr b \<Rightarrow>
                       rbind (PersistLayerLog api db l b)
                         (\<lambda>b1. rbind (PutChildren api db (BlockNumber l) (RootHash l) [] b1)
                           (txnCommit api db))))
      | Inl e \<Rightarrow> Inl e)"

end
