(* ===== verification/StoreLaws.thy ===== *)
theory StoreLaws
  imports StateStore
begin

section \<open>Laws of the state store\<close>

text \<open>
  What persisting a layer log does to later reads. The reads are stated over a view of the
  datastore (\<open>view_account\<close>, \<open>view_storage\<close>, \<open>view_code\<close>); a read that succeeds gives the
  viewed value. A transaction queues a list of operations that depends on the log and on what
  is stored, and committing it overrides exactly the entries of the log.
\<close>

subsection \<open>Views\<close>

definition view_account :: "(bytes \<Rightarrow> hash) \<Rightarrow> dsview \<Rightarrow> address \<Rightarrow> account_value" where
  "view_account kc f ad =
     (case f (KAccount ad) of
        Some (VAccount v) \<Rightarrow> v
      | _ \<Rightarrow> (case f (KVersion ad) of Some (VVersion v) \<Rightarrow> blank_account kc v | _ \<Rightarrow> blank_account kc 0))"

definition view_storage :: "dsview \<Rightarrow> address \<Rightarrow> u64 \<Rightarrow> hash \<Rightarrow> hash" where
  "view_storage f ad v k = (case f (KStorage ad v k) of Some (VHash x) \<Rightarrow> x | _ \<Rightarrow> 0)"

definition view_code :: "dsview \<Rightarrow> hash \<Rightarrow> (bytes \<times> int) option" where
  "view_code f h = (case f (KCode h) of Some (VCode c n) \<Rightarrow> Some (c, n) | _ \<Rightarrow> None)"

lemma read_account:
  "ds_law api view \<Longrightarrow> ssGetAccountValue kc api db ad = Inr v \<Longrightarrow> v = view_account kc (view db) ad"
  using ds_lawD(1,2) [of api view db]
  by (auto simp: ssGetAccountValue_def view_account_def split: sum.splits store_err.splits dsval.splits)

lemma read_storage:
  "ds_law api view \<Longrightarrow> ssGetStorageByVersion api db ad w k = Inr v \<Longrightarrow> v = view_storage (view db) ad w k"
  using ds_lawD(1,2) [of api view db]
  by (auto simp: ssGetStorageByVersion_def view_storage_def split: sum.splits store_err.splits dsval.splits)

lemma read_code:
  "ds_law api view \<Longrightarrow> ssGetCodeByHash api db h = Inr c \<Longrightarrow> \<exists>n. view_code (view db) h = Some (c, n)"
  using ds_lawD(1) [of api view db "KCode h"]
  by (auto simp: ssGetCodeByHash_def view_code_def elim!: rbind_InrE split: dsval.splits)

lemma read_height:
  "ds_law api view \<Longrightarrow> GetPersistedHeight api db = Inr (h, r) \<Longrightarrow> view db KPersisted = Some (VHeight h r)"
  using ds_lawD(1) [of api view db KPersisted]
  by (auto simp: GetPersistedHeight_def elim!: rbind_InrE split: dsval.splits)

subsection \<open>What a transaction queues\<close>

fun op_key :: "dsop \<Rightarrow> dskey" where
  "op_key (BPut k v) = k"
| "op_key (BDelete k) = k"

lemma fold_untouched: "(\<And>x. x \<in> set ops \<Longrightarrow> op_key x \<noteq> k) \<Longrightarrow> fold apply_op ops f k = f k"
proof (induction ops arbitrary: f)
  case Nil
  then show ?case by simp
next
  case (Cons x ops)
  have "apply_op x f k = f k" using Cons.prems [of x] by (cases x) auto
  with Cons show ?case by simp
qed

lemma tput_Inr: "tput api db k v b = Inr b' \<Longrightarrow> b' = b @ [BPut k v]"
  by (simp add: tput_def queue_def split: option.splits)

lemma tdel_Inr: "tdel api db k b = Inr b' \<Longrightarrow> b' = b @ [BDelete k]"
  by (simp add: tdel_def queue_def split: option.splits)

text \<open>A loop whose body appends operations appends them all.\<close>

lemma rfold_appends:
  assumes "\<And>x b b'. x \<in> set xs \<Longrightarrow> f x b = Inr b' \<Longrightarrow> b' = b @ g x \<and> P x"
  shows "rfold f xs b = Inr b' \<Longrightarrow> b' = b @ concat (map g xs) \<and> (\<forall>x\<in>set xs. P x)"
  using assms
proof (induction xs arbitrary: b)
  case Nil
  then show ?case by simp
next
  case (Cons x xs)
  from Cons.prems(1) obtain b1 where b1: "f x b = Inr b1" "rfold f xs b1 = Inr b'"
    by (auto simp: rbind_Inr_iff)
  have "b1 = b @ g x \<and> P x" by (rule Cons.prems(2) [OF _ b1(1)]) simp
  moreover have "b' = b1 @ concat (map g xs) \<and> (\<forall>y\<in>set xs. P y)"
    by (rule Cons.IH [OF b1(2)]) (rule Cons.prems(2), simp_all)
  ultimately show ?case by simp
qed

definition view_version :: "dsview \<Rightarrow> address \<Rightarrow> u64" where
  "view_version f ad =
     (case f (KVersion ad) of
        Some (VVersion v) \<Rightarrow> v
      | _ \<Rightarrow> (case f (KAccount ad) of Some (VAccount a) \<Rightarrow> Version a | _ \<Rightarrow> 0))"

lemma committedVersion_view:
  "ds_law api view \<Longrightarrow> committedVersion api db ad = Inr v \<Longrightarrow> v = view_version (view db) ad"
  using ds_lawD(1,2) [of api view db]
  by (auto simp: committedVersion_def view_version_def split: sum.splits store_err.splits dsval.splits)

definition gc_ops :: "address \<Rightarrow> u64 \<Rightarrow> u64 \<Rightarrow> dsop list" where
  "gc_ops ad lo hi = (if lo > 0 then map (\<lambda>i. BPut (KGC ad i) VEmpty) (versions_between lo hi) else [])"

definition account_ops :: "dsview \<Rightarrow> address \<times> account_value \<Rightarrow> dsop list" where
  "account_ops f = (\<lambda>(ad, v).
     if Version v = 0 then []
     else (if Version v mod 3 = 0
           then [BDelete (KAccount ad), BPut (KVersion ad) (VVersion (Version v))]
           else [BPut (KAccount ad) (VAccount v), BDelete (KVersion ad)]) @
          gc_ops ad (view_version f ad) (Version v))"

lemma persist_account_ops:
  assumes law: "ds_law api view" and ok: "persist_account api db x b = Inr b'"
  shows "b' = b @ account_ops (view db) x \<and> Version (snd x) mod 3 \<noteq> 2"
proof -
  obtain ad v where x: "x = (ad, v)" by (cases x)
  show ?thesis
  proof (cases "Version v = 0")
    case True
    then show ?thesis using ok x by (simp add: persist_account_def account_ops_def)
  next
    case False
    have ne2: "Version v mod 3 \<noteq> 2"
    proof
      assume "Version v mod 3 = 2"
      then show False using ok False x by (simp add: persist_account_def)
    qed
    let ?ops = "if Version v mod 3 = 0
           then [BDelete (KAccount ad), BPut (KVersion ad) (VVersion (Version v))]
           else [BPut (KAccount ad) (VAccount v), BDelete (KVersion ad)]"
    have e: "persist_account api db (ad, v) b = rbind
       (if Version v mod 3 = 0 then
          rbind (tdel api db (KAccount ad) b) (tput api db (KVersion ad) (VVersion (Version v)))
        else rbind (tput api db (KAccount ad) (VAccount v) b) (tdel api db (KVersion ad)))
       (\<lambda>b1. rbind (committedVersion api db ad)
          (\<lambda>w. if w > 0
             then rfold (\<lambda>i. tput api db (KGC ad i) VEmpty) (versions_between w (Version v)) b1
             else Inr b1))"
      using False ne2 by (simp add: persist_account_def)
    obtain b1 where q: "(if Version v mod 3 = 0 then
          rbind (tdel api db (KAccount ad) b) (tput api db (KVersion ad) (VVersion (Version v)))
        else rbind (tput api db (KAccount ad) (VAccount v) b) (tdel api db (KVersion ad))) = Inr b1"
      and cv: "rbind (committedVersion api db ad)
          (\<lambda>w. if w > 0
             then rfold (\<lambda>i. tput api db (KGC ad i) VEmpty) (versions_between w (Version v)) b1
             else Inr b1) = Inr b'"
      by (rule rbind_InrE [OF ok [unfolded x e]])
    from cv obtain w where b1: "committedVersion api db ad = Inr w"
        "(if w > 0 then rfold (\<lambda>i. tput api db (KGC ad i) VEmpty) (versions_between w (Version v)) b1 else Inr b1) = Inr b'"
      by (rule rbind_InrE)
    from q have q: "b1 = b @ ?ops"
      by (cases "Version v mod 3 = 0") (auto elim!: rbind_InrE dest!: tput_Inr tdel_Inr)
    have w: "w = view_version (view db) ad" by (rule committedVersion_view [OF law b1(1)])
    have "b' = b1 @ gc_ops ad w (Version v)"
    proof (cases "w > 0")
      case True
      then have "rfold (\<lambda>i. tput api db (KGC ad i) VEmpty) (versions_between w (Version v)) b1 = Inr b'"
        using b1(2) by simp
      then have "b' = b1 @ concat (map (\<lambda>i. [BPut (KGC ad i) VEmpty]) (versions_between w (Version v))) \<and>
          (\<forall>i\<in>set (versions_between w (Version v)). True)"
        by (rule rfold_appends [rotated]) (simp add: tput_Inr)
      then show ?thesis using True by (simp add: gc_ops_def)
    next
      case False
      then show ?thesis using b1(2) by (simp add: gc_ops_def)
    qed
    then show ?thesis using x q w ne2 False by (simp add: account_ops_def)
  qed
qed

definition code_ops :: "dsview \<Rightarrow> (hash, bytes) gmap \<Rightarrow> hash \<times> int \<Rightarrow> dsop list" where
  "code_ops f pre = (\<lambda>(h, d).
     if d = 0 then []
     else (case view_code f h of
         None \<Rightarrow> [BPut (KCode h) (VCode (mget_or [] pre h) d)]
       | Some (c, n) \<Rightarrow> if n + d = 0 then [BDelete (KCode h)] else [BPut (KCode h) (VCode c (n + d))]))"

text \<open>The count of a code after a layer; persisting fails when it would be negative.\<close>

definition code_count :: "dsview \<Rightarrow> hash \<Rightarrow> int" where
  "code_count f h = (case view_code f h of Some (c, n) \<Rightarrow> n | None \<Rightarrow> 0)"

lemma persist_code_ops:
  assumes law: "ds_law api view" and ok: "persist_code api db pre x b = Inr b'"
  shows "b' = b @ code_ops (view db) pre x \<and>
    (snd x \<noteq> 0 \<longrightarrow> 0 \<le> code_count (view db) (fst x) + snd x \<and>
       (view_code (view db) (fst x) = None \<longrightarrow> map_of pre (fst x) \<noteq> None))"
proof -
  obtain h d where x: "x = (h, d)" by (cases x)
  note g = ds_lawD(1,2) [OF law, of db "KCode h"]
  show ?thesis
  proof (cases "d = 0")
    case True
    then show ?thesis using ok x by (simp add: persist_code_def code_ops_def)
  next
    case False
    show ?thesis
    proof (cases "dsGet api db (KCode h)")
      case (Inl e)
      then have "e = ErrNotFound" using ok False x
        by (auto simp: persist_code_def split: store_err.splits)
      with g(2) Inl have "view db (KCode h) = None" by simp
      with Inl \<open>e = ErrNotFound\<close> show ?thesis using ok False x
        by (auto simp: persist_code_def code_ops_def view_code_def code_count_def mget_or_def
            split: option.splits if_splits dest!: tput_Inr)
    next
      case (Inr v)
      with g(1) have "view db (KCode h) = Some v" by simp
      with Inr show ?thesis using ok False x
        by (auto simp: persist_code_def code_ops_def view_code_def code_count_def Let_def
            split: dsval.splits if_splits dest!: tput_Inr tdel_Inr)
    qed
  qed
qed

definition slot_ops :: "storage_key \<times> (hash, hash) gmap \<Rightarrow> dsop list" where
  "slot_ops = (\<lambda>((ad, v), st). map (\<lambda>(k, x). BPut (KStorage ad v k) (VHash x)) st)"

lemma persist_storage_ops:
  assumes "persist_storage api db x b = Inr b'"
  shows "b' = b @ slot_ops x"
proof -
  obtain ad v st where x: "x = ((ad, v), st)" by (metis surj_pair)
  have "rfold (\<lambda>(k, y). tput api db (KStorage ad v k) (VHash y)) st b = Inr b'"
    using assms x by (simp add: persist_storage_def)
  then have "b' = b @ concat (map (\<lambda>(k, y). [BPut (KStorage ad v k) (VHash y)]) st) \<and> (\<forall>y\<in>set st. True)"
    by (rule rfold_appends [rotated]) (auto dest: tput_Inr)
  moreover have "concat (map (\<lambda>(k, y). [BPut (KStorage ad v k) (VHash y)]) st) = slot_ops x"
    unfolding x slot_ops_def by (induction st) auto
  ultimately show ?thesis by simp
qed

definition log_ops :: "dsview \<Rightarrow> layer_log \<Rightarrow> dsop list" where
  "log_ops f l =
     [BPut KPersisted (VHeight (BlockNumber l) (RootHash l))] @
     concat (map (account_ops f) (UpdatedAccounts l)) @
     concat (map (code_ops f (lCodePreimage l)) (UpdatedCodeCount l)) @
     concat (map slot_ops (UpdatedStorage l))"

lemma PersistLayerLog_ops:
  assumes law: "ds_law api view" and ok: "PersistLayerLog api db l b = Inr b'"
  shows "b' = b @ log_ops (view db) l"
    and "\<forall>(ad, v)\<in>set (UpdatedAccounts l). Version v mod 3 \<noteq> 2"
    and "\<forall>(h, d)\<in>set (UpdatedCodeCount l). d \<noteq> 0 \<longrightarrow> 0 \<le> code_count (view db) h + d \<and>
       (view_code (view db) h = None \<longrightarrow> map_of (lCodePreimage l) h \<noteq> None)"
proof -
  from ok obtain b1 b2 b3 where s: "tput api db KPersisted (VHeight (BlockNumber l) (RootHash l)) b = Inr b1"
    "rfold (persist_account api db) (UpdatedAccounts l) b1 = Inr b2"
    "rfold (persist_code api db (lCodePreimage l)) (UpdatedCodeCount l) b2 = Inr b3"
    "rfold (persist_storage api db) (UpdatedStorage l) b3 = Inr b'"
    by (auto simp: PersistLayerLog_def rbind_Inr_iff)
  have 2: "b2 = b1 @ concat (map (account_ops (view db)) (UpdatedAccounts l)) \<and>
      (\<forall>x\<in>set (UpdatedAccounts l). Version (snd x) mod 3 \<noteq> 2)"
    by (rule rfold_appends [OF _ s(2)]) (rule persist_account_ops [OF law])
  have 3: "b3 = b2 @ concat (map (code_ops (view db) (lCodePreimage l)) (UpdatedCodeCount l)) \<and>
      (\<forall>x\<in>set (UpdatedCodeCount l). snd x \<noteq> 0 \<longrightarrow> 0 \<le> code_count (view db) (fst x) + snd x \<and>
       (view_code (view db) (fst x) = None \<longrightarrow> map_of (lCodePreimage l) (fst x) \<noteq> None))"
    by (rule rfold_appends [OF _ s(3)]) (rule persist_code_ops [OF law])
  have 4: "b' = b3 @ concat (map slot_ops (UpdatedStorage l)) \<and> (\<forall>x\<in>set (UpdatedStorage l). True)"
    by (rule rfold_appends [OF _ s(4)]) (simp add: persist_storage_ops)
  show "b' = b @ log_ops (view db) l"
    using tput_Inr [OF s(1)] 2 3 4 by (simp add: log_ops_def)
  show "\<forall>(ad, v)\<in>set (UpdatedAccounts l). Version v mod 3 \<noteq> 2" using 2 by auto
  show "\<forall>(h, d)\<in>set (UpdatedCodeCount l). d \<noteq> 0 \<longrightarrow> 0 \<le> code_count (view db) h + d \<and>
       (view_code (view db) h = None \<longrightarrow> map_of (lCodePreimage l) h \<noteq> None)" using 3 by auto
qed

subsection \<open>What the queued operations override\<close>

lemma gc_ops_keys: "x \<in> set (gc_ops ad lo hi) \<Longrightarrow> \<exists>i. op_key x = KGC ad i"
  by (auto simp: gc_ops_def split: if_splits)

lemma fold_gc_ops:
  "(\<And>i. k \<noteq> KGC ad i) \<Longrightarrow> fold apply_op (gc_ops ad lo hi) g k = g k"
  by (rule fold_untouched) (use gc_ops_keys in fastforce)

definition new_account :: "account_value \<Rightarrow> dsval option \<Rightarrow> dsval option" where
  "new_account v old = (if Version v = 0 then old else if Version v mod 3 = 0 then None else Some (VAccount v))"

definition new_version :: "account_value \<Rightarrow> dsval option \<Rightarrow> dsval option" where
  "new_version v old =
     (if Version v = 0 then old else if Version v mod 3 = 0 then Some (VVersion (Version v)) else None)"

lemma fold_account_ops:
  "fold apply_op (account_ops f (ad, v)) g (KAccount ad') =
     (if ad' = ad then new_account v (g (KAccount ad)) else g (KAccount ad'))"
  "fold apply_op (account_ops f (ad, v)) g (KVersion ad') =
     (if ad' = ad then new_version v (g (KVersion ad)) else g (KVersion ad'))"
  by (simp_all add: account_ops_def fold_gc_ops new_account_def new_version_def)

lemma account_ops_keys:
  "x \<in> set (account_ops f (ad, v)) \<Longrightarrow> op_key x = KAccount ad \<or> op_key x = KVersion ad \<or> (\<exists>i. op_key x = KGC ad i)"
  using gc_ops_keys by (fastforce simp: account_ops_def split: if_splits)

lemma fold_accounts:
  assumes "distinct (map fst xs)"
  shows "fold apply_op (concat (map (account_ops f) xs)) g (KAccount ad) =
      (case map_of xs ad of Some v \<Rightarrow> new_account v (g (KAccount ad)) | None \<Rightarrow> g (KAccount ad))"
    and "fold apply_op (concat (map (account_ops f) xs)) g (KVersion ad) =
      (case map_of xs ad of Some v \<Rightarrow> new_version v (g (KVersion ad)) | None \<Rightarrow> g (KVersion ad))"
  using assms
proof (induction xs arbitrary: g)
  case Nil
  { case 1 then show ?case by simp next case 2 then show ?case by simp }
next
  case (Cons x xs)
  obtain ad' v where x: "x = (ad', v)" by (cases x)
  { case 1
    then show ?case using Cons.IH(1) x map_of_None_keys [of xs ad']
      by (auto simp: fold_account_ops split: option.split)
  next
    case 2
    then show ?case using Cons.IH(2) x map_of_None_keys [of xs ad']
      by (auto simp: fold_account_ops split: option.split) }
qed

lemma fold_accounts_other:
  assumes "\<And>ad. k \<noteq> KAccount ad" "\<And>ad. k \<noteq> KVersion ad" "\<And>ad i. k \<noteq> KGC ad i"
  shows "fold apply_op (concat (map (account_ops f) xs)) g k = g k"
proof (rule fold_untouched)
  fix x assume "x \<in> set (concat (map (account_ops f) xs))"
  then obtain ad v where "x \<in> set (account_ops f (ad, v))" by auto
  from account_ops_keys [OF this] assms show "op_key x \<noteq> k" by metis
qed

lemma code_ops_keys: "x \<in> set (code_ops f pre (h, d)) \<Longrightarrow> op_key x = KCode h"
  by (auto simp: code_ops_def split: if_splits option.splits)

lemma fold_codes_other:
  assumes "\<And>h. k \<noteq> KCode h"
  shows "fold apply_op (concat (map (code_ops f pre) xs)) g k = g k"
  by (rule fold_untouched) (use code_ops_keys assms in fastforce)

definition new_code :: "dsview \<Rightarrow> (hash, bytes) gmap \<Rightarrow> hash \<Rightarrow> int \<Rightarrow> dsval option \<Rightarrow> dsval option" where
  "new_code f pre h d old =
     (if d = 0 then old
      else (case view_code f h of
          None \<Rightarrow> Some (VCode (mget_or [] pre h) d)
        | Some (c, n) \<Rightarrow> if n + d = 0 then None else Some (VCode c (n + d))))"

lemma fold_code_ops:
  "fold apply_op (code_ops f pre (h, d)) g (KCode h') =
     (if h' = h then new_code f pre h d (g (KCode h)) else g (KCode h'))"
  by (auto simp: code_ops_def new_code_def split: option.split)

lemma fold_codes:
  "distinct (map fst xs) \<Longrightarrow> fold apply_op (concat (map (code_ops f pre) xs)) g (KCode h) =
     (case map_of xs h of Some d \<Rightarrow> new_code f pre h d (g (KCode h)) | None \<Rightarrow> g (KCode h))"
proof (induction xs arbitrary: g)
  case Nil
  then show ?case by simp
next
  case (Cons x xs)
  then show ?case using map_of_None_keys [of xs "fst x"]
    by (cases x) (auto simp: fold_code_ops split: option.split)
qed

lemma slot_ops_keys: "x \<in> set (slot_ops ((ad, v), st)) \<Longrightarrow> \<exists>k. op_key x = KStorage ad v k"
  by (auto simp: slot_ops_def)

lemma fold_slots_other:
  assumes "\<And>ad v k'. k \<noteq> KStorage ad v k'"
  shows "fold apply_op (concat (map slot_ops xs)) g k = g k"
  by (rule fold_untouched) (use slot_ops_keys assms in fastforce)

lemma fold_slot_ops:
  "distinct (map fst st) \<Longrightarrow> fold apply_op (slot_ops ((ad, v), st)) g (KStorage ad' v' k) =
     (if ad' = ad \<and> v' = v then (case map_of st k of Some x \<Rightarrow> Some (VHash x) | None \<Rightarrow> g (KStorage ad v k))
      else g (KStorage ad' v' k))"
proof (induction st arbitrary: g)
  case Nil
  then show ?case by (simp add: slot_ops_def)
next
  case (Cons y st)
  have sp: "slot_ops ((ad, v), y # st) = BPut (KStorage ad v (fst y)) (VHash (snd y)) # slot_ops ((ad, v), st)"
    by (simp add: slot_ops_def case_prod_beta)
  from Cons.prems have "map_of st (fst y) = None" by (simp add: map_of_None_keys)
  then show ?case unfolding sp using Cons by (cases y) (auto split: option.split)
qed

lemma fold_slots:
  "distinct (map fst xs) \<Longrightarrow> (\<And>x. x \<in> set xs \<Longrightarrow> distinct (map fst (snd x))) \<Longrightarrow>
   fold apply_op (concat (map slot_ops xs)) g (KStorage ad v k) =
     (case map_of xs (ad, v) of
        Some st \<Rightarrow> (case map_of st k of Some x \<Rightarrow> Some (VHash x) | None \<Rightarrow> g (KStorage ad v k))
      | None \<Rightarrow> g (KStorage ad v k))"
proof (induction xs arbitrary: g)
  case Nil
  then show ?case by simp
next
  case (Cons x xs)
  obtain ad' v' st where x: "x = ((ad', v'), st)" by (metis surj_pair)
  have d: "distinct (map fst st)" using Cons.prems(2) [of x] x by simp
  have n: "map_of xs (ad', v') = None" using Cons.prems(1) x by (simp add: map_of_None_keys)
  have ih: "fold apply_op (concat (map slot_ops xs)) h (KStorage ad v k) =
     (case map_of xs (ad, v) of
        Some st \<Rightarrow> (case map_of st k of Some x \<Rightarrow> Some (VHash x) | None \<Rightarrow> h (KStorage ad v k))
      | None \<Rightarrow> h (KStorage ad v k))" for h
    using Cons by auto
  show ?case using n by (auto simp: x ih fold_slot_ops [OF d] split: option.split)
qed

subsection \<open>Persisting a layer\<close>

definition log_distinct :: "layer_log \<Rightarrow> bool" where
  "log_distinct l =
     (distinct (map fst (UpdatedAccounts l)) \<and> distinct (map fst (UpdatedCodeCount l)) \<and>
      distinct (map fst (UpdatedStorage l)) \<and>
      (\<forall>x\<in>set (UpdatedStorage l). distinct (map fst (snd x))))"

definition log_wf :: "(bytes \<Rightarrow> hash) \<Rightarrow> layer_log \<Rightarrow> bool" where
  "log_wf kc l = (log_distinct l \<and> (\<forall>x\<in>set (UpdatedAccounts l). av_wf kc (snd x)))"

text \<open>The keys the other operations of a transaction touch.\<close>

fun meta_key :: "dskey \<Rightarrow> bool" where
  "meta_key (KChildren h r) = True"
| "meta_key (KLayerLog h r) = True"
| "meta_key _ = False"

definition meta_ops :: "batch \<Rightarrow> bool" where
  "meta_ops b = (\<forall>x\<in>set b. meta_key (op_key x))"

lemma fold_meta: "meta_ops b \<Longrightarrow> \<not> meta_key k \<Longrightarrow> fold apply_op b f k = f k"
  by (rule fold_untouched) (auto simp: meta_ops_def)

lemma log_ops_meta:
  assumes "x \<in> set (log_ops f l)"
  shows "\<not> meta_key (op_key x)"
proof -
  have "\<not> meta_key (op_key x)" if "x \<in> set (account_ops f y)" for y
    using account_ops_keys [of x f "fst y" "snd y"] that by auto
  moreover have "\<not> meta_key (op_key x)" if "x \<in> set (code_ops f pre y)" for y pre
    using code_ops_keys [of x f pre "fst y" "snd y"] that by auto
  moreover have "\<not> meta_key (op_key x)" if "x \<in> set (slot_ops y)" for y
    using that by (auto simp: slot_ops_def split: prod.splits)
  ultimately show ?thesis using assms by (auto simp: log_ops_def)
qed

lemma log_ops_view:
  assumes d: "log_distinct l"
  shows "fold apply_op (log_ops f l) g KPersisted = Some (VHeight (BlockNumber l) (RootHash l))"
    and "fold apply_op (log_ops f l) g (KAccount ad) =
      (case map_of (UpdatedAccounts l) ad of Some v \<Rightarrow> new_account v (g (KAccount ad)) | None \<Rightarrow> g (KAccount ad))"
    and "fold apply_op (log_ops f l) g (KVersion ad) =
      (case map_of (UpdatedAccounts l) ad of Some v \<Rightarrow> new_version v (g (KVersion ad)) | None \<Rightarrow> g (KVersion ad))"
    and "fold apply_op (log_ops f l) g (KCode h) =
      (case map_of (UpdatedCodeCount l) h of Some d \<Rightarrow> new_code f (lCodePreimage l) h d (g (KCode h)) | None \<Rightarrow> g (KCode h))"
    and "fold apply_op (log_ops f l) g (KStorage ad v k) =
      (case map_of (UpdatedStorage l) (ad, v) of
         Some st \<Rightarrow> (case map_of st k of Some x \<Rightarrow> Some (VHash x) | None \<Rightarrow> g (KStorage ad v k))
       | None \<Rightarrow> g (KStorage ad v k))"
  using d unfolding log_distinct_def log_ops_def
  by (simp_all add: fold_slots_other fold_codes_other fold_accounts_other fold_accounts fold_codes fold_slots
      split: option.split)

lemma view_account_new:
  assumes "av_wf kc v" "f' (KAccount ad) = new_account v (f (KAccount ad))"
    and "f' (KVersion ad) = new_version v (f (KVersion ad))"
  shows "view_account kc f' ad = (if Version v = 0 then view_account kc f ad else v)"
  using assms
  by (cases v) (auto simp: view_account_def new_account_def new_version_def av_wf_def blank_account_def
      cong: option.case_cong dsval.case_cong)

text \<open>The reads after a committed transaction that persisted a layer.\<close>

lemma persist_reads:
  assumes law: "ds_law api view" and wf: "log_wf kc l"
    and ok: "PersistLayerLog api db l b0 = Inr b" and com: "txnCommit api db (b @ b1) = Inr db'"
    and meta: "meta_ops b0" "meta_ops b1"
  shows "view db' KPersisted = Some (VHeight (BlockNumber l) (RootHash l))"
    and "view_account kc (view db') ad =
      (case map_of (UpdatedAccounts l) ad of
         Some v \<Rightarrow> if Version v = 0 then view_account kc (view db) ad else v
       | None \<Rightarrow> view_account kc (view db) ad)"
    and "view_storage (view db') ad w k =
      (case map_of (UpdatedStorage l) (ad, w) of
         Some st \<Rightarrow> (case map_of st k of Some x \<Rightarrow> x | None \<Rightarrow> view_storage (view db) ad w k)
       | None \<Rightarrow> view_storage (view db) ad w k)"
    and "code_count (view db') h = code_count (view db) h + mget_or 0 (UpdatedCodeCount l) h"
    and "view_code (view db) h = Some (c, n) \<Longrightarrow> view_code (view db') h = None \<or>
      (\<exists>m. view_code (view db') h = Some (c, m))"
proof -
  have d: "log_distinct l" using wf by (simp add: log_wf_def)
  have b: "b = b0 @ log_ops (view db) l" by (rule PersistLayerLog_ops(1) [OF law ok])
  let ?g = "fold apply_op b0 (view db)"
  have v: "view db' = fold apply_op b1 (fold apply_op (log_ops (view db) l) ?g)"
    using ds_lawD(3) [OF law com [unfolded txnCommit_def]] b by simp
  have k: "view db' k = fold apply_op (log_ops (view db) l) ?g k" if "\<not> meta_key k" for k
    using fold_meta [OF meta(2) that] v by simp
  have g: "?g k = view db k" if "\<not> meta_key k" for k by (rule fold_meta [OF meta(1) that])
  note L = log_ops_view [OF d, of "view db" ?g]
  show "view db' KPersisted = Some (VHeight (BlockNumber l) (RootHash l))" using k L(1) by simp
  have acc: "view db' (KAccount ad) = (case map_of (UpdatedAccounts l) ad of
        Some v \<Rightarrow> new_account v (view db (KAccount ad)) | None \<Rightarrow> view db (KAccount ad))"
    and ver: "view db' (KVersion ad) = (case map_of (UpdatedAccounts l) ad of
        Some v \<Rightarrow> new_version v (view db (KVersion ad)) | None \<Rightarrow> view db (KVersion ad))"
    using L(2,3) k g by (simp_all cong: option.case_cong)
  show "view_account kc (view db') ad =
      (case map_of (UpdatedAccounts l) ad of
         Some v \<Rightarrow> if Version v = 0 then view_account kc (view db) ad else v
       | None \<Rightarrow> view_account kc (view db) ad)"
  proof (cases "map_of (UpdatedAccounts l) ad")
    case None
    then show ?thesis using acc ver by (simp add: view_account_def cong: option.case_cong dsval.case_cong)
  next
    case (Some v)
    have "av_wf kc v" using wf map_of_SomeD [OF Some] by (auto simp: log_wf_def)
    from view_account_new [OF this, of "view db'" ad "view db"] acc ver Some show ?thesis by simp
  qed
  show "view_storage (view db') ad w k =
      (case map_of (UpdatedStorage l) (ad, w) of
         Some st \<Rightarrow> (case map_of st k of Some x \<Rightarrow> x | None \<Rightarrow> view_storage (view db) ad w k)
       | None \<Rightarrow> view_storage (view db) ad w k)"
    using L(5) k g by (simp add: view_storage_def split: option.split)
  have cd: "view db' (KCode h) = (case map_of (UpdatedCodeCount l) h of
        Some d \<Rightarrow> new_code (view db) (lCodePreimage l) h d (view db (KCode h)) | None \<Rightarrow> view db (KCode h))"
    using L(4) k g by (simp cong: option.case_cong)
  show "code_count (view db') h = code_count (view db) h + mget_or 0 (UpdatedCodeCount l) h"
    using cd by (auto simp: code_count_def view_code_def new_code_def mget_or_def split: option.split dsval.split)
  show "view_code (view db) h = Some (c, n) \<Longrightarrow> view_code (view db') h = None \<or>
      (\<exists>m. view_code (view db') h = Some (c, m))"
    using cd by (auto simp: view_code_def new_code_def split: option.splits dsval.splits)
qed

text \<open>(C4)
  Persisting a layer log in a transaction (with any children and layer log entries written
  before and after it) overrides exactly what the log says: the persisted height and root are
  the log's; an account of the log reads as its new value, a deleted account as blank with its
  version, an account the log marks as never having existed as before; a slot of the log reads
  as its new value; the count of every code moves by the log's difference; everything else
  reads as before.
\<close>

theorem persist_layer_log:
  assumes "ds_law api view" and "log_wf kc l"
    and "PersistLayerLog api db l b0 = Inr b" and "txnCommit api db (b @ b1) = Inr db'"
    and "meta_ops b0" "meta_ops b1"
  shows "view db' KPersisted = Some (VHeight (BlockNumber l) (RootHash l)) \<and>
    (\<forall>ad. view_account kc (view db') ad =
      (case map_of (UpdatedAccounts l) ad of
         Some v \<Rightarrow> if Version v = 0 then view_account kc (view db) ad else v
       | None \<Rightarrow> view_account kc (view db) ad)) \<and>
    (\<forall>ad w k. view_storage (view db') ad w k =
      (case map_of (UpdatedStorage l) (ad, w) of
         Some st \<Rightarrow> (case map_of st k of Some x \<Rightarrow> x | None \<Rightarrow> view_storage (view db) ad w k)
       | None \<Rightarrow> view_storage (view db) ad w k)) \<and>
    (\<forall>h. code_count (view db') h = code_count (view db) h + mget_or 0 (UpdatedCodeCount l) h)"
  using persist_reads [OF assms] by blast

subsection \<open>A datastore in memory\<close>

definition mem_api :: "(dskey, dsval) gmap ds_api" where
  "mem_api =
     \<lparr> dsGet = (\<lambda>db k. case map_of db k of Some v \<Rightarrow> Inr v | None \<Rightarrow> Inl ErrNotFound),
       dsBatch = (\<lambda>db. None), dsQueue = (\<lambda>db k. None),
       dsCommit = (\<lambda>db b. Inr (fold (\<lambda>x m. case x of BPut k v \<Rightarrow> mput k v m | BDelete k \<Rightarrow> mdel k m) b db)),
       dsGCKeys = (\<lambda>db. Inr (List.map_filter (\<lambda>(k, v). case k of KGC a i \<Rightarrow> Some (a, i) | _ \<Rightarrow> None) db)),
       dsSlots = (\<lambda>db a v. Inr (List.map_filter
         (\<lambda>(k, x). case k of KStorage a' v' s \<Rightarrow> if a' = a \<and> v' = v then Some s else None | _ \<Rightarrow> None) db)) \<rparr>"

lemma mem_commit:
  "map_of (fold (\<lambda>x m. case x of BPut k v \<Rightarrow> mput k v m | BDelete k \<Rightarrow> mdel k m) b db) = fold apply_op b (map_of db)"
  by (induction b arbitrary: db) (auto simp: map_fun split: dsop.split)

lemma mem_api_law: "ds_law mem_api map_of"
proof -
  have k: "map_of db k \<noteq> None \<longleftrightarrow> (\<exists>v. (k, v) \<in> set db)" for db :: "(dskey, dsval) gmap" and k
    by (metis map_of_SomeD not_None_eq weak_map_of_SomeI)
  have 1: "set (List.map_filter (\<lambda>(k, v). case k of KGC a i \<Rightarrow> Some (a, i) | _ \<Rightarrow> None) db) =
      {(a, v). map_of db (KGC a v) \<noteq> None}" for db :: "(dskey, dsval) gmap"
    unfolding k by (force simp: map_filter_def split: dskey.splits)
  have 2: "set (List.map_filter (\<lambda>(k, x). case k of KStorage a' v' s \<Rightarrow>
      if a' = a \<and> v' = v then Some s else None | _ \<Rightarrow> None) db) = {s. map_of db (KStorage a v s) \<noteq> None}"
    for db :: "(dskey, dsval) gmap" and a v
    unfolding k by (force simp: map_filter_def split: dskey.splits if_splits)
  show ?thesis
    unfolding ds_law_def using 1 2 by (auto simp: mem_api_def mem_commit split: option.splits)
qed

definition demo_log :: layer_log where
  "demo_log = \<lparr> BlockNumber = 1, RootHash = 11,
     UpdatedAccounts = [(1, \<lparr> Nonce = 1, Balance = 5, CodeHash = 101, DirtyStorage = True, Version = 1 \<rparr>),
                        (2, \<lparr> Nonce = 0, Balance = 0, CodeHash = 7, DirtyStorage = False, Version = 3 \<rparr>)],
     UpdatedCodeCount = [(101, 1)], lCodePreimage = [(101, [9])],
     UpdatedStorage = [((1, 1), [(4, 5)])] \<rparr>"

definition hash7 :: "bytes \<Rightarrow> hash" where
  "hash7 bs = (if bs = [] then 7 else of_nat (length bs) + 100)"

lemma demo_log_wf: "log_wf hash7 demo_log"
  by (simp add: log_wf_def log_distinct_def demo_log_def av_wf_def EmptyCodeHash_def hash7_def)

definition demo_store :: "(dskey, dsval) gmap" where
  "demo_store = [(KPersisted, VHeight 0 10), (KAccount 2, VAccount
     \<lparr> Nonce = 3, Balance = 8, CodeHash = 7, DirtyStorage = True, Version = 1 \<rparr>), (KStorage 2 1 6, VHash 9)]"

lemma not_isl: "\<not> isl r \<Longrightarrow> r = Inr (projr r)"
  by (cases r) simp_all

lemma demo_persist_ok: "\<not> isl (PersistLayerLog mem_api demo_store demo_log [])"
  by code_simp

theorem persist_layer_log_witness:
  "\<exists>b db'. PersistLayerLog mem_api demo_store demo_log [] = Inr b \<and> txnCommit mem_api demo_store (b @ []) = Inr db' \<and>
     Version (view_account hash7 (map_of db') 2) = 3 \<and> view_storage (map_of db') 1 1 4 = 5 \<and>
     view_storage (map_of db') 2 1 6 = 9"
proof -
  note ok = not_isl [OF demo_persist_ok]
  have meta: "meta_ops []" by (simp add: meta_ops_def)
  obtain db' where com: "txnCommit mem_api demo_store (projr (PersistLayerLog mem_api demo_store demo_log []) @ []) = Inr db'"
    by (simp add: txnCommit_def mem_api_def)
  from persist_layer_log [OF mem_api_law demo_log_wf ok com meta meta]
  have "Version (view_account hash7 (map_of db') 2) = 3" "view_storage (map_of db') 1 1 4 = 5"
    "view_storage (map_of db') 2 1 6 = 9"
    by (simp_all add: demo_log_def demo_store_def view_storage_def)
  with ok com show ?thesis by blast
qed

end
