(* ===== verification/StoreGC.thy ===== *)
theory StoreGC
  imports StoreLaws
begin

section \<open>Garbage collection and genesis\<close>

text \<open>
  A garbage collection entry \<open>(addr, version)\<close> is only ever written for a version the account
  has left behind (\<open>gc_inv\<close>, kept by persisting a layer whose versions do not go backwards),
  so a round of garbage collection removes no storage that can still be read. A new store
  reads as the genesis allocation.
\<close>

definition gc_inv :: "dsview \<Rightarrow> bool" where
  "gc_inv f = (\<forall>ad i. f (KGC ad i) \<noteq> None \<longrightarrow> unat i < unat (view_version f ad))"

lemma fold_put_origin:
  "fold apply_op ops f k \<noteq> None \<Longrightarrow> f k \<noteq> None \<or> (\<exists>v. BPut k v \<in> set ops)"
proof (induction ops arbitrary: f)
  case Nil
  then show ?case by simp
next
  case (Cons x ops)
  then show ?case by (cases x) (fastforce split: if_splits)+
qed

lemma versions_between_bounds:
  assumes "i \<in> set (versions_between lo hi)"
  shows "unat lo \<le> unat i" "unat i < unat hi"
proof -
  from assms obtain n where n: "i = of_nat n" "unat lo \<le> n" "n < unat hi"
    by (auto simp: versions_between_def)
  have "unat i = n" using n(1,3) by (metis of_nat_inverse order_less_trans unsigned_less)
  with n show "unat lo \<le> unat i" "unat i < unat hi" by simp_all
qed

lemma log_ops_gc:
  assumes "BPut (KGC ad i) x \<in> set (log_ops f l)"
  obtains v where "(ad, v) \<in> set (UpdatedAccounts l)" "Version v \<noteq> 0" "unat i < unat (Version v)"
proof -
  have "BPut (KGC ad i) x \<notin> set (code_ops f pre y)" for pre y
    using code_ops_keys [of "BPut (KGC ad i) x" f pre "fst y" "snd y"] by auto
  moreover have "BPut (KGC ad i) x \<notin> set (slot_ops y)" for y
    by (auto simp: slot_ops_def split: prod.splits)
  ultimately have "\<exists>y\<in>set (UpdatedAccounts l). BPut (KGC ad i) x \<in> set (account_ops f y)"
    using assms by (auto simp: log_ops_def)
  then obtain ad' v where y: "(ad', v) \<in> set (UpdatedAccounts l)" "BPut (KGC ad i) x \<in> set (account_ops f (ad', v))"
    by auto
  have "ad' = ad \<and> Version v \<noteq> 0 \<and> i \<in> set (versions_between (view_version f ad) (Version v))"
    using y(2) by (auto simp: account_ops_def gc_ops_def split: if_splits)
  with y(1) that show thesis using versions_between_bounds(2) by blast
qed

text \<open>The versions of a log are not behind those of the store.\<close>

definition log_forward :: "dsview \<Rightarrow> layer_log \<Rightarrow> bool" where
  "log_forward f l =
     (\<forall>(ad, v)\<in>set (UpdatedAccounts l). Version v \<noteq> 0 \<longrightarrow> unat (view_version f ad) \<le> unat (Version v))"

lemma persist_version:
  assumes law: "ds_law api view" and d: "log_distinct l"
    and ok: "PersistLayerLog api db l b0 = Inr b" and com: "txnCommit api db (b @ b1) = Inr db'"
    and meta: "meta_ops b0" "meta_ops b1"
  shows "view_version (view db') ad =
    (case map_of (UpdatedAccounts l) ad of
       Some v \<Rightarrow> if Version v = 0 then view_version (view db) ad else Version v
     | None \<Rightarrow> view_version (view db) ad)"
    and "view db' (KGC ad i) \<noteq> None \<Longrightarrow> view db (KGC ad i) \<noteq> None \<or>
      (\<exists>v. (ad, v) \<in> set (UpdatedAccounts l) \<and> Version v \<noteq> 0 \<and> unat i < unat (Version v))"
proof -
  have b: "b = b0 @ log_ops (view db) l" by (rule PersistLayerLog_ops(1) [OF law ok])
  let ?g = "fold apply_op b0 (view db)"
  have v: "view db' = fold apply_op b1 (fold apply_op (log_ops (view db) l) ?g)"
    using ds_lawD(3) [OF law com [unfolded txnCommit_def]] b by simp
  have k: "view db' k = fold apply_op (log_ops (view db) l) ?g k" if "\<not> meta_key k" for k
    using fold_meta [OF meta(2) that] v by simp
  have g: "?g k = view db k" if "\<not> meta_key k" for k by (rule fold_meta [OF meta(1) that])
  note L = log_ops_view(2,3) [OF d, of "view db" ?g ad]
  show "view_version (view db') ad =
    (case map_of (UpdatedAccounts l) ad of
       Some v \<Rightarrow> if Version v = 0 then view_version (view db) ad else Version v
     | None \<Rightarrow> view_version (view db) ad)"
    using L k [of "KAccount ad"] k [of "KVersion ad"] g [of "KAccount ad"] g [of "KVersion ad"]
    by (auto simp: view_version_def new_account_def new_version_def cong: option.case_cong dsval.case_cong
        split: option.split)
  assume "view db' (KGC ad i) \<noteq> None"
  then have "fold apply_op (log_ops (view db) l) ?g (KGC ad i) \<noteq> None" using k by simp
  then have "?g (KGC ad i) \<noteq> None \<or> (\<exists>x. BPut (KGC ad i) x \<in> set (log_ops (view db) l))"
    by (rule fold_put_origin)
  then show "view db (KGC ad i) \<noteq> None \<or>
      (\<exists>v. (ad, v) \<in> set (UpdatedAccounts l) \<and> Version v \<noteq> 0 \<and> unat i < unat (Version v))"
    using g by (auto elim: log_ops_gc)
qed

lemma persist_gc:
  assumes law: "ds_law api view" and d: "log_distinct l" and inv: "gc_inv (view db)"
    and fwd: "log_forward (view db) l"
    and ok: "PersistLayerLog api db l b0 = Inr b" and com: "txnCommit api db (b @ b1) = Inr db'"
    and meta: "meta_ops b0" "meta_ops b1"
  shows "gc_inv (view db')"
  unfolding gc_inv_def
proof (intro allI impI)
  fix ad i assume gc: "view db' (KGC ad i) \<noteq> None"
  note pv = persist_version [OF law d ok com meta]
  have le: "unat (view_version (view db) ad) \<le> unat (view_version (view db') ad)"
    using fwd map_of_SomeD [of "UpdatedAccounts l" ad] unfolding pv(1) log_forward_def
    by (auto split: option.split)
  from pv(2) [OF gc] consider "view db (KGC ad i) \<noteq> None"
    | v where "(ad, v) \<in> set (UpdatedAccounts l)" "Version v \<noteq> 0" "unat i < unat (Version v)" by blast
  then show "unat i < unat (view_version (view db') ad)"
  proof cases
    case 1
    then show ?thesis using inv le unfolding gc_inv_def by (meson less_le_trans)
  next
    case 2
    have "map_of (UpdatedAccounts l) ad = Some v"
      using d 2(1) by (simp add: log_distinct_def)
    then show ?thesis using 2 by (simp add: pv(1))
  qed
qed

subsection \<open>A round of garbage collection\<close>

lemma gcClear_view:
  assumes law: "ds_law api view"
  shows "view (gcClear api (ad, w) db) k = view db k \<or>
    (view (gcClear api (ad, w) db) k = None \<and> (k = KGC ad w \<or> (\<exists>s. k = KStorage ad w s)))"
proof (cases "rbind (NewTransaction api db)
       (\<lambda>b. rbind (dsSlots api db ad w)
         (\<lambda>ks. rbind (rfold (\<lambda>k. tdel api db (KStorage ad w k)) ks b)
           (\<lambda>b1. rbind (tdel api db (KGC ad w) b1) (txnCommit api db))))")
  case (Inl e)
  then show ?thesis by (simp add: gcClear_def)
next
  case (Inr db')
  then obtain b ks b1 b2 where s: "NewTransaction api db = Inr b" "dsSlots api db ad w = Inr ks"
    "rfold (\<lambda>k. tdel api db (KStorage ad w k)) ks b = Inr b1" "tdel api db (KGC ad w) b1 = Inr b2"
    "txnCommit api db b2 = Inr db'" by (auto simp: rbind_Inr_iff)
  have r: "gcClear api (ad, w) db = db'" using Inr by (simp add: gcClear_def)
  have b: "b = []" using s(1) by (simp add: NewTransaction_def split: option.splits)
  have "b1 = b @ concat (map (\<lambda>k. [BDelete (KStorage ad w k)]) ks) \<and> (\<forall>x\<in>set ks. True)"
    by (rule rfold_appends [OF _ s(3)]) (simp add: tdel_Inr)
  then have b2: "b2 = map (\<lambda>k. BDelete (KStorage ad w k)) ks @ [BDelete (KGC ad w)]"
    using tdel_Inr [OF s(4)] b by simp
  have v: "view db' = fold apply_op b2 (view db)"
    by (rule ds_lawD(3) [OF law s(5) [unfolded txnCommit_def]])
  have "fold apply_op (map (\<lambda>k. BDelete (KStorage ad w k)) ks) f k =
      (if \<exists>s\<in>set ks. k = KStorage ad w s then None else f k)" for f
    by (induction ks arbitrary: f) auto
  then show ?thesis unfolding r v b2 by auto
qed

text \<open>What a round removes: entries, and slots of versions that had an entry.\<close>

lemma gcRound_view:
  assumes law: "ds_law api view"
  shows "view (gcRound api db) k = view db k \<or>
    (view (gcRound api db) k = None \<and>
     (\<exists>ad w. view db (KGC ad w) \<noteq> None \<and> (k = KGC ad w \<or> (\<exists>s. k = KStorage ad w s))))"
proof (cases "dsGCKeys api db")
  case (Inl e)
  then show ?thesis by (simp add: gcRound_def)
next
  case (Inr keys)
  have "view (fold (gcClear api) xs d) k = view d k \<or>
      (view (fold (gcClear api) xs d) k = None \<and> (\<exists>(ad, w)\<in>set xs. k = KGC ad w \<or> (\<exists>s. k = KStorage ad w s)))"
    for xs d
  proof (induction xs arbitrary: d)
    case Nil
    then show ?case by simp
  next
    case (Cons x xs)
    from Cons.IH [of "gcClear api x d"] gcClear_view [OF law, of "fst x" "snd x" d k]
    show ?case by auto
  qed
  from this [of keys db] show ?thesis
    using Inr ds_lawD(4) [OF law Inr] by (auto simp: gcRound_def)
qed

text \<open>(C18)
  A round of garbage collection is invisible: no account value, code, children, layer log or
  persisted height changes, and no slot of the current (or a later) version of an account does;
  and garbage collection entries stay behind the versions of their accounts.
\<close>

theorem gc_round_invisible:
  assumes "ds_law api view" and "gc_inv (view db)"
  shows "view_account kc (view (gcRound api db)) ad = view_account kc (view db) ad \<and>
    view_code (view (gcRound api db)) h = view_code (view db) h \<and>
    (unat (view_version (view db) ad) \<le> unat w \<longrightarrow>
       view_storage (view (gcRound api db)) ad w k = view_storage (view db) ad w k) \<and>
    view (gcRound api db) KPersisted = view db KPersisted \<and>
    view (gcRound api db) (KChildren n r) = view db (KChildren n r) \<and>
    view (gcRound api db) (KLayerLog n r) = view db (KLayerLog n r) \<and>
    gc_inv (view (gcRound api db))"
proof -
  let ?f = "view (gcRound api db)"
  note v = gcRound_view [OF assms(1), of db]
  have a: "?f (KAccount x) = view db (KAccount x)" "?f (KVersion x) = view db (KVersion x)"
    "?f (KCode h) = view db (KCode h)" "?f KPersisted = view db KPersisted"
    "?f (KChildren n r) = view db (KChildren n r)" "?f (KLayerLog n r) = view db (KLayerLog n r)" for x
    using v [of "KAccount x"] v [of "KVersion x"] v [of "KCode h"] v [of KPersisted]
      v [of "KChildren n r"] v [of "KLayerLog n r"] by auto
  have ver: "view_version ?f x = view_version (view db) x" for x
    by (simp add: view_version_def a cong: option.case_cong dsval.case_cong)
  have acc: "view_account kc ?f ad = view_account kc (view db) ad"
    by (simp add: view_account_def a cong: option.case_cong dsval.case_cong)
  have st: "?f (KStorage ad w k) = view db (KStorage ad w k)" if "unat (view_version (view db) ad) \<le> unat w"
    using v [of "KStorage ad w k"] assms(2) that unfolding gc_inv_def by fastforce
  have gc: "gc_inv ?f"
    unfolding gc_inv_def ver using assms(2) v unfolding gc_inv_def by metis
  show ?thesis using acc st gc a by (simp add: view_code_def view_storage_def)
qed

text \<open>(C34)
  Persisting a layer whose account versions do not go backwards only writes garbage collection
  entries for versions the account has left: the invariant behind garbage collection is kept.
\<close>

theorem persist_keeps_gc_inv:
  assumes "ds_law api view" and "log_wf kc l" and "gc_inv (view db)" and "log_forward (view db) l"
    and "PersistLayerLog api db l b0 = Inr b" and "txnCommit api db (b @ b1) = Inr db'"
    and "meta_ops b0" "meta_ops b1"
  shows "gc_inv (view db')"
  using persist_gc [OF assms(1) _ assms(3-8)] assms(2) by (simp add: log_wf_def)

text \<open>The example log makes an entry for the version 1 of account 2, which a round then clears.\<close>

lemma demo_gc_start: "gc_inv (map_of demo_store)"
  by (simp add: gc_inv_def demo_store_def)

lemma demo_forward: "log_forward (map_of demo_store) demo_log"
  by (simp add: log_forward_def demo_log_def demo_store_def view_version_def)

definition demo_persisted :: "(dskey, dsval) gmap" where
  "demo_persisted = projr (txnCommit mem_api demo_store (projr (PersistLayerLog mem_api demo_store demo_log []) @ []))"

lemma demo_commit: "txnCommit mem_api demo_store (projr (PersistLayerLog mem_api demo_store demo_log []) @ []) = Inr demo_persisted"
  by (simp add: demo_persisted_def txnCommit_def mem_api_def)

theorem persist_keeps_gc_inv_witness: "gc_inv (map_of demo_persisted)"
  using persist_keeps_gc_inv [OF mem_api_law demo_log_wf demo_gc_start demo_forward
      not_isl [OF demo_persist_ok] demo_commit]
  by (simp add: meta_ops_def)

lemma demo_gc: "gc_inv (map_of demo_persisted)"
  by (rule persist_gc [OF mem_api_law _ demo_gc_start demo_forward not_isl [OF demo_persist_ok] demo_commit])
    (use demo_log_wf in \<open>simp_all add: log_wf_def meta_ops_def\<close>)

lemma demo_gc_clears:
  "mhas demo_persisted (KGC 2 1)" "view_storage (map_of demo_persisted) 2 1 6 = 9"
  "view_storage (map_of (gcRound mem_api demo_persisted)) 2 1 6 = 0"
  by code_simp+

theorem gc_round_invisible_witness:
  "view_storage (map_of (gcRound mem_api demo_persisted)) 1 1 4 = view_storage (map_of demo_persisted) 1 1 4"
proof -
  have "view_version (map_of demo_persisted) 1 = 1" by code_simp
  then show ?thesis using gc_round_invisible [OF mem_api_law demo_gc, where ad = 1 and w = 1 and k = 4] by simp
qed

subsection \<open>A new store\<close>

definition genesis_av :: "(bytes \<Rightarrow> hash) \<Rightarrow> genesis_account \<Rightarrow> account_value" where
  "genesis_av kc a = \<lparr> Nonce = gaNonce a, Balance = of_int (gaBalance a), CodeHash = kc (gaCode a),
     DirtyStorage = (gaStorage a \<noteq> []), Version = 1 \<rparr>"

lemma fold_mput: "distinct (map fst xs) \<Longrightarrow>
    map_of (fold (\<lambda>(k, v). mput k v) xs m) k = (case map_of xs k of Some v \<Rightarrow> Some v | None \<Rightarrow> map_of m k)"
proof (induction xs arbitrary: m)
  case Nil
  then show ?case by simp
next
  case (Cons x xs)
  then show ?case using map_of_None_keys [of xs "fst x"] by (cases x) (auto split: option.split)
qed

lemma distinct_fold_mput: "distinct (map fst m) \<Longrightarrow> distinct (map fst (fold (\<lambda>(k, v). mput k v) xs m))"
  by (induction xs arbitrary: m) auto

lemma genesis_step:
  assumes "genesis_account_log kc (ad, a) l = Inr l'"
  shows "UpdatedAccounts l' = mput ad (genesis_av kc a) (UpdatedAccounts l)"
    and "UpdatedStorage l' = (if gaStorage a = [] then UpdatedStorage l
       else mput (ad, 1) (fold (\<lambda>(k, v). mput k v) (gaStorage a) []) (UpdatedStorage l))"
    and "distinct (map fst (UpdatedCodeCount l)) \<Longrightarrow> distinct (map fst (UpdatedCodeCount l'))"
    and "BlockNumber l' = BlockNumber l" "RootHash l' = RootHash l"
  using assms
  by (auto simp: genesis_account_log_def genesis_value_def Let_def genesis_av_def split: if_splits)

lemma genesis_log_wf_step:
  assumes "genesis_account_log kc (ad, a) l = Inr l'" and "log_wf kc l"
  shows "log_wf kc l'"
proof -
  note g = genesis_step [OF assms(1)]
  have "av_wf kc (genesis_av kc a)" by (simp add: av_wf_def genesis_av_def)
  then have "\<forall>x\<in>set (UpdatedAccounts l'). av_wf kc (snd x)"
    unfolding g(1) using assms(2) by (intro mput_ball) (simp_all add: log_wf_def)
  moreover have "\<forall>x\<in>set (UpdatedStorage l'). distinct (map fst (snd x))"
  proof (cases "gaStorage a = []")
    case True
    then show ?thesis unfolding g(2) using assms(2) by (simp add: log_wf_def log_distinct_def)
  next
    case False
    have "\<forall>x\<in>set (mput (ad, 1) (fold (\<lambda>(k, v). mput k v) (gaStorage a) []) (UpdatedStorage l)).
        distinct (map fst (snd x))"
      by (rule mput_ball) (use assms(2) distinct_fold_mput [of "[]" "gaStorage a"] in \<open>simp_all add: log_wf_def log_distinct_def\<close>)
    then show ?thesis unfolding g(2) using False by simp
  qed
  moreover have "distinct (map fst (UpdatedStorage l'))" "distinct (map fst (UpdatedAccounts l'))"
    unfolding g(1,2) using assms(2) by (simp_all add: log_wf_def log_distinct_def)
  moreover have "distinct (map fst (UpdatedCodeCount l'))"
    using g(3) assms(2) by (simp add: log_wf_def log_distinct_def)
  ultimately show ?thesis by (simp add: log_wf_def log_distinct_def)
qed

lemma genesis_log:
  assumes "rfold (genesis_account_log kc) alloc l0 = Inr l" and "log_wf kc l0"
    and "distinct (map fst alloc)"
  shows "log_wf kc l \<and> BlockNumber l = BlockNumber l0 \<and> RootHash l = RootHash l0 \<and>
    map_of (UpdatedAccounts l) ad =
      (case map_of alloc ad of Some a \<Rightarrow> Some (genesis_av kc a) | None \<Rightarrow> map_of (UpdatedAccounts l0) ad) \<and>
    map_of (UpdatedStorage l) (ad, w) =
      (case map_of alloc ad of
         Some a \<Rightarrow> if w = 1 \<and> gaStorage a \<noteq> [] then Some (fold (\<lambda>(k, v). mput k v) (gaStorage a) [])
                   else map_of (UpdatedStorage l0) (ad, w)
       | None \<Rightarrow> map_of (UpdatedStorage l0) (ad, w))"
  using assms
proof (induction alloc arbitrary: l0)
  case Nil
  then show ?case by simp
next
  case (Cons x alloc)
  obtain ad' a where x: "x = (ad', a)" by (cases x)
  from Cons.prems(1) obtain l1 where l1: "genesis_account_log kc (ad', a) l0 = Inr l1"
    "rfold (genesis_account_log kc) alloc l1 = Inr l" by (auto simp: x rbind_Inr_iff)
  have n: "map_of alloc ad' = None" using Cons.prems(3) x by (simp add: map_of_None_keys)
  have "distinct (map fst alloc)" using Cons.prems(3) by simp
  from Cons.IH [OF l1(2) genesis_log_wf_step [OF l1(1) Cons.prems(2)] this]
  show ?case using genesis_step [OF l1(1)] n by (auto simp: x split: option.splits)
qed

text \<open>(C35)
  A store created on an empty datastore reads as the genesis block: the persisted height is 0
  with the genesis root, an account of the allocation has its nonce, balance, code hash and
  storage flag at version 1 and its slots, and every other account is blank at version 0.
\<close>

theorem new_store_genesis:
  assumes "ds_law api view" and "\<And>k. view db k = None"
    and "distinct (map fst alloc)" and "\<forall>(ad, a)\<in>set alloc. distinct (map fst (gaStorage a))"
    and "NewStateStore kc api (Some alloc) genesisRoot db = Inr db'"
  shows "view db' KPersisted = Some (VHeight 0 genesisRoot) \<and>
    (\<forall>ad. view_account kc (view db') ad =
       (case map_of alloc ad of Some a \<Rightarrow> genesis_av kc a | None \<Rightarrow> blank_account kc 0)) \<and>
    (\<forall>ad k. view_storage (view db') ad 1 k =
       (case map_of alloc ad of Some a \<Rightarrow> mget_or 0 (gaStorage a) k | None \<Rightarrow> 0)) \<and>
    gc_inv (view db')"
proof -
  let ?l0 = "\<lparr> BlockNumber = 0, RootHash = genesisRoot, UpdatedAccounts = [], UpdatedCodeCount = [],
         lCodePreimage = [], UpdatedStorage = [] \<rparr>"
  have get: "dsGet api db KPersisted = Inl ErrNotFound"
  proof (cases "dsGet api db KPersisted")
    case (Inr v)
    then show ?thesis using ds_lawD(1) [OF assms(1), of db KPersisted] assms(2) by simp
  next
    case (Inl e)
    then show ?thesis using assms(5) by (cases e) (simp_all add: NewStateStore_def)
  qed
  from assms(5) get obtain l b b1 b2 where s: "rfold (genesis_account_log kc) alloc ?l0 = Inr l"
    "NewTransaction api db = Inr b" "PersistLayerLog api db l b = Inr b1"
    "PutChildren api db (BlockNumber l) (RootHash l) [] b1 = Inr b2" "txnCommit api db b2 = Inr db'"
    by (cases "NewTransaction api db")
      (auto simp: NewStateStore_def LayerLogFromGenesis_def rbind_Inr_iff split: sum.splits)
  have b: "b = []" using s(2) by (simp add: NewTransaction_def split: option.splits)
  let ?c = "[BPut (KChildren (BlockNumber l) (RootHash l)) (VChildren [])]"
  have com: "txnCommit api db (b1 @ ?c) = Inr db'" using tput_Inr [OF s(4) [unfolded PutChildren_def]] s(5) by simp
  have wf0: "log_wf kc ?l0" by (simp add: log_wf_def log_distinct_def)
  note g = genesis_log [OF s(1) wf0 assms(3)]
  then have wf: "log_wf kc l" by blast
  have meta: "meta_ops b" "meta_ops ?c" using b by (simp_all add: meta_ops_def)
  note r = persist_reads [OF assms(1) wf s(3) com meta]
  have blank: "view_account kc (view db) ad = blank_account kc 0" "view_storage (view db) ad w k = 0" for ad w k
    using assms(2) by (simp_all add: view_account_def view_storage_def)
  have st: "map_of (fold (\<lambda>(k, v). mput k v) (gaStorage a) []) k = map_of (gaStorage a) k"
    if "map_of alloc ad = Some a" for ad a k
    using assms(4) map_of_SomeD [OF that] by (subst fold_mput) (auto split: option.split)
  have acc: "view_account kc (view db') ad =
       (case map_of alloc ad of Some a \<Rightarrow> genesis_av kc a | None \<Rightarrow> blank_account kc 0)" for ad
    using r(2) [of ad] g [of ad] by (simp add: blank genesis_av_def split: option.split)
  have slots: "view_storage (view db') ad 1 k =
       (case map_of alloc ad of Some a \<Rightarrow> mget_or 0 (gaStorage a) k | None \<Rightarrow> 0)" for ad k
    using r(3) [of ad 1 k] g [of ad 1] st [of ad]
    by (auto simp: blank mget_or_def split: option.splits if_splits)
  have "gc_inv (view db')"
    by (rule persist_gc [OF assms(1) _ _ _ s(3) com meta])
      (use wf assms(2) in \<open>auto simp: log_wf_def gc_inv_def log_forward_def view_version_def\<close>)
  then show ?thesis using r(1) g acc slots by simp
qed

definition demo_alloc :: "(address, genesis_account) gmap" where
  "demo_alloc = [(3, \<lparr> gaNonce = 1, gaBalance = 100, gaCode = [1, 2], gaStorage = [(5, 6)] \<rparr>),
                 (4, \<lparr> gaNonce = 0, gaBalance = 7, gaCode = [], gaStorage = [] \<rparr>)]"

lemma demo_genesis: "\<not> isl (NewStateStore hash7 mem_api (Some demo_alloc) 10 [])"
  by code_simp

theorem new_store_genesis_witness:
  "\<exists>db'. NewStateStore hash7 mem_api (Some demo_alloc) 10 [] = Inr db' \<and>
     Balance (view_account hash7 (map_of db') 4) = 7 \<and> view_storage (map_of db') 3 1 5 = 6"
proof -
  have d: "distinct (map fst demo_alloc)" "\<forall>(ad, a)\<in>set demo_alloc. distinct (map fst (gaStorage a))"
    by (simp_all add: demo_alloc_def)
  from new_store_genesis [OF mem_api_law _ d not_isl [OF demo_genesis]] not_isl [OF demo_genesis]
  show ?thesis by (auto simp: demo_alloc_def genesis_av_def mget_or_def)
qed

end
