(* ===== verification/Layers.thy ===== *)
theory Layers
  imports StoreGC MutableState
begin

section \<open>Layers of world states\<close>

text \<open>
  The model of \<open>worldstate/layeredstate_impl.go\<close>, \<open>persistedstate_impl.go\<close>,
  \<open>statearchive_impl.go\<close> and \<open>tempCommittedState.Commit\<close>. The persisted state is the root of a
  tree of layers, one per block on top of it; a layer holds its layer log, its caches and its
  children. A layer is named by its \<open>path\<close>: the root hashes of the layers from the first one
  above the persisted state down to it. The parent pointers are the positions in the tree, so
  a read that climbs to the parent goes through the \<open>route\<close>, the layers of the path with the
  nearest first. The archive's maps hold the keys; the layer a key registers is the one of
  that height and root in the tree.

  The LRU caches are a library: a cache is a map, and adding to it may evict other entries,
  which ones is a parameter (\<open>forgets\<close> in \<open>LayerLaws\<close>: eviction only forgets).
\<close>

datatype layer = Layer
  (lLog: layer_log)
  (cachedAccts: "(address, account_value) gmap")
  (cachedCode: "(hash, bytes) gmap")
  (cachedStorage: "(storage_key \<times> hash, hash) gmap")
  (lKids: "layer list")

type_synonym path = "hash list"
type_synonym route = "layer list"
type_synonym states = "(u64, (hash, unit) gmap) gmap"

record 'db lenv =
  leHash :: "bytes \<Rightarrow> hash"
  leApi :: "'db ds_api"
  leEvictA :: "(address, account_value) gmap \<Rightarrow> (address, account_value) gmap"
  leEvictC :: "(hash, bytes) gmap \<Rightarrow> (hash, bytes) gmap"
  leEvictS :: "(storage_key \<times> hash, hash) gmap \<Rightarrow> (storage_key \<times> hash, hash) gmap"

record 'db world =
  wDb :: 'db
  wHeight :: u64
  wRoot :: hash
  wKids :: "layer list"
  wStates :: states
  maxLayerToRetain :: u64
  pruningFrequency :: u64

abbreviation lRoot :: "layer \<Rightarrow> hash" where "lRoot l \<equiv> RootHash (lLog l)"
abbreviation lHeight :: "layer \<Rightarrow> u64" where "lHeight l \<equiv> BlockNumber (lLog l)"

subsection \<open>The archive\<close>

definition Register :: "u64 \<Rightarrow> hash \<Rightarrow> states \<Rightarrow> states" where
  "Register height root st = mput height (mput root () (mget_or [] st height)) st"

definition Deregister :: "u64 \<Rightarrow> hash \<Rightarrow> states \<Rightarrow> states" where
  "Deregister height root st =
     (case map_of st height of
        None \<Rightarrow> st
      | Some m \<Rightarrow>
          (let m' = mdel root m in if m' = [] then mdel height st else mput height m' st))"

definition Has :: "u64 \<Rightarrow> hash \<Rightarrow> states \<Rightarrow> bool" where
  "Has height root st = (case map_of st height of None \<Rightarrow> False | Some m \<Rightarrow> mhas m root)"

text \<open>The path of the first layer of that height and root, depth first.\<close>

fun find_path :: "u64 \<Rightarrow> hash \<Rightarrow> layer \<Rightarrow> path option" where
  "find_path h r (Layer l ca cc cs kids) =
     (if BlockNumber l = h \<and> RootHash l = r then Some [r]
      else map_option (\<lambda>p. RootHash l # p) (fold (\<lambda>x acc. case acc of Some p \<Rightarrow> Some p | None \<Rightarrow> x) (map (find_path h r) kids) None))"

definition GetLayared :: "u64 \<Rightarrow> hash \<Rightarrow> 'db world \<Rightarrow> path option" where
  "GetLayared height root w =
     (if \<not> Has height root (wStates w) then None
      else if height = wHeight w \<and> root = wRoot w then Some []
      else fold (\<lambda>x acc. case acc of Some p \<Rightarrow> Some p | None \<Rightarrow> x) (map (find_path height root) (wKids w)) None)"

text \<open>The layers of a path, nearest first.\<close>

fun route_of :: "layer list \<Rightarrow> path \<Rightarrow> route option" where
  "route_of kids [] = Some []"
| "route_of kids (r # p) =
     (case find (\<lambda>l. lRoot l = r) kids of
        None \<Rightarrow> None
      | Some l \<Rightarrow> map_option (\<lambda>up. up @ [l]) (route_of (lKids l) p))"

text \<open>The operator's commands of the admin API.\<close>

definition SetMaxLayerToRetain :: "u64 \<Rightarrow> 'db world \<Rightarrow> 'db world" where
  "SetMaxLayerToRetain n w = w\<lparr>maxLayerToRetain := n\<rparr>"

definition SetPruningFrequency :: "u64 \<Rightarrow> 'db world \<Rightarrow> 'db world" where
  "SetPruningFrequency n w = w\<lparr>pruningFrequency := n\<rparr>"

subsection \<open>Reads\<close>

text \<open>The zero \<open>AccountValue{}\<close> the persisted state answers when the store fails.\<close>

definition zero_account :: account_value where
  "zero_account = \<lparr> Nonce = 0, Balance = 0, CodeHash = 0, DirtyStorage = False, Version = 0 \<rparr>"

definition pGetAccountValue :: "'db lenv \<Rightarrow> 'db \<Rightarrow> address \<Rightarrow> account_value" where
  "pGetAccountValue env db ad =
     (case ssGetAccountValue (leHash env) (leApi env) db ad of Inr v \<Rightarrow> v | Inl e \<Rightarrow> zero_account)"

definition pGetCodeByHash :: "'db lenv \<Rightarrow> 'db \<Rightarrow> hash \<Rightarrow> bytes" where
  "pGetCodeByHash env db h =
     (case ssGetCodeByHash (leApi env) db h of Inr c \<Rightarrow> c | Inl e \<Rightarrow> [])"

definition pGetStorageByVersion :: "'db lenv \<Rightarrow> 'db \<Rightarrow> address \<Rightarrow> u64 \<Rightarrow> hash \<Rightarrow> hash" where
  "pGetStorageByVersion env db ad ver k =
     (case ssGetStorageByVersion (leApi env) db ad ver k of Inr x \<Rightarrow> x | Inl e \<Rightarrow> 0)"

fun lookAccount :: "'db lenv \<Rightarrow> 'db \<Rightarrow> route \<Rightarrow> address \<Rightarrow> account_value" where
  "lookAccount env db [] ad = pGetAccountValue env db ad"
| "lookAccount env db (l # up) ad =
     (case map_of (UpdatedAccounts (lLog l)) ad of
        Some v \<Rightarrow> v
      | None \<Rightarrow> (case map_of (cachedAccts l) ad of Some v \<Rightarrow> v | None \<Rightarrow> lookAccount env db up ad))"

fun lookCode :: "'db lenv \<Rightarrow> 'db \<Rightarrow> route \<Rightarrow> hash \<Rightarrow> bytes" where
  "lookCode env db [] h = pGetCodeByHash env db h"
| "lookCode env db (l # up) h =
     (case map_of (lCodePreimage (lLog l)) h of
        Some c \<Rightarrow> c
      | None \<Rightarrow> (case map_of (cachedCode l) h of Some c \<Rightarrow> c | None \<Rightarrow> lookCode env db up h))"

text \<open>\<open>storage, ok := UpdatedStorage[accountKey]; val, ok := storage[key]\<close>: the slot of a log.\<close>

definition log_slot :: "layer_log \<Rightarrow> address \<Rightarrow> u64 \<Rightarrow> hash \<Rightarrow> hash option" where
  "log_slot l ad ver k =
     (case map_of (UpdatedStorage l) (ad, ver) of Some st \<Rightarrow> map_of st k | None \<Rightarrow> None)"

fun lookStorage :: "'db lenv \<Rightarrow> 'db \<Rightarrow> route \<Rightarrow> address \<Rightarrow> u64 \<Rightarrow> hash \<Rightarrow> hash" where
  "lookStorage env db [] ad ver k = pGetStorageByVersion env db ad ver k"
| "lookStorage env db (l # up) ad ver k =
     (case log_slot (lLog l) ad ver k of
        Some x \<Rightarrow> x
      | None \<Rightarrow> (case map_of (cachedStorage l) ((ad, ver), k) of
           Some x \<Rightarrow> x | None \<Rightarrow> lookStorage env db up ad ver k))"

text \<open>
  The methods, with their effect on the layer's own cache: a parent is asked without
  \<open>requireCache\<close>, so only the layer the call was made on remembers the answer.
\<close>

definition lGetAccountValue ::
  "'db lenv \<Rightarrow> 'db \<Rightarrow> route \<Rightarrow> address \<Rightarrow> bool \<Rightarrow> account_value \<times> route"
where
  "lGetAccountValue env db rt ad requireCache =
     (let v = lookAccount env db rt ad
      in (v, case rt of
          [] \<Rightarrow> []
        | Layer l ca cc cs kids # up \<Rightarrow>
            if requireCache \<and> map_of (UpdatedAccounts l) ad = None \<and> map_of ca ad = None
            then Layer l (leEvictA env (mput ad v ca)) cc cs kids # up else rt))"

definition lGetCodeByHash :: "'db lenv \<Rightarrow> 'db \<Rightarrow> route \<Rightarrow> hash \<Rightarrow> bool \<Rightarrow> bytes \<times> route" where
  "lGetCodeByHash env db rt h requireCache =
     (let c = lookCode env db rt h
      in (c, case rt of
          [] \<Rightarrow> []
        | Layer l ca cc cs kids # up \<Rightarrow>
            if requireCache \<and> map_of (lCodePreimage l) h = None \<and> map_of cc h = None
            then Layer l ca (leEvictC env (mput h c cc)) cs kids # up else rt))"

definition lGetStorageByVersion ::
  "'db lenv \<Rightarrow> 'db \<Rightarrow> route \<Rightarrow> address \<Rightarrow> u64 \<Rightarrow> hash \<Rightarrow> bool \<Rightarrow> hash \<times> route"
where
  "lGetStorageByVersion env db rt ad ver k requireCache =
     (let x = lookStorage env db rt ad ver k
      in (x, case rt of
          [] \<Rightarrow> []
        | Layer l ca cc cs kids # up \<Rightarrow>
            if requireCache \<and> log_slot l ad ver k = None \<and> map_of cs ((ad, ver), k) = None
            then Layer l ca cc (leEvictS env (mput ((ad, ver), k) x cs)) kids # up else rt))"

text \<open>The parent layer as accounts and transaction states see it.\<close>

definition layer_view :: "'db lenv \<Rightarrow> 'db \<Rightarrow> route \<Rightarrow> parent_view" where
  "layer_view env db rt =
     \<lparr> pvAccount = lookAccount env db rt, pvCode = lookCode env db rt, pvStorage = lookStorage env db rt \<rparr>"

text \<open>\<open>GetMutable\<close> and \<open>GetReadOnly\<close> of a layer; \<open>height\<close> is that of the layer.\<close>

definition lGetMutable :: "(u64 \<Rightarrow> bool) \<Rightarrow> 'db lenv \<Rightarrow> 'db world \<Rightarrow> path \<Rightarrow> mutable_state option" where
  "lGetMutable cfg env w p =
     map_option (\<lambda>rt. newMutableWorldState cfg (layer_view env (wDb w) rt)
         ((case rt of [] \<Rightarrow> wHeight w | l # up \<Rightarrow> lHeight l) + 1) None)
       (route_of (wKids w) p)"

definition lGetReadOnly :: "(u64 \<Rightarrow> bool) \<Rightarrow> 'db lenv \<Rightarrow> 'db world \<Rightarrow> path \<Rightarrow> mutable_state option" where
  "lGetReadOnly cfg env w p =
     map_option (\<lambda>rt. newMutableWorldState cfg (layer_view env (wDb w) rt)
         (case rt of [] \<Rightarrow> wHeight w | l # up \<Rightarrow> lHeight l) None)
       (route_of (wKids w) p)"

text \<open>\<open>GetMutable\<close> of the archive.\<close>

definition aGetMutable :: "(u64 \<Rightarrow> bool) \<Rightarrow> 'db lenv \<Rightarrow> 'db world \<Rightarrow> u64 \<Rightarrow> hash \<Rightarrow> mutable_state option" where
  "aGetMutable cfg env w height root =
     (case GetLayared height root w of None \<Rightarrow> None | Some p \<Rightarrow> lGetMutable cfg env w p)"

subsection \<open>Writing children, destruction\<close>

definition write_children :: "'db lenv \<Rightarrow> u64 \<Rightarrow> hash \<Rightarrow> layer list \<Rightarrow> 'db \<Rightarrow> 'db" where
  "write_children env height root kids db =
     (case rbind (NewTransaction (leApi env) db)
         (\<lambda>b. rbind (PutChildren (leApi env) db height root (map lRoot kids) b) (txnCommit (leApi env) db)) of
        Inr db' \<Rightarrow> db' | Inl e \<Rightarrow> db)"

text \<open>\<open>Destruct\<close>: the children first; a failing transaction leaves the layer registered.\<close>

definition destruct_self :: "'db lenv \<Rightarrow> u64 \<Rightarrow> hash \<Rightarrow> 'db \<times> states \<Rightarrow> 'db \<times> states" where
  "destruct_self env height root = (\<lambda>(db, st).
     case rbind (NewTransaction (leApi env) db)
         (\<lambda>b. rbind (DeleteChildren (leApi env) db height root b)
           (\<lambda>b. rbind (DeleteLayerLog (leApi env) db height root b) (txnCommit (leApi env) db))) of
       Inr db' \<Rightarrow> (db', Deregister height root st)
     | Inl e \<Rightarrow> (db, st))"

fun Destruct :: "'db lenv \<Rightarrow> layer \<Rightarrow> 'db \<times> states \<Rightarrow> 'db \<times> states" where
  "Destruct env (Layer l ca cc cs kids) s =
     destruct_self env (BlockNumber l) (RootHash l) (fold (Destruct env) kids s)"

text \<open>The tree with the children of the layer at a path changed.\<close>

fun upd_kids :: "(layer list \<Rightarrow> layer list) \<Rightarrow> path \<Rightarrow> layer list \<Rightarrow> layer list" where
  "upd_kids f [] kids = f kids"
| "upd_kids f (r # p) [] = []"
| "upd_kids f (r # p) (Layer l ca cc cs ks # kids) =
     (if RootHash l = r then Layer l ca cc cs (upd_kids f p ks) # kids
      else Layer l ca cc cs ks # upd_kids f (r # p) kids)"

fun remove_child :: "hash \<Rightarrow> layer list \<Rightarrow> layer list" where
  "remove_child r [] = []"
| "remove_child r (l # kids) = (if lRoot l = r then kids else l # remove_child r kids)"

text \<open>Height, root and children of the layer at a path; the empty path is the persisted state.\<close>

definition layer_at :: "'db world \<Rightarrow> path \<Rightarrow> (u64 \<times> hash \<times> layer list) option" where
  "layer_at w p =
     (case route_of (wKids w) p of
        None \<Rightarrow> None
      | Some [] \<Rightarrow> Some (wHeight w, wRoot w, wKids w)
      | Some (l # up) \<Rightarrow> Some (lHeight l, lRoot l, lKids l))"

definition DestructChild :: "'db lenv \<Rightarrow> path \<Rightarrow> hash \<Rightarrow> 'db world \<Rightarrow> 'db world" where
  "DestructChild env p child w =
     (case layer_at w p of
        None \<Rightarrow> w
      | Some (height, root, kids) \<Rightarrow>
          (case find (\<lambda>l. lRoot l = child) kids of
             None \<Rightarrow> w
           | Some l \<Rightarrow>
               (let (db, st) = Destruct env l (wDb w, wStates w);
                    kids' = remove_child child kids
                in w\<lparr>wDb := write_children env height root kids' db, wStates := st,
                     wKids := upd_kids (remove_child child) p (wKids w)\<rparr>)))"

definition AddChild :: "'db lenv \<Rightarrow> path \<Rightarrow> layer \<Rightarrow> 'db world \<Rightarrow> 'db world" where
  "AddChild env p child w =
     (case layer_at w p of
        None \<Rightarrow> w
      | Some (height, root, kids) \<Rightarrow>
          w\<lparr>wDb := write_children env height root (kids @ [child]) (wDb w),
            wKids := upd_kids (\<lambda>ks. ks @ [child]) p (wKids w)\<rparr>)"

subsection \<open>Loading layers from the store\<close>

fun load_kids ::
  "(hash \<Rightarrow> states \<Rightarrow> (store_err + layer) \<times> states) \<Rightarrow> hash list \<Rightarrow> states \<Rightarrow>
   (store_err + layer list) \<times> states"
where
  "load_kids f [] st = (Inr [], st)"
| "load_kids f (c # cs) st =
     (case f c st of
        (Inl e, st1) \<Rightarrow> (Inl e, st1)
      | (Inr k, st1) \<Rightarrow>
          (case load_kids f cs st1 of
             (Inl e, st2) \<Rightarrow> (Inl e, st2)
           | (Inr ks, st2) \<Rightarrow> (Inr (k # ks), st2)))"

text \<open>
  \<open>newLayeredWorldState\<close> loads the children it finds recursively, one height up each time;
  the fuel is the number of heights it may climb (\<open>restart_rebuilds\<close> shows what is enough).
\<close>

fun newLayered :: "'db ds_api \<Rightarrow> nat \<Rightarrow> 'db \<Rightarrow> u64 \<Rightarrow> hash \<Rightarrow> states \<Rightarrow> (store_err + layer) \<times> states" where
  "newLayered api 0 db height root st = (Inl OutOfFuel, st)"
| "newLayered api (Suc n) db height root st =
     (case GetLayerLog api db height root of
        Inl e \<Rightarrow> (Inl e, st)
      | Inr l \<Rightarrow>
          (let st1 = Register height root st
           in case StateStore.GetChildren api db height root of
                Inl e \<Rightarrow> (Inl e, st1)
              | Inr hashes \<Rightarrow>
                  (case load_kids (newLayered api n db (height + 1)) hashes st1 of
                     (Inl e, st2) \<Rightarrow> (Inl e, st2)
                   | (Inr ks, st2) \<Rightarrow> (Inr (Layer l [] [] [] ks), st2))))"

text \<open>\<open>newPersistedWorldState\<close> and \<open>NewLayeredWorldStateArchiveImpl\<close>: the world after a start.\<close>

definition NewArchive :: "'db ds_api \<Rightarrow> nat \<Rightarrow> u64 \<Rightarrow> u64 \<Rightarrow> 'db \<Rightarrow> store_err + 'db world" where
  "NewArchive api fuel maxLayer frequency db =
     rbind (GetPersistedHeight api db) (\<lambda>(height, root).
       rbind (StateStore.GetChildren api db height root) (\<lambda>hashes.
         case load_kids (newLayered api fuel db (height + 1)) hashes (Register height root []) of
           (Inl e, st) \<Rightarrow> Inl e
         | (Inr ks, st) \<Rightarrow>
             Inr \<lparr> wDb = db, wHeight = height, wRoot = root, wKids = ks, wStates = st,
                   maxLayerToRetain = maxLayer, pruningFrequency = frequency \<rparr>))"

subsection \<open>Pruning\<close>

text \<open>
  The length is compared as an \<open>int\<close> with \<open>int(maxLayerToRetain)\<close>. A frequency beyond the
  length of the route is the slice panic (Go allows it up to the capacity of the slice).
\<close>

definition getToBePruned :: "'db world \<Rightarrow> path \<Rightarrow> panic + path" where
  "getToBePruned w pruningRoute =
     (if int (length pruningRoute) \<le> sint (maxLayerToRetain w) then Inr []
      else if unat (pruningFrequency w) \<le> length pruningRoute
           then Inr (take (unat (pruningFrequency w)) pruningRoute)
      else Inl SliceOutOfRange)"

definition pruneOne :: "'db lenv \<Rightarrow> hash \<Rightarrow> 'db world \<Rightarrow> (store_err + unit) \<times> 'db world" where
  "pruneOne env childHash w =
     (case find (\<lambda>l. lRoot l = childHash) (wKids w) of
        None \<Rightarrow> (Inl ErrNoChild, w)
      | Some child \<Rightarrow>
          (let st1 = Deregister (wHeight w) (wRoot w) (wStates w);
               (db, st) = fold (\<lambda>c s. if lRoot c \<noteq> lRoot child then Destruct env c s else s)
                            (wKids w) (wDb w, st1)
           in case rbind (NewTransaction (leApi env) db)
                (\<lambda>b. rbind (DeleteChildren (leApi env) db (wHeight w) (wRoot w) b)
                  (\<lambda>b. rbind (DeleteLayerLog (leApi env) db (wHeight w + 1) (lRoot child) b)
                    (\<lambda>b. rbind (PersistLayerLog (leApi env) db (lLog child) b)
                      (txnCommit (leApi env) db)))) of
                Inl e \<Rightarrow> (Inl e, w\<lparr>wDb := db, wStates := st\<rparr>)
              | Inr db' \<Rightarrow>
                  (Inr (), w\<lparr>wDb := db', wKids := lKids child, wRoot := lRoot child,
                             wHeight := lHeight child,
                             wStates := Register (lHeight child) (lRoot child) st\<rparr>)))"

fun pruneAll :: "'db lenv \<Rightarrow> path \<Rightarrow> 'db world \<Rightarrow> panic + 'db world" where
  "pruneAll env [] w = Inr w"
| "pruneAll env (r # rs) w =
     (case pruneOne env r w of
        (Inr u, w') \<Rightarrow> pruneAll env rs w'
      | (Inl (PanicStore p), w') \<Rightarrow> Inl p
      | (Inl e, w') \<Rightarrow> Inr w')"

text \<open>\<open>HandlePrune\<close> climbs from the layer to the persisted state and collects its path.\<close>

definition HandlePrune :: "'db lenv \<Rightarrow> path \<Rightarrow> 'db world \<Rightarrow> panic + 'db world" where
  "HandlePrune env p w = rbind (getToBePruned w p) (\<lambda>rs. pruneAll env rs w)"

subsection \<open>Committing a block\<close>

definition trim_counts :: "(bytes \<Rightarrow> hash) \<Rightarrow> (hash, int) gmap \<Rightarrow> (hash, int) gmap" where
  "trim_counts kc m = filter (\<lambda>(h, d). h \<noteq> EmptyCodeHash kc \<and> d \<noteq> 0) m"

definition commit_log :: "(bytes \<Rightarrow> hash) \<Rightarrow> temp_committed \<Rightarrow> u64 \<Rightarrow> hash \<Rightarrow> layer_log" where
  "commit_log kc tc block rootHash =
     \<lparr> BlockNumber = block, RootHash = rootHash, UpdatedAccounts = CommittedAccounts tc,
       UpdatedCodeCount = trim_counts kc (CommittedCodeCount tc), lCodePreimage = CodePreimage tc,
       UpdatedStorage = CommittedStorage tc \<rparr>"

text \<open>
  \<open>tempCommittedState.Commit\<close> on the layer at path \<open>p\<close>. An error after the new layer has been
  registered leaves it registered, so the world is part of every result.
\<close>

definition wCommit ::
  "'db lenv \<Rightarrow> nat \<Rightarrow> temp_committed \<Rightarrow> path \<Rightarrow> u64 \<Rightarrow> hash \<Rightarrow> 'db world \<Rightarrow> (store_err + hash) \<times> 'db world"
where
  "wCommit env fuel tc p block rootHash w =
     (if committed tc then (Inl ErrCommitted, w)
      else if block \<noteq> tnewHeight tc then (Inl ErrHeight, w)
      else if Has block rootHash (wStates w) then (Inl ErrAlready, w)
      else
        (case rbind (NewTransaction (leApi env) (wDb w))
            (\<lambda>b. rbind (PutChildren (leApi env) (wDb w) block rootHash [] b)
              (\<lambda>b. rbind (PutLayerLog (leApi env) (wDb w) (commit_log (leHash env) tc block rootHash) b)
                (txnCommit (leApi env) (wDb w)))) of
           Inl e \<Rightarrow> (Inl e, w)
         | Inr db \<Rightarrow>
             (case newLayered (leApi env) fuel db block rootHash (wStates w) of
                (Inl e, st) \<Rightarrow> (Inl e, w\<lparr>wDb := db, wStates := st\<rparr>)
              | (Inr l, st) \<Rightarrow>
                  (let w1 = AddChild env p l (w\<lparr>wDb := db, wStates := st\<rparr>)
                   in case HandlePrune env (p @ [rootHash]) w1 of
                        Inl e \<Rightarrow> (Inl (PanicStore e), w1)
                      | Inr w2 \<Rightarrow> (Inr rootHash, w2)))))"

end
