(* ===== verification/LayerLaws.thy ===== *)
theory LayerLaws
  imports Layers
begin

section \<open>Laws of the layers\<close>

text \<open>
  What a block sees of the chain of layers under it. The specification of a read ignores the
  caches (\<open>specAccount\<close>, \<open>specStorage\<close>): the nearest layer whose log has the entry, else the
  store. The lemmas show that the code's reads give exactly that and keep the caches right,
  and that pruning, which moves the log of a layer into the store and destroys its siblings,
  changes no read of a surviving layer.
\<close>

subsection \<open>Specification of the reads\<close>

fun specAccount :: "(bytes \<Rightarrow> hash) \<Rightarrow> dsview \<Rightarrow> route \<Rightarrow> address \<Rightarrow> account_value" where
  "specAccount kc f [] ad = view_account kc f ad"
| "specAccount kc f (l # up) ad =
     (case map_of (UpdatedAccounts (lLog l)) ad of Some v \<Rightarrow> v | None \<Rightarrow> specAccount kc f up ad)"

fun specStorage :: "dsview \<Rightarrow> route \<Rightarrow> address \<Rightarrow> u64 \<Rightarrow> hash \<Rightarrow> hash" where
  "specStorage f [] ad ver k = view_storage f ad ver k"
| "specStorage f (l # up) ad ver k =
     (case log_slot (lLog l) ad ver k of Some x \<Rightarrow> x | None \<Rightarrow> specStorage f up ad ver k)"

text \<open>The caches of a route hold what the specification says; cached code hashes to its key.\<close>

fun route_ok :: "(bytes \<Rightarrow> hash) \<Rightarrow> dsview \<Rightarrow> route \<Rightarrow> bool" where
  "route_ok kc f [] = True"
| "route_ok kc f (l # up) =
     ((\<forall>ad v. map_of (cachedAccts l) ad = Some v \<longrightarrow> v = specAccount kc f up ad) \<and>
      (\<forall>ad ver k x. map_of (cachedStorage l) ((ad, ver), k) = Some x \<longrightarrow> x = specStorage f up ad ver k) \<and>
      (\<forall>h c. map_of (cachedCode l) h = Some c \<longrightarrow> c = [] \<or> kc c = h) \<and>
      (\<forall>h c. map_of (lCodePreimage (lLog l)) h = Some c \<longrightarrow> kc c = h) \<and>
      route_ok kc f up)"

text \<open>A datastore that does not fail, and values of the type of their key.\<close>

definition ds_reliable :: "'db ds_api \<Rightarrow> ('db \<Rightarrow> dsview) \<Rightarrow> bool" where
  "ds_reliable api view =
     (ds_law api view \<and>
      (\<forall>db k. dsGet api db k = (case view db k of Some v \<Rightarrow> Inr v | None \<Rightarrow> Inl ErrNotFound)) \<and>
      (\<forall>db. dsBatch api db = None) \<and> (\<forall>db k. dsQueue api db k = None) \<and>
      (\<forall>db b. \<exists>db'. dsCommit api db b = Inr db'))"

definition typed :: "(bytes \<Rightarrow> hash) \<Rightarrow> dsview \<Rightarrow> bool" where
  "typed kc f =
     (\<forall>a w k h x. (f (KAccount a) = Some x \<longrightarrow> (\<exists>v. x = VAccount v)) \<and>
        (f (KVersion a) = Some x \<longrightarrow> (\<exists>v. x = VVersion v)) \<and>
        (f (KStorage a w k) = Some x \<longrightarrow> (\<exists>v. x = VHash v)) \<and>
        (f (KCode h) = Some x \<longrightarrow> (\<exists>c n. x = VCode c n \<and> kc c = h)))"

lemma ds_reliableD:
  assumes "ds_reliable api view"
  shows "ds_law api view" "dsGet api db k = (case view db k of Some v \<Rightarrow> Inr v | None \<Rightarrow> Inl ErrNotFound)"
    "NewTransaction api db = Inr []" "queue api db k op b = Inr (b @ [op])"
    "\<exists>db'. txnCommit api db b = Inr db'"
  using assms by (simp_all add: ds_reliable_def NewTransaction_def queue_def txnCommit_def)

lemma typedD:
  assumes "typed kc f"
  shows "f (KAccount a) = Some x \<Longrightarrow> \<exists>v. x = VAccount v" "f (KVersion a) = Some x \<Longrightarrow> \<exists>v. x = VVersion v"
    "f (KStorage a w k) = Some x \<Longrightarrow> \<exists>v. x = VHash v" "f (KCode h) = Some x \<Longrightarrow> \<exists>c n. x = VCode c n \<and> kc c = h"
  using assms unfolding typed_def by blast+

lemma persisted_reads:
  assumes rel: "ds_reliable (leApi env) view" and ty: "typed (leHash env) (view db)"
  shows "pGetAccountValue env db ad = view_account (leHash env) (view db) ad"
    and "pGetStorageByVersion env db ad w k = view_storage (view db) ad w k"
    and "pGetCodeByHash env db h = [] \<or> leHash env (pGetCodeByHash env db h) = h"
proof -
  note g = ds_reliableD(2) [OF rel]
  show "pGetAccountValue env db ad = view_account (leHash env) (view db) ad"
    using typedD(1) [OF ty, of ad] typedD(2) [OF ty, of ad]
    by (fastforce simp: pGetAccountValue_def ssGetAccountValue_def view_account_def g split: option.split)
  show "pGetStorageByVersion env db ad w k = view_storage (view db) ad w k"
    using typedD(3) [OF ty, of ad w k]
    by (fastforce simp: pGetStorageByVersion_def ssGetStorageByVersion_def view_storage_def g split: option.split)
  show "pGetCodeByHash env db h = [] \<or> leHash env (pGetCodeByHash env db h) = h"
    using typedD(4) [OF ty, of h]
    by (fastforce simp: pGetCodeByHash_def ssGetCodeByHash_def g split: option.split)
qed

text \<open>The code's reads are the specified ones.\<close>

lemma look_spec:
  assumes rel: "ds_reliable (leApi env) view" and ty: "typed (leHash env) (view db)"
  shows "route_ok (leHash env) (view db) rt \<Longrightarrow> lookAccount env db rt ad = specAccount (leHash env) (view db) rt ad"
    and "route_ok (leHash env) (view db) rt \<Longrightarrow> lookStorage env db rt ad w k = specStorage (view db) rt ad w k"
    and "route_ok (leHash env) (view db) rt \<Longrightarrow> lookCode env db rt h = [] \<or> leHash env (lookCode env db rt h) = h"
proof (induction rt)
  case Nil
  { case 1 show ?case by (simp add: persisted_reads [OF rel ty])
  next case 2 show ?case by (simp add: persisted_reads [OF rel ty])
  next case 3 show ?case using persisted_reads(3) [OF rel ty] by simp }
next
  case (Cons l up)
  { case 1 then show ?case using Cons.IH(1) by (auto split: option.split)
  next case 2 then show ?case using Cons.IH(2) by (auto split: option.split)
  next case 3 then show ?case using Cons.IH(3) by (auto split: option.split) }
qed

definition forgets :: "(('k, 'v) gmap \<Rightarrow> ('k, 'v) gmap) \<Rightarrow> bool" where
  "forgets ev = (\<forall>c k v. map_of (ev c) k = Some v \<longrightarrow> map_of c k = Some v)"

lemma forgets_mput:
  "forgets ev \<Longrightarrow> map_of (ev (mput k v c)) x = Some y \<Longrightarrow> x = k \<and> y = v \<or> map_of c x = Some y"
  unfolding forgets_def by (metis map_of_mput option.inject)

lemma cache_account_ok:
  assumes ok: "route_ok kc f rt" and ev: "forgets (leEvictA env)"
    and v: "lookAccount env db rt ad = specAccount kc f rt ad"
  shows "route_ok kc f (snd (lGetAccountValue env db rt ad rc))"
proof (cases rt)
  case Nil
  then show ?thesis by (simp add: lGetAccountValue_def)
next
  case (Cons l up)
  obtain ll ca cc cs ks where l: "l = Layer ll ca cc cs ks" by (cases l)
  show ?thesis
  proof (cases "rc \<and> map_of (UpdatedAccounts ll) ad = None \<and> map_of ca ad = None")
    case False
    then have "snd (lGetAccountValue env db rt ad rc) = rt"
      by (auto simp: lGetAccountValue_def Let_def Cons l)
    then show ?thesis using ok by simp
  next
    case True
    then have r: "snd (lGetAccountValue env db rt ad rc) =
        Layer ll (leEvictA env (mput ad (lookAccount env db rt ad) ca)) cc cs ks # up"
      by (simp add: lGetAccountValue_def Let_def Cons l)
    have "y = specAccount kc f up x"
      if "map_of (leEvictA env (mput ad (lookAccount env db rt ad) ca)) x = Some y" for x y
      using forgets_mput [OF ev that] v True ok by (auto simp: Cons l)
    with ok show ?thesis unfolding r by (simp add: Cons l)
  qed
qed

lemma cache_storage_ok:
  assumes ok: "route_ok kc f rt" and ev: "forgets (leEvictS env)"
    and v: "lookStorage env db rt ad w k = specStorage f rt ad w k"
  shows "route_ok kc f (snd (lGetStorageByVersion env db rt ad w k rc))"
proof (cases rt)
  case Nil
  then show ?thesis by (simp add: lGetStorageByVersion_def)
next
  case (Cons l up)
  obtain ll ca cc cs ks where l: "l = Layer ll ca cc cs ks" by (cases l)
  show ?thesis
  proof (cases "rc \<and> log_slot ll ad w k = None \<and> map_of cs ((ad, w), k) = None")
    case False
    then have "snd (lGetStorageByVersion env db rt ad w k rc) = rt"
      by (auto simp: lGetStorageByVersion_def Let_def Cons l)
    then show ?thesis using ok by simp
  next
    case True
    then have r: "snd (lGetStorageByVersion env db rt ad w k rc) =
        Layer ll ca cc (leEvictS env (mput ((ad, w), k) (lookStorage env db rt ad w k) cs)) ks # up"
      by (simp add: lGetStorageByVersion_def Let_def Cons l)
    have "y = specStorage f up a v' x"
      if "map_of (leEvictS env (mput ((ad, w), k) (lookStorage env db rt ad w k) cs)) ((a, v'), x) = Some y" for a v' x y
      using forgets_mput [OF ev that] v True ok by (auto simp: Cons l)
    with ok show ?thesis unfolding r by (simp add: Cons l)
  qed
qed

lemma cache_code_ok:
  assumes ok: "route_ok kc f rt" and ev: "forgets (leEvictC env)"
    and v: "lookCode env db rt h = [] \<or> kc (lookCode env db rt h) = h"
  shows "route_ok kc f (snd (lGetCodeByHash env db rt h rc))"
proof (cases rt)
  case Nil
  then show ?thesis by (simp add: lGetCodeByHash_def)
next
  case (Cons l up)
  obtain ll ca cc cs ks where l: "l = Layer ll ca cc cs ks" by (cases l)
  show ?thesis
  proof (cases "rc \<and> map_of (lCodePreimage ll) h = None \<and> map_of cc h = None")
    case False
    then have "snd (lGetCodeByHash env db rt h rc) = rt"
      by (auto simp: lGetCodeByHash_def Let_def Cons l)
    then show ?thesis using ok by simp
  next
    case True
    then have r: "snd (lGetCodeByHash env db rt h rc) =
        Layer ll ca (leEvictC env (mput h (lookCode env db rt h) cc)) cs ks # up"
      by (simp add: lGetCodeByHash_def Let_def Cons l)
    have "y = [] \<or> kc y = x"
      if "map_of (leEvictC env (mput h (lookCode env db rt h) cc)) x = Some y" for x y
      using forgets_mput [OF ev that] v ok by (auto simp: Cons l)
    with ok show ?thesis unfolding r by (simp add: Cons l)
  qed
qed


subsection \<open>Destruction touches no account\<close>

lemma delete_both:
  "DeleteChildren api db h r b = Inr b1 \<Longrightarrow> DeleteLayerLog api db h' r' b1 = Inr b2 \<Longrightarrow>
   b2 = b @ [BDelete (KChildren h r), BDelete (KLayerLog h' r')]"
  by (auto simp: DeleteChildren_def DeleteLayerLog_def dest!: tdel_Inr)

lemma new_transaction: "NewTransaction api db = Inr b \<Longrightarrow> b = []"
  by (simp add: NewTransaction_def split: option.splits)

lemma destruct_self_view:
  assumes "ds_law (leApi env) view" and "\<not> meta_key k"
  shows "view (fst (destruct_self env h r s)) k = view (fst s) k"
proof -
  obtain db st where s: "s = (db, st)" by (cases s)
  show ?thesis
  proof (cases "rbind (NewTransaction (leApi env) db)
         (\<lambda>b. rbind (DeleteChildren (leApi env) db h r b)
           (\<lambda>b. rbind (DeleteLayerLog (leApi env) db h r b) (txnCommit (leApi env) db)))")
    case (Inl e)
    then show ?thesis by (simp add: destruct_self_def s)
  next
    case (Inr db')
    then obtain b b1 b2 where b: "NewTransaction (leApi env) db = Inr b" "DeleteChildren (leApi env) db h r b = Inr b1"
      "DeleteLayerLog (leApi env) db h r b1 = Inr b2" "txnCommit (leApi env) db b2 = Inr db'"
      by (auto simp: rbind_Inr_iff)
    have "meta_ops b2"
      using delete_both [OF b(2,3)] new_transaction [OF b(1)] by (simp add: meta_ops_def)
    then have "view db' k = view db k"
      using ds_lawD(3) [OF assms(1) b(4) [unfolded txnCommit_def]] fold_meta assms(2) by simp
    then show ?thesis using Inr by (simp add: destruct_self_def s)
  qed
qed

lemma Destruct_view:
  assumes law: "ds_law (leApi env) view" and k: "\<not> meta_key k"
  shows "view (fst (Destruct env l s)) k = view (fst s) k"
proof (induction l arbitrary: s)
  case (Layer l ca cc cs kids)
  have "view (fst (fold (Destruct env) kids s)) k = view (fst s) k"
    using Layer.IH by (induction kids arbitrary: s) auto
  then show ?case by (simp add: destruct_self_view [OF law k])
qed

subsection \<open>Pruning\<close>

text \<open>
  The log of the layer above the persisted state fits the store: well-formed, and what it says
  of accounts that never existed is what the store says.
\<close>

definition log_fits :: "(bytes \<Rightarrow> hash) \<Rightarrow> dsview \<Rightarrow> layer_log \<Rightarrow> bool" where
  "log_fits kc f l =
     (log_wf kc l \<and> (\<forall>(ad, v)\<in>set (UpdatedAccounts l). Version v = 0 \<longrightarrow> v = view_account kc f ad))"

lemma pruneOneE:
  assumes "pruneOne env r w = (Inr u, w')"
  obtains c db st b b' where "find (\<lambda>l. lRoot l = r) (wKids w) = Some c"
    "(db, st) = fold (\<lambda>x s. if lRoot x \<noteq> lRoot c then Destruct env x s else s)
        (wKids w) (wDb w, Deregister (wHeight w) (wRoot w) (wStates w))"
    "meta_ops b" "PersistLayerLog (leApi env) db (lLog c) b = Inr b'"
    "b = [BDelete (KChildren (wHeight w) (wRoot w)), BDelete (KLayerLog (wHeight w + 1) (lRoot c))]"
    "txnCommit (leApi env) db b' = Inr (wDb w')" "wKids w' = lKids c" "wRoot w' = lRoot c"
    "wHeight w' = lHeight c" "wStates w' = Register (lHeight c) (lRoot c) st"
    "maxLayerToRetain w' = maxLayerToRetain w" "pruningFrequency w' = pruningFrequency w"
proof -
  have "find (\<lambda>l. lRoot l = r) (wKids w) \<noteq> None"
  proof
    assume "find (\<lambda>l. lRoot l = r) (wKids w) = None"
    then show False using assms by (simp add: pruneOne_def)
  qed
  then obtain c where c: "find (\<lambda>l. lRoot l = r) (wKids w) = Some c" by blast
  obtain db st where f': "fold (\<lambda>x s. if lRoot x \<noteq> lRoot c then Destruct env x s else s)
        (wKids w) (wDb w, Deregister (wHeight w) (wRoot w) (wStates w)) = (db, st)"
    by (rule prod.exhaust)
  note f = f' [symmetric]
  let ?t = "rbind (NewTransaction (leApi env) db)
                (\<lambda>b. rbind (DeleteChildren (leApi env) db (wHeight w) (wRoot w) b)
                  (\<lambda>b. rbind (DeleteLayerLog (leApi env) db (wHeight w + 1) (lRoot c) b)
                    (\<lambda>b. rbind (PersistLayerLog (leApi env) db (lLog c) b)
                      (txnCommit (leApi env) db))))"
  have e: "pruneOne env r w = (case ?t of Inl e \<Rightarrow> (Inl e, w\<lparr>wDb := db, wStates := st\<rparr>)
      | Inr db' \<Rightarrow> (Inr (), w\<lparr>wDb := db', wKids := lKids c, wRoot := lRoot c,
                             wHeight := lHeight c, wStates := Register (lHeight c) (lRoot c) st\<rparr>))"
    unfolding pruneOne_def c option.case Let_def f [symmetric] prod.case by (rule refl)
  obtain db' where t: "?t = Inr db'" and w': "w' = w\<lparr>wDb := db', wKids := lKids c, wRoot := lRoot c,
                             wHeight := lHeight c, wStates := Register (lHeight c) (lRoot c) st\<rparr>"
    using assms unfolding e by (cases ?t) simp_all
  from t obtain b b1 b2 b3 where b: "NewTransaction (leApi env) db = Inr b"
    "DeleteChildren (leApi env) db (wHeight w) (wRoot w) b = Inr b1"
    "DeleteLayerLog (leApi env) db (wHeight w + 1) (lRoot c) b1 = Inr b2"
    "PersistLayerLog (leApi env) db (lLog c) b2 = Inr b3" "txnCommit (leApi env) db b3 = Inr db'"
    by (auto simp: rbind_Inr_iff)
  have b2: "b2 = [BDelete (KChildren (wHeight w) (wRoot w)), BDelete (KLayerLog (wHeight w + 1) (lRoot c))]"
    using delete_both [OF b(2,3)] new_transaction [OF b(1)] by simp
  then have "meta_ops b2" by (simp add: meta_ops_def)
  then show thesis by (rule that [OF c f _ b(4) b2]) (use b(5) w' in simp_all)
qed

lemma prune_store:
  assumes law: "ds_law (leApi env) view" and p: "pruneOne env r w = (Inr u, w')"
    and c: "find (\<lambda>l. lRoot l = r) (wKids w) = Some c" and fit: "log_fits kc (view (wDb w)) (lLog c)"
  shows "view_account kc (view (wDb w')) ad = specAccount kc (view (wDb w)) [c] ad"
    and "view_storage (view (wDb w')) ad v k = specStorage (view (wDb w)) [c] ad v k"
    and "view (wDb w') KPersisted = Some (VHeight (lHeight c) (lRoot c))"
proof -
  from p obtain db st b b' where f:
    "(db, st) = fold (\<lambda>x s. if lRoot x \<noteq> lRoot c then Destruct env x s else s)
        (wKids w) (wDb w, Deregister (wHeight w) (wRoot w) (wStates w))"
    and b: "meta_ops b" "PersistLayerLog (leApi env) db (lLog c) b = Inr b'"
      "txnCommit (leApi env) db b' = Inr (wDb w')"
    using c by (auto elim: pruneOneE)
  have v: "view db k = view (wDb w) k" if "\<not> meta_key k" for k
  proof -
    have "view (fst (fold (\<lambda>x s. if lRoot x \<noteq> lRoot c then Destruct env x s else s) xs s)) k = view (fst s) k" for xs s
      by (induction xs arbitrary: s) (auto simp: Destruct_view [OF law that])
    from this [of "wKids w" "(wDb w, Deregister (wHeight w) (wRoot w) (wStates w))"] f [symmetric]
    show ?thesis by simp
  qed
  have wf: "log_wf kc (lLog c)" using fit by (simp add: log_fits_def)
  have com: "txnCommit (leApi env) db (b' @ []) = Inr (wDb w')" using b(3) by simp
  have nil: "meta_ops []" by (simp add: meta_ops_def)
  note r = persist_reads [OF law wf b(2) com b(1) nil]
  have va: "view_account kc (view db) ad = view_account kc (view (wDb w)) ad"
    by (simp add: view_account_def v cong: option.case_cong dsval.case_cong)
  show "view_account kc (view (wDb w')) ad = specAccount kc (view (wDb w)) [c] ad"
    using r(2) [of ad] fit map_of_SomeD [of "UpdatedAccounts (lLog c)" ad]
    by (auto simp: va log_fits_def split: option.split)
  show "view_storage (view (wDb w')) ad v k = specStorage (view (wDb w)) [c] ad v k"
    using r(3) [of ad v k] by (auto simp: view_storage_def v log_slot_def split: option.split)
  show "view (wDb w') KPersisted = Some (VHeight (lHeight c) (lRoot c))" using r(1) .
qed

lemma spec_base:
  assumes "\<And>ad. view_account kc f' ad = specAccount kc f [c] ad"
    and "\<And>ad v k. view_storage f' ad v k = specStorage f [c] ad v k"
  shows "specAccount kc f' rt ad = specAccount kc f (rt @ [c]) ad"
    and "specStorage f' rt ad v k = specStorage f (rt @ [c]) ad v k"
  using assms by (induction rt) (auto split: option.split)

lemma route_ok_base:
  assumes "\<And>ad. view_account kc f' ad = specAccount kc f [c] ad"
    and "\<And>ad v k. view_storage f' ad v k = specStorage f [c] ad v k"
  shows "route_ok kc f (rt @ [c]) \<Longrightarrow> route_ok kc f' rt"
proof (induction rt)
  case Nil
  then show ?case by simp
next
  case (Cons l rt)
  then show ?case using spec_base [OF assms, of rt] by auto
qed

lemma route_of_child:
  "find (\<lambda>l. lRoot l = r) kids = Some c \<Longrightarrow>
   route_of kids (r # p) = map_option (\<lambda>up. up @ [c]) (route_of (lKids c) p)"
  by simp

text \<open>Every route of the tree is right about its caches.\<close>

definition tree_ok :: "(bytes \<Rightarrow> hash) \<Rightarrow> dsview \<Rightarrow> layer list \<Rightarrow> bool" where
  "tree_ok kc f kids = (\<forall>p rt. route_of kids p = Some rt \<longrightarrow> route_ok kc f rt)"

lemma prune_tree_ok:
  assumes law: "ds_law (leApi env) view" and p: "pruneOne env r w = (Inr u, w')"
    and c: "find (\<lambda>l. lRoot l = r) (wKids w) = Some c" and fit: "log_fits kc (view (wDb w)) (lLog c)"
    and ok: "tree_ok kc (view (wDb w)) (wKids w)"
  shows "tree_ok kc (view (wDb w')) (wKids w')"
  unfolding tree_ok_def
proof (intro allI impI)
  fix q rt assume rt: "route_of (wKids w') q = Some rt"
  have k: "wKids w' = lKids c" using p c by (auto elim: pruneOneE)
  have "route_of (wKids w) (r # q) = Some (rt @ [c])"
    using route_of_child [OF c, of q] rt k by simp
  then have "route_ok kc (view (wDb w)) (rt @ [c])" using ok unfolding tree_ok_def by blast
  then show "route_ok kc (view (wDb w')) rt"
    by (rule route_ok_base [OF prune_store(1,2) [OF law p c fit]])
qed


subsection \<open>An example\<close>

text \<open>
  A persisted block 0 with two layers on it and one more on the first. Layers just loaded have
  empty caches, so every route of the tree is right.
\<close>

fun fresh_layer :: "(bytes \<Rightarrow> hash) \<Rightarrow> layer \<Rightarrow> bool" where
  "fresh_layer kc (Layer l ca cc cs kids) =
     (ca = [] \<and> cc = [] \<and> cs = [] \<and> (\<forall>(h, c)\<in>set (lCodePreimage l). kc c = h) \<and> (\<forall>k\<in>set kids. fresh_layer kc k))"

lemma find_in: "find P xs = Some x \<Longrightarrow> x \<in> set xs \<and> P x"
  by (induction xs) (auto split: if_splits)

lemma fresh_tree:
  "\<forall>k\<in>set kids. fresh_layer kc k \<Longrightarrow> route_of kids p = Some rt \<Longrightarrow> route_ok kc f (rt @ up) = route_ok kc f up"
proof (induction p arbitrary: kids rt up)
  case Nil
  then show ?case by simp
next
  case (Cons r p)
  from Cons.prems(2) obtain l rt' where l: "find (\<lambda>l. lRoot l = r) kids = Some l" "route_of (lKids l) p = Some rt'"
    "rt = rt' @ [l]" by (auto split: option.splits)
  have fl: "fresh_layer kc l" using Cons.prems(1) find_in [OF l(1)] by blast
  obtain ll ca cc cs ks where le: "l = Layer ll ca cc cs ks" by (cases l)
  from fl have "route_ok kc f (l # up) = route_ok kc f up" by (auto simp: le dest: map_of_SomeD)
  moreover have "route_ok kc f (rt' @ (l # up)) = route_ok kc f (l # up)"
    by (rule Cons.IH [OF _ l(2)]) (use fl in \<open>simp add: le\<close>)
  ultimately show ?case by (simp add: l(3))
qed

lemma fresh_tree_ok: "\<forall>k\<in>set kids. fresh_layer kc k \<Longrightarrow> tree_ok kc f kids"
  using fresh_tree [where up = "[]"] by (fastforce simp: tree_ok_def)

definition plain_log :: "u64 \<Rightarrow> hash \<Rightarrow> layer_log" where
  "plain_log h r = \<lparr> BlockNumber = h, RootHash = r, UpdatedAccounts = [], UpdatedCodeCount = [],
     lCodePreimage = [], UpdatedStorage = [] \<rparr>"

definition demo_env :: "(dskey, dsval) gmap lenv" where
  "demo_env = \<lparr> leHash = hash7, leApi = mem_api, leEvictA = id, leEvictC = id, leEvictS = take 1 \<rparr>"

definition demo_kids :: "layer list" where
  "demo_kids = [Layer demo_log [] [] [] [Layer (plain_log 2 21) [] [] [] []], Layer (plain_log 1 12) [] [] [] []]"

definition demo_world :: "(dskey, dsval) gmap world" where
  "demo_world =
     \<lparr> wDb = [(KChildren 0 10, VChildren [11, 12]), (KLayerLog 1 11, VLayerLog demo_log), (KChildren 1 11, VChildren [21]),
         (KLayerLog 1 12, VLayerLog (plain_log 1 12)), (KChildren 1 12, VChildren []),
         (KLayerLog 2 21, VLayerLog (plain_log 2 21)), (KChildren 2 21, VChildren [])] @ demo_store,
       wHeight = 0, wRoot = 10, wKids = demo_kids,
       wStates = [(0, [(10, ())]), (1, [(11, ()), (12, ())]), (2, [(21, ())])],
       maxLayerToRetain = 2, pruningFrequency = 1 \<rparr>"

lemma mem_reliable: "ds_reliable mem_api map_of"
  using mem_api_law by (simp add: ds_reliable_def mem_api_def)

lemma map_of_take: "map_of (take n c) k = Some v \<Longrightarrow> map_of c k = Some v"
  by (induction c arbitrary: n) (auto simp: take_Cons split: nat.splits if_splits)

lemma demo_env_simps [simp]: "leHash demo_env = hash7" "leApi demo_env = mem_api"
  "forgets (leEvictA demo_env)" "forgets (leEvictC demo_env)" "forgets (leEvictS demo_env)"
  by (auto simp: demo_env_def forgets_def dest: map_of_take)

lemma demo_typed: "typed hash7 (map_of (wDb demo_world))"
  by (auto simp: typed_def demo_world_def demo_store_def)

lemma demo_tree_ok: "tree_ok hash7 f (wKids demo_world)"
  by (rule fresh_tree_ok) (simp add: demo_world_def demo_kids_def demo_log_def plain_log_def hash7_def)

lemma demo_route: "route_of (wKids demo_world) [11, 21] =
    Some [Layer (plain_log 2 21) [] [] [] [], Layer demo_log [] [] [] [Layer (plain_log 2 21) [] [] [] []]]"
  by (simp add: demo_world_def demo_kids_def demo_log_def plain_log_def)


lemma demo_prune: "\<not> isl (fst (pruneOne demo_env 11 demo_world))"
  by code_simp

lemma demo_prune': "pruneOne demo_env 11 demo_world = (Inr (), snd (pruneOne demo_env 11 demo_world))"
  using not_isl [OF demo_prune] by (metis old.unit.exhaust prod.collapse)

lemma demo_child: "find (\<lambda>l. lRoot l = 11) (wKids demo_world) = Some (hd demo_kids)"
  by (simp add: demo_world_def demo_kids_def demo_log_def)

lemma demo_fits: "log_fits hash7 f (lLog (hd demo_kids))"
  using demo_log_wf by (simp add: log_fits_def demo_kids_def) (simp add: demo_log_def)


end
