(* ===== verification/WorldInv.thy ===== *)
theory WorldInv
  imports LayerLaws "HOL-Library.Multiset"
begin

section \<open>The world, its archive and its store\<close>

text \<open>
  The invariant of the world state as a whole: no two layers have the same height and root,
  heights grow by one along the tree, the archive registers exactly the layers of the tree and
  the persisted state, and the store holds the log and the children of every layer. It is kept
  by pruning and by committing a block on a datastore that does not fail, and it makes a
  restart rebuild the same tree (\<open>Restart\<close>).
\<close>

subsection \<open>Keys\<close>

lemma Has_Register: "Has h r (Register h' r' st) = (h = h' \<and> r = r' \<or> Has h r st)"
  by (auto simp: Has_def Register_def mget_or_def split: option.splits)

lemma Has_Deregister: "Has h r (Deregister h' r' st) = (Has h r st \<and> \<not> (h = h' \<and> r = r'))"
proof (cases "map_of st h'")
  case None
  then show ?thesis by (auto simp: Has_def Deregister_def)
next
  case (Some m)
  have "mdel r' m = [] \<Longrightarrow> r \<noteq> r' \<Longrightarrow> map_of m r = None"
    by (metis map_of.simps(1) map_of_mdel)
  then show ?thesis using Some
    by (auto simp: Has_def Deregister_def Let_def split: option.splits)
qed

lemma Has_Nil [simp]: "Has h r [] = False"
  by (simp add: Has_def)

fun layer_keys :: "layer \<Rightarrow> (u64 \<times> hash) list" where
  "layer_keys (Layer l ca cc cs kids) = (BlockNumber l, RootHash l) # concat (map layer_keys kids)"

definition kids_keys :: "layer list \<Rightarrow> (u64 \<times> hash) list" where
  "kids_keys kids = concat (map layer_keys kids)"

lemma kids_keys_simps [simp]:
  "kids_keys [] = []" "kids_keys (l # kids) = layer_keys l @ kids_keys kids"
  "kids_keys (xs @ ys) = kids_keys xs @ kids_keys ys"
  by (simp_all add: kids_keys_def)

lemma layer_keys_alt: "layer_keys l = (lHeight l, lRoot l) # kids_keys (lKids l)"
  by (cases l) (simp add: kids_keys_def)

lemma kids_keys_mem: "l \<in> set kids \<Longrightarrow> set (layer_keys l) \<subseteq> set (kids_keys kids)"
  by (auto simp: kids_keys_def)

fun heights_ok :: "u64 \<Rightarrow> layer \<Rightarrow> bool" where
  "heights_ok h (Layer l ca cc cs kids) = (BlockNumber l = h \<and> (\<forall>k\<in>set kids. heights_ok (h + 1) k))"

fun stored :: "dsview \<Rightarrow> layer \<Rightarrow> bool" where
  "stored f (Layer l ca cc cs kids) =
     (f (KLayerLog (BlockNumber l) (RootHash l)) = Some (VLayerLog l) \<and>
      f (KChildren (BlockNumber l) (RootHash l)) = Some (VChildren (map lRoot kids)) \<and>
      (\<forall>k\<in>set kids. stored f k))"

definition world_ok :: "('db \<Rightarrow> dsview) \<Rightarrow> 'db world \<Rightarrow> bool" where
  "world_ok view w =
     (distinct ((wHeight w, wRoot w) # kids_keys (wKids w)) \<and>
      (\<forall>k\<in>set (wKids w). heights_ok (wHeight w + 1) k) \<and>
      (\<forall>h r. Has h r (wStates w) = ((h, r) \<in> set ((wHeight w, wRoot w) # kids_keys (wKids w)))) \<and>
      view (wDb w) KPersisted = Some (VHeight (wHeight w) (wRoot w)) \<and>
      view (wDb w) (KChildren (wHeight w) (wRoot w)) = Some (VChildren (map lRoot (wKids w))) \<and>
      (\<forall>k\<in>set (wKids w). stored (view (wDb w)) k))"

lemma world_okD:
  assumes "world_ok view w"
  shows "distinct ((wHeight w, wRoot w) # kids_keys (wKids w))"
    and "\<And>k. k \<in> set (wKids w) \<Longrightarrow> heights_ok (wHeight w + 1) k"
    and "\<And>h r. Has h r (wStates w) = ((h, r) \<in> set ((wHeight w, wRoot w) # kids_keys (wKids w)))"
    and "view (wDb w) KPersisted = Some (VHeight (wHeight w) (wRoot w))"
    and "view (wDb w) (KChildren (wHeight w) (wRoot w)) = Some (VChildren (map lRoot (wKids w)))"
    and "\<And>k. k \<in> set (wKids w) \<Longrightarrow> stored (view (wDb w)) k"
  using assms unfolding world_ok_def by blast+

text \<open>What is stored of a layer depends on the entries of its own keys.\<close>

lemma stored_cong:
  "(\<And>h r. (h, r) \<in> set (layer_keys l) \<Longrightarrow> g (KLayerLog h r) = f (KLayerLog h r) \<and> g (KChildren h r) = f (KChildren h r)) \<Longrightarrow>
   stored g l = stored f l"
proof (induction l)
  case (Layer l ca cc cs kids)
  have "stored g k = stored f k" if "k \<in> set kids" for k
    by (rule Layer.IH [OF that]) (rule Layer.prems, use that in auto)
  moreover have "g (KLayerLog (BlockNumber l) (RootHash l)) = f (KLayerLog (BlockNumber l) (RootHash l)) \<and>
      g (KChildren (BlockNumber l) (RootHash l)) = f (KChildren (BlockNumber l) (RootHash l))"
    by (rule Layer.prems) simp
  ultimately show ?case by simp
qed

subsection \<open>Destruction\<close>

definition erased :: "(u64 \<times> hash) set \<Rightarrow> dskey \<Rightarrow> bool" where
  "erased ks k = (\<exists>(h, r)\<in>ks. k = KChildren h r \<or> k = KLayerLog h r)"

lemma destruct_self_rel:
  assumes "ds_reliable (leApi env) view"
  shows "view (fst (destruct_self env h r s)) k = (if erased {(h, r)} k then None else view (fst s) k)"
    and "Has h' r' (snd (destruct_self env h r s)) = (Has h' r' (snd s) \<and> (h', r') \<noteq> (h, r))"
proof -
  obtain db st where s: "s = (db, st)" by (cases s)
  note R = ds_reliableD [OF assms]
  obtain db' where db': "txnCommit (leApi env) db [BDelete (KChildren h r), BDelete (KLayerLog h r)] = Inr db'"
    using R(5) by blast
  have e: "destruct_self env h r s = (db', Deregister h r st)"
    by (simp add: destruct_self_def s R(3) R(4) DeleteChildren_def DeleteLayerLog_def tdel_def db')
  have "view db' = (view db)(KChildren h r := None, KLayerLog h r := None)"
    using ds_lawD(3) [OF R(1) db' [unfolded txnCommit_def]] by simp
  then show "view (fst (destruct_self env h r s)) k = (if erased {(h, r)} k then None else view (fst s) k)"
    unfolding s by (auto simp: e [unfolded s] erased_def)
  show "Has h' r' (snd (destruct_self env h r s)) = (Has h' r' (snd s) \<and> (h', r') \<noteq> (h, r))"
    unfolding s by (auto simp: e [unfolded s] Has_Deregister)
qed

lemma Destruct_rel:
  assumes rel: "ds_reliable (leApi env) view"
  shows "(\<forall>k. view (fst (Destruct env l s)) k = (if erased (set (layer_keys l)) k then None else view (fst s) k)) \<and>
    (\<forall>h r. Has h r (snd (Destruct env l s)) = (Has h r (snd s) \<and> (h, r) \<notin> set (layer_keys l)))"
proof (induction l arbitrary: s)
  case (Layer l ca cc cs kids)
  have "(\<forall>k. view (fst (fold (Destruct env) kids s)) k = (if erased (set (kids_keys kids)) k then None else view (fst s) k)) \<and>
    (\<forall>h r. Has h r (snd (fold (Destruct env) kids s)) = (Has h r (snd s) \<and> (h, r) \<notin> set (kids_keys kids)))"
    using Layer.IH
  proof (induction kids arbitrary: s)
    case Nil
    then show ?case by (simp add: erased_def)
  next
    case (Cons x kids)
    have x: "(\<forall>k. view (fst (Destruct env x s)) k = (if erased (set (layer_keys x)) k then None else view (fst s) k)) \<and>
      (\<forall>h r. Has h r (snd (Destruct env x s)) = (Has h r (snd s) \<and> (h, r) \<notin> set (layer_keys x)))"
      by (rule Cons.prems) simp
    have "(\<forall>k. view (fst (fold (Destruct env) kids (Destruct env x s))) k =
        (if erased (set (kids_keys kids)) k then None else view (fst (Destruct env x s)) k)) \<and>
      (\<forall>h r. Has h r (snd (fold (Destruct env) kids (Destruct env x s))) =
        (Has h r (snd (Destruct env x s)) \<and> (h, r) \<notin> set (kids_keys kids)))"
      by (rule Cons.IH) (use Cons.prems in auto)
    with x show ?case by (auto simp: erased_def)
  qed
  then show ?case
    by (auto simp: destruct_self_rel [OF rel] erased_def kids_keys_def)
qed

text \<open>The siblings of the child that is pruned.\<close>

lemma Destruct_siblings:
  assumes rel: "ds_reliable (leApi env) view"
  shows "(\<forall>k. view (fst (fold (\<lambda>x s. if lRoot x \<noteq> r then Destruct env x s else s) kids s)) k =
      (if erased (set (kids_keys (filter (\<lambda>x. lRoot x \<noteq> r) kids))) k then None else view (fst s) k)) \<and>
    (\<forall>h r'. Has h r' (snd (fold (\<lambda>x s. if lRoot x \<noteq> r then Destruct env x s else s) kids s)) =
      (Has h r' (snd s) \<and> (h, r') \<notin> set (kids_keys (filter (\<lambda>x. lRoot x \<noteq> r) kids))))"
proof (induction kids arbitrary: s)
  case Nil
  then show ?case by (simp add: erased_def)
next
  case (Cons x kids)
  show ?case
  proof (cases "lRoot x = r")
    case True
    then show ?thesis using Cons.IH by simp
  next
    case False
    then show ?thesis using Cons.IH [of "Destruct env x s"] Destruct_rel [OF rel, of x s]
      by (auto simp: erased_def)
  qed
qed

lemma find_split:
  "find P xs = Some x \<Longrightarrow> \<exists>ys zs. xs = ys @ x # zs \<and> P x \<and> (\<forall>y\<in>set ys. \<not> P y)"
proof (induction xs)
  case Nil
  then show ?case by simp
next
  case (Cons a xs)
  show ?case
  proof (cases "P a")
    case True
    then have "a = x" using Cons.prems by simp
    then have "a # xs = [] @ x # xs \<and> P x \<and> (\<forall>y\<in>set []. \<not> P y)" using True by simp
    then show ?thesis by blast
  next
    case False
    with Cons obtain ys zs where "xs = ys @ x # zs" "P x" "\<forall>y\<in>set ys. \<not> P y" by auto
    then have "a # xs = (a # ys) @ x # zs \<and> P x \<and> (\<forall>y\<in>set (a # ys). \<not> P y)" using False by simp
    then show ?thesis by blast
  qed
qed

lemma heights_key: "heights_ok h l \<Longrightarrow> lHeight l = h"
  by (cases l) simp

lemma heights_kids: "heights_ok h l \<Longrightarrow> k \<in> set (lKids l) \<Longrightarrow> heights_ok (h + 1) k"
  by (cases l) simp

text \<open>Siblings of one height with distinct keys have distinct roots.\<close>

lemma siblings_filter:
  assumes "distinct (kids_keys (ys @ c # zs))" and "\<forall>x\<in>set (ys @ c # zs). heights_ok h x"
  shows "filter (\<lambda>x. lRoot x \<noteq> lRoot c) (ys @ c # zs) = ys @ zs"
proof -
  have "lRoot x \<noteq> lRoot c" if x: "x \<in> set (ys @ zs)" for x
  proof
    assume eq: "lRoot x = lRoot c"
    have "heights_ok h x" "heights_ok h c" using assms(2) x by auto
    with eq have "(lHeight c, lRoot c) \<in> set (layer_keys x)" by (simp add: layer_keys_alt heights_key)
    then have "(lHeight c, lRoot c) \<in> set (kids_keys (ys @ zs))" using x kids_keys_mem by blast
    moreover have "(lHeight c, lRoot c) \<in> set (layer_keys c)" by (simp add: layer_keys_alt)
    ultimately show False using assms(1) by auto
  qed
  then show ?thesis by (simp add: filter_id_conv)
qed

subsection \<open>Pruning keeps the world consistent\<close>

text \<open>What a successful prune leaves in the store and in the archive.\<close>

lemma prune_effect:
  assumes rel: "ds_reliable (leApi env) view" and p: "pruneOne env r w = (Inr u, w')"
    and c: "find (\<lambda>l. lRoot l = r) (wKids w) = Some c" and d: "log_distinct (lLog c)"
  defines "sib \<equiv> kids_keys (filter (\<lambda>x. lRoot x \<noteq> lRoot c) (wKids w))"
  shows "meta_key k \<Longrightarrow> view (wDb w') k =
      (if erased (set sib) k \<or> k = KChildren (wHeight w) (wRoot w) \<or> k = KLayerLog (wHeight w + 1) (lRoot c)
       then None else view (wDb w) k)"
    and "view (wDb w') KPersisted = Some (VHeight (lHeight c) (lRoot c))"
    and "Has h r' (wStates w') =
      (h = lHeight c \<and> r' = lRoot c \<or>
       Has h r' (wStates w) \<and> (h, r') \<noteq> (wHeight w, wRoot w) \<and> (h, r') \<notin> set sib)"
    and "wKids w' = lKids c" "wRoot w' = lRoot c" "wHeight w' = lHeight c"
proof -
  note law = ds_reliableD(1) [OF rel]
  from p c obtain db st b b' where f:
    "(db, st) = fold (\<lambda>x s. if lRoot x \<noteq> lRoot c then Destruct env x s else s)
        (wKids w) (wDb w, Deregister (wHeight w) (wRoot w) (wStates w))"
    and b: "PersistLayerLog (leApi env) db (lLog c) b = Inr b'"
      "b = [BDelete (KChildren (wHeight w) (wRoot w)), BDelete (KLayerLog (wHeight w + 1) (lRoot c))]"
      "txnCommit (leApi env) db b' = Inr (wDb w')"
    and w': "wKids w' = lKids c" "wRoot w' = lRoot c" "wHeight w' = lHeight c"
      "wStates w' = Register (lHeight c) (lRoot c) st"
    by (elim pruneOneE) simp
  have sib: "(\<forall>k. view db k = (if erased (set sib) k then None else view (wDb w) k)) \<and>
      (\<forall>h r'. Has h r' st = (Has h r' (Deregister (wHeight w) (wRoot w) (wStates w)) \<and> (h, r') \<notin> set sib))"
    using Destruct_siblings [OF rel, of "lRoot c" "wKids w" "(wDb w, Deregister (wHeight w) (wRoot w) (wStates w))"]
    unfolding f [symmetric] sib_def by simp
  have v: "view (wDb w') = fold apply_op (log_ops (view db) (lLog c)) (fold apply_op b (view db))"
    using ds_lawD(3) [OF law b(3) [unfolded txnCommit_def]] PersistLayerLog_ops(1) [OF law b(1)] by simp
  show "view (wDb w') KPersisted = Some (VHeight (lHeight c) (lRoot c))"
    unfolding v by (rule log_ops_view(1) [OF d])
  show "view (wDb w') k =
      (if erased (set sib) k \<or> k = KChildren (wHeight w) (wRoot w) \<or> k = KLayerLog (wHeight w + 1) (lRoot c)
       then None else view (wDb w) k)" if "meta_key k"
  proof -
    have "fold apply_op (log_ops (view db) (lLog c)) g k = g k" for g
      by (rule fold_untouched) (use log_ops_meta that in metis)
    then show ?thesis using sib by (auto simp: v b(2))
  qed
  show "Has h r' (wStates w') =
      (h = lHeight c \<and> r' = lRoot c \<or>
       Has h r' (wStates w) \<and> (h, r') \<noteq> (wHeight w, wRoot w) \<and> (h, r') \<notin> set sib)"
    using sib by (auto simp: w' Has_Register Has_Deregister)
qed (use p c in \<open>auto elim: pruneOneE\<close>)

lemma prune_world_ok:
  assumes rel: "ds_reliable (leApi env) view" and ok: "world_ok view w"
    and p: "pruneOne env r w = (Inr u, w')"
    and c: "find (\<lambda>l. lRoot l = r) (wKids w) = Some c" and d: "log_distinct (lLog c)"
  shows "world_ok view w'"
proof -
  note W = world_okD [OF ok]
  obtain ys zs where s: "wKids w = ys @ c # zs" using find_split [OF c] by blast
  have dk: "distinct (kids_keys (ys @ c # zs))" using W(1) s by simp
  have sib: "filter (\<lambda>x. lRoot x \<noteq> lRoot c) (wKids w) = ys @ zs"
    unfolding s by (rule siblings_filter [OF dk]) (use W(2) s in auto)
  note E = prune_effect [OF rel p c d, unfolded sib]
  have cin: "c \<in> set (wKids w)" using s by simp
  have hc: "heights_ok (wHeight w + 1) c" by (rule W(2) [OF cin])
  have keys: "(wHeight w, wRoot w) \<notin> set (layer_keys c)" "set (layer_keys c) \<inter> set (kids_keys (ys @ zs)) = {}"
    "distinct (layer_keys c)" using W(1) s by auto
  have keep: "view (wDb w') (KChildren h r') = view (wDb w) (KChildren h r')"
    "(h, r') \<noteq> (lHeight c, lRoot c) \<Longrightarrow> view (wDb w') (KLayerLog h r') = view (wDb w) (KLayerLog h r')"
    if "(h, r') \<in> set (layer_keys c)" for h r'
    using that keys(1,2) E(1) [of "KChildren h r'"] E(1) [of "KLayerLog h r'"] heights_key [OF hc]
    by (auto simp: erased_def)
  have st: "stored (view (wDb w)) c" by (rule W(6) [OF cin])
  have ck: "(lHeight c, lRoot c) \<in> set (layer_keys c)" by (simp add: layer_keys_alt)
  have nk: "(lHeight c, lRoot c) \<notin> set (kids_keys (lKids c))" using keys(3) by (simp add: layer_keys_alt)
  show ?thesis
    unfolding world_ok_def E(4-6)
  proof (intro conjI allI ballI)
    show "distinct ((lHeight c, lRoot c) # kids_keys (lKids c))" using keys(3) by (simp only: layer_keys_alt)
    show "heights_ok (lHeight c + 1) k" if "k \<in> set (lKids c)" for k
      using heights_kids [OF hc that] heights_key [OF hc] by simp
    show "Has h r' (wStates w') = ((h, r') \<in> set ((lHeight c, lRoot c) # kids_keys (lKids c)))" for h r'
      unfolding layer_keys_alt [symmetric] using keys ck by (auto simp: E(3) W(3) s)
    show "view (wDb w') KPersisted = Some (VHeight (lHeight c) (lRoot c))" by (rule E(2))
    show "view (wDb w') (KChildren (lHeight c) (lRoot c)) = Some (VChildren (map lRoot (lKids c)))"
      using keep(1) [OF ck] st by (cases c) simp
    show "stored (view (wDb w')) k" if k: "k \<in> set (lKids c)" for k
    proof -
      have "stored (view (wDb w)) k" using st k by (cases c) simp
      moreover have "stored (view (wDb w')) k = stored (view (wDb w)) k"
      proof (rule stored_cong)
        fix h r' assume "(h, r') \<in> set (layer_keys k)"
        then have "(h, r') \<in> set (kids_keys (lKids c))" using kids_keys_mem [OF k] by blast
        then show "view (wDb w') (KLayerLog h r') = view (wDb w) (KLayerLog h r') \<and>
            view (wDb w') (KChildren h r') = view (wDb w) (KChildren h r')"
          using keep [of h r'] nk by (auto simp: layer_keys_alt)
      qed
      ultimately show ?thesis by simp
    qed
  qed
qed

subsection \<open>Adding a layer\<close>

fun with_kids :: "layer \<Rightarrow> layer list \<Rightarrow> layer" where
  "with_kids (Layer l ca cc cs ks) ks' = Layer l ca cc cs ks'"

lemma with_kids_simps [simp]:
  "lLog (with_kids l ks) = lLog l" "lKids (with_kids l ks) = ks"
  by (cases l; simp)+

lemma upd_kids_split:
  "lRoot l = r \<Longrightarrow> \<forall>y\<in>set ys. lRoot y \<noteq> r \<Longrightarrow>
   upd_kids f (r # p) (ys @ l # zs) = ys @ with_kids l (upd_kids f p (lKids l)) # zs"
proof (induction ys)
  case Nil
  then show ?case by (cases l) simp
next
  case (Cons y ys)
  then show ?case by (cases y) simp
qed

lemma stored_alt:
  "stored f l = (f (KLayerLog (lHeight l) (lRoot l)) = Some (VLayerLog (lLog l)) \<and>
     f (KChildren (lHeight l) (lRoot l)) = Some (VChildren (map lRoot (lKids l))) \<and>
     (\<forall>k\<in>set (lKids l). stored f k))"
  by (cases l) simp

lemma heights_alt: "heights_ok h l = (lHeight l = h \<and> (\<forall>k\<in>set (lKids l). heights_ok (h + 1) k))"
  by (cases l) simp

lemma heights_with: "heights_ok h (with_kids l ks) = (lHeight l = h \<and> (\<forall>k\<in>set ks. heights_ok (h + 1) k))"
  by (cases l) simp

lemma stored_with:
  "stored f (with_kids l ks) = (f (KLayerLog (lHeight l) (lRoot l)) = Some (VLayerLog (lLog l)) \<and>
     f (KChildren (lHeight l) (lRoot l)) = Some (VChildren (map lRoot ks)) \<and> (\<forall>k\<in>set ks. stored f k))"
  by (cases l) simp

lemma route_of_split:
  assumes "route_of kids (r # p) = Some rt"
  obtains ys l zs up where "kids = ys @ l # zs" "lRoot l = r" "\<forall>y\<in>set ys. lRoot y \<noteq> r"
    "route_of (lKids l) p = Some up" "rt = up @ [l]"
  using assms by (auto split: option.splits dest!: find_split)

lemma keys_below:
  "route_of kids p = Some (x # up) \<Longrightarrow> set (layer_keys x) \<subseteq> set (kids_keys kids)"
proof (induction p arbitrary: kids x up)
  case Nil
  then show ?case by simp
next
  case (Cons r p)
  from Cons.prems obtain ys l zs up' where s: "kids = ys @ l # zs" "route_of (lKids l) p = Some up'" "x # up = up' @ [l]"
    by (rule route_of_split)
  show ?case
  proof (cases up')
    case Nil
    then show ?thesis using s by auto
  next
    case (Cons y ups)
    then have "set (layer_keys x) \<subseteq> set (kids_keys (lKids l))" using Cons.IH s(2,3) by simp
    then show ?thesis using s(1) by (auto simp: layer_keys_alt)
  qed
qed

lemma keys_at:
  "route_of kids p = Some (x # up) \<Longrightarrow> (lHeight x, lRoot x) \<in> set (kids_keys kids)"
  using keys_below [of kids p x up] by (simp add: layer_keys_alt)

text \<open>One step down a path: the layer \<open>l\<close> is where it ends, or the path goes on below.\<close>

lemma route_stepE:
  assumes "route_of kids (r # p) = Some (x # up)"
  obtains (here) ys zs where "kids = ys @ x # zs" "lRoot x = r" "\<forall>y\<in>set ys. lRoot y \<noteq> r" "p = []" "up = []"
    "upd_kids f (r # p) kids = ys @ with_kids x (f (lKids x)) # zs"
  | (below) ys l zs ups where "kids = ys @ l # zs" "lRoot l = r" "\<forall>y\<in>set ys. lRoot y \<noteq> r"
    "route_of (lKids l) p = Some (x # ups)" "upd_kids f (r # p) kids = ys @ with_kids l (upd_kids f p (lKids l)) # zs"
proof -
  from assms obtain ys l zs up' where s: "kids = ys @ l # zs" "lRoot l = r" "\<forall>y\<in>set ys. lRoot y \<noteq> r"
    "route_of (lKids l) p = Some up'" "x # up = up' @ [l]" by (rule route_of_split)
  note u = upd_kids_split [OF s(2,3), of f p zs]
  show thesis
  proof (cases up')
    case Nil
    then have "p = []" using s(4) by (cases p) (auto split: option.splits)
    then show thesis using here s u Nil by simp
  next
    case (Cons y ups)
    then show thesis using below s u by simp
  qed
qed

text \<open>What holds of the layers at the top and passes to children holds of the layer at a path.\<close>

lemma on_route:
  assumes "\<And>l k. P l \<Longrightarrow> k \<in> set (lKids l) \<Longrightarrow> P k"
  shows "route_of kids p = Some (x # up) \<Longrightarrow> \<forall>k\<in>set kids. P k \<Longrightarrow> P x"
proof (induction p arbitrary: kids up)
  case (Cons r p)
  from Cons.prems(1) show ?case
  proof (cases rule: route_stepE [where f = id])
    case (below ys l zs ups)
    then show ?thesis using Cons.IH [OF below(4)] Cons.prems(2) assms by auto
  qed (use Cons.prems(2) in simp)
qed simp

lemma heights_route:
  "\<forall>k\<in>set kids. heights_ok h k \<Longrightarrow> route_of kids p = Some (x # up) \<Longrightarrow> heights_ok (lHeight x) x"
  using on_route [of "\<lambda>l. heights_ok (lHeight l) l" kids p x up] heights_kids heights_key by metis

lemma stored_route: "\<forall>k\<in>set kids. stored v k \<Longrightarrow> route_of kids p = Some (x # up) \<Longrightarrow> stored v x"
  using on_route [of "stored v" kids p x up] stored_alt by blast

lemma distinct_kid: "distinct (kids_keys kids) \<Longrightarrow> k \<in> set kids \<Longrightarrow> distinct (layer_keys k)"
  by (induction kids) auto

lemma distinct_route:
  "distinct (kids_keys kids) \<Longrightarrow> route_of kids p = Some (x # up) \<Longrightarrow> distinct (layer_keys x)"
  using on_route [of "\<lambda>l. distinct (layer_keys l)" kids p x up] distinct_kid
  by (metis distinct.simps(2) layer_keys_alt)

text \<open>
  What a tree keeps when the children of the layer \<open>x\<close> at a path are changed by \<open>f\<close>: its keys
  change by those of the children, and what is stored of it fits if it fits at \<open>x\<close>.
\<close>

lemma upd_keys:
  "route_of kids p = Some (x # up) \<Longrightarrow>
   mset (kids_keys (upd_kids f p kids)) + mset (kids_keys (lKids x)) =
   mset (kids_keys kids) + mset (kids_keys (f (lKids x)))"
proof (induction p arbitrary: kids up)
  case (Cons r p)
  from Cons.prems show ?case
  proof (cases rule: route_stepE [where f = f])
    case (here ys zs)
    then show ?thesis by (simp add: layer_keys_alt)
  next
    case (below ys l zs ups)
    from Cons.IH [OF below(4)] show ?thesis unfolding below(5) by (simp add: below(1) layer_keys_alt)
  qed
qed simp

lemma upd_roots: "route_of kids p = Some (x # up) \<Longrightarrow> map lRoot (upd_kids f p kids) = map lRoot kids"
proof (cases p)
  case (Cons r q)
  assume "route_of kids p = Some (x # up)"
  then have "route_of kids (r # q) = Some (x # up)" by (simp only: Cons)
  then show ?thesis unfolding Cons by (cases rule: route_stepE [where f = f]) simp_all
qed simp

lemma upd_heights:
  "\<lbrakk>route_of kids p = Some (x # up); \<forall>k\<in>set kids. heights_ok h k; \<forall>k\<in>set (f (lKids x)). heights_ok (lHeight x + 1) k\<rbrakk> \<Longrightarrow>
   \<forall>k\<in>set (upd_kids f p kids). heights_ok h k"
proof (induction p arbitrary: kids up h)
  case (Cons r p)
  from Cons.prems(1) show ?case
  proof (cases rule: route_stepE [where f = f])
    case (here ys zs)
    then have "heights_ok h x" using Cons.prems(2) by simp
    then show ?thesis using Cons.prems(2,3) heights_key unfolding here(6) by (auto simp: here(1) heights_with)
  next
    case (below ys l zs ups)
    have hl: "heights_ok h l" using Cons.prems(2) below(1) by simp
    then have "\<forall>k\<in>set (lKids l). heights_ok (h + 1) k" using heights_kids by blast
    then have "\<forall>k\<in>set (upd_kids f p (lKids l)). heights_ok (h + 1) k" by (rule Cons.IH [OF below(4) _ Cons.prems(3)])
    then show ?thesis using Cons.prems(2) heights_key [OF hl] unfolding below(5) by (simp add: below(1) heights_with)
  qed
qed simp

lemma upd_stored:
  assumes "route_of kids p = Some (x # up)" and "\<forall>k\<in>set kids. stored v k" and "distinct (kids_keys kids)"
    and new: "\<forall>k\<in>set (f (lKids x)). stored g k" "g (KChildren (lHeight x) (lRoot x)) = Some (VChildren (map lRoot (f (lKids x))))"
    and "\<And>h r. (h, r) \<in> set (kids_keys kids) \<Longrightarrow> (h, r) \<notin> set (kids_keys (lKids x)) \<Longrightarrow> g (KLayerLog h r) = v (KLayerLog h r)"
    and "\<And>h r. (h, r) \<in> set (kids_keys kids) \<Longrightarrow> (h, r) \<notin> set (layer_keys x) \<Longrightarrow> g (KChildren h r) = v (KChildren h r)"
  shows "\<forall>k\<in>set (upd_kids f p kids). stored g k"
  using assms(1-3,6,7)
proof (induction p arbitrary: kids up)
  case (Cons r p)
  have same: "stored g k" if k: "kids = ys @ l # zs" "k \<in> set (ys @ zs)" "set (layer_keys x) \<subseteq> set (layer_keys l)" for ys l zs k
  proof -
    have "stored g k = stored v k"
    proof (rule stored_cong)
      fix h' r' assume "(h', r') \<in> set (layer_keys k)"
      then have m: "(h', r') \<in> set (kids_keys (ys @ zs))" using kids_keys_mem [OF k(2)] by blast
      then have "(h', r') \<notin> set (layer_keys x)" using Cons.prems(3) k(1,3) by auto
      moreover have "(h', r') \<in> set (kids_keys kids)" using m k(1) by auto
      ultimately show "g (KLayerLog h' r') = v (KLayerLog h' r') \<and> g (KChildren h' r') = v (KChildren h' r')"
        using Cons.prems(4,5) by (auto simp: layer_keys_alt [of x])
    qed
    then show ?thesis using Cons.prems(2) k(1,2) by auto
  qed
  from Cons.prems(1) show ?case
  proof (cases rule: route_stepE [where f = f])
    case (here ys zs)
    have d: "distinct (layer_keys x)" "stored v x" using Cons.prems(2,3) here(1) by auto
    have "(lHeight x, lRoot x) \<in> set (kids_keys kids)" using here(1) by (auto simp: layer_keys_alt)
    then have "g (KLayerLog (lHeight x) (lRoot x)) = Some (VLayerLog (lLog x))"
      using Cons.prems(4) d stored_alt [of v x] by (simp add: layer_keys_alt)
    then show ?thesis using new same [OF here(1)] unfolding here(6) by (auto simp: stored_with)
  next
    case (below ys l zs ups)
    have d: "distinct (layer_keys l)" "stored v l" using Cons.prems(2,3) below(1) by auto
    have sub: "set (kids_keys (lKids l)) \<subseteq> set (kids_keys kids)" "(lHeight l, lRoot l) \<in> set (kids_keys kids)"
      using below(1) by (auto simp: layer_keys_alt)
    have xl: "set (layer_keys x) \<subseteq> set (kids_keys (lKids l))" by (rule keys_below [OF below(4)])
    have l: "(lHeight l, lRoot l) \<notin> set (layer_keys x)" using d(1) xl by (auto simp: layer_keys_alt [of l])
    have kids: "\<forall>k\<in>set (upd_kids f p (lKids l)). stored g k"
    proof (rule Cons.IH [OF below(4)])
      show "\<forall>k\<in>set (lKids l). stored v k" using d(2) stored_alt [of v l] by simp
      show "distinct (kids_keys (lKids l))" using d(1) by (simp add: layer_keys_alt)
    qed (use Cons.prems(4,5) sub(1) in blast)+
    have "g (KLayerLog (lHeight l) (lRoot l)) = v (KLayerLog (lHeight l) (lRoot l))"
      "g (KChildren (lHeight l) (lRoot l)) = v (KChildren (lHeight l) (lRoot l))"
      using Cons.prems(4,5) sub(2) l by (auto simp: layer_keys_alt [of x])
    then have "stored g (with_kids l (upd_kids f p (lKids l)))"
      using kids d(2) stored_alt [of v l] upd_roots [OF below(4), of f] by (simp add: stored_with)
    moreover have "set (layer_keys x) \<subseteq> set (layer_keys l)" using xl by (auto simp: layer_keys_alt [of l])
    ultimately show ?thesis using same [OF below(1)] unfolding below(5) by auto
  qed
qed simp

subsection \<open>Committing a block keeps the world consistent\<close>

text \<open>The height of the layer at a route.\<close>

definition route_height :: "'db world \<Rightarrow> route \<Rightarrow> u64" where
  "route_height w rt = (case rt of [] \<Rightarrow> wHeight w | x # up \<Rightarrow> lHeight x)"

definition route_root :: "'db world \<Rightarrow> route \<Rightarrow> hash" where
  "route_root w rt = (case rt of [] \<Rightarrow> wRoot w | x # up \<Rightarrow> lRoot x)"

definition route_kids :: "'db world \<Rightarrow> route \<Rightarrow> layer list" where
  "route_kids w rt = (case rt of [] \<Rightarrow> wKids w | x # up \<Rightarrow> lKids x)"

lemma layer_at_route:
  "route_of (wKids w) p = Some rt \<Longrightarrow> layer_at w p = Some (route_height w rt, route_root w rt, route_kids w rt)"
  by (simp add: layer_at_def route_height_def route_root_def route_kids_def split: list.split)

lemma route_Nil: "route_of kids p = Some [] \<Longrightarrow> p = []"
  by (cases p) (auto split: option.splits)

text \<open>The world after the first half of \<open>Commit\<close>: the layer is stored, registered and attached.\<close>

definition attached :: "('db \<Rightarrow> dsview) \<Rightarrow> 'db world \<Rightarrow> path \<Rightarrow> route \<Rightarrow> layer_log \<Rightarrow> 'db world \<Rightarrow> bool" where
  "attached view w p rt l w1 =
     (view (wDb w1) = (view (wDb w))
        (KChildren (BlockNumber l) (RootHash l) := Some (VChildren []),
         KLayerLog (BlockNumber l) (RootHash l) := Some (VLayerLog l),
         KChildren (route_height w rt) (route_root w rt) :=
           Some (VChildren (map lRoot (route_kids w rt @ [Layer l [] [] [] []])))) \<and>
      wHeight w1 = wHeight w \<and> wRoot w1 = wRoot w \<and>
      wStates w1 = Register (BlockNumber l) (RootHash l) (wStates w) \<and>
      wKids w1 = upd_kids (\<lambda>ks. ks @ [Layer l [] [] [] []]) p (wKids w))"

lemma updated_ok:
  assumes ok: "world_ok view w" and rt: "route_of (wKids w) p = Some rt"
    and w1: "wKids w1 = upd_kids f p (wKids w)" "wHeight w1 = wHeight w" "wRoot w1 = wRoot w"
    and dist: "distinct ((wHeight w, wRoot w) # kids_keys (wKids w1))"
    and has: "\<And>h r. Has h r (wStates w1) = ((h, r) \<in> set ((wHeight w, wRoot w) # kids_keys (wKids w1)))"
    and hs: "\<forall>k\<in>set (f (route_kids w rt)). heights_ok (route_height w rt + 1) k"
    and st: "\<forall>k\<in>set (f (route_kids w rt)). stored (view (wDb w1)) k"
    and par: "view (wDb w1) (KChildren (route_height w rt) (route_root w rt)) =
      Some (VChildren (map lRoot (f (route_kids w rt))))"
    and pers: "view (wDb w1) KPersisted = view (wDb w) KPersisted"
    and logs: "\<And>h r. (h, r) \<in> set (kids_keys (wKids w)) \<Longrightarrow> (h, r) \<notin> set (kids_keys (route_kids w rt)) \<Longrightarrow>
      view (wDb w1) (KLayerLog h r) = view (wDb w) (KLayerLog h r)"
    and chs: "\<And>h r. (h, r) \<in> set ((wHeight w, wRoot w) # kids_keys (wKids w)) \<Longrightarrow> (h, r) \<notin> set (kids_keys (route_kids w rt)) \<Longrightarrow>
      (h, r) \<noteq> (route_height w rt, route_root w rt) \<Longrightarrow> view (wDb w1) (KChildren h r) = view (wDb w) (KChildren h r)"
  shows "world_ok view w1"
proof -
  note W = world_okD [OF ok]
  have "(\<forall>k\<in>set (wKids w1). heights_ok (wHeight w + 1) k) \<and> (\<forall>k\<in>set (wKids w1). stored (view (wDb w1)) k) \<and>
      view (wDb w1) (KChildren (wHeight w) (wRoot w)) = Some (VChildren (map lRoot (wKids w1)))"
  proof (cases rt)
    case Nil
    then have "wKids w1 = f (wKids w)" using route_Nil rt w1(1) by force
    then show ?thesis using hs st par by (simp add: Nil route_height_def route_root_def route_kids_def)
  next
    case (Cons x up)
    have r: "route_height w rt = lHeight x" "route_root w rt = lRoot x" "route_kids w rt = lKids x"
      by (simp_all add: Cons route_height_def route_root_def route_kids_def)
    note rx = rt [unfolded Cons]
    have x: "set (layer_keys x) \<subseteq> set (kids_keys (wKids w))" by (rule keys_below [OF rx])
    then have "(wHeight w, wRoot w) \<notin> set (layer_keys x)" using W(1) by auto
    then have root: "view (wDb w1) (KChildren (wHeight w) (wRoot w)) = Some (VChildren (map lRoot (wKids w1)))"
      using chs [of "wHeight w" "wRoot w"] W(5) upd_roots [OF rx, of f] by (auto simp: r w1(1) layer_keys_alt)
    have "\<forall>k\<in>set (wKids w1). heights_ok (wHeight w + 1) k"
      unfolding w1(1) by (rule upd_heights [OF rx]) (use W(2) hs r in auto)
    moreover have "\<forall>k\<in>set (wKids w1). stored (view (wDb w1)) k"
      unfolding w1(1)
    proof (rule upd_stored [OF rx, where v = "view (wDb w)"])
      show "distinct (kids_keys (wKids w))" using W(1) by simp
      show "\<And>h r'. (h, r') \<in> set (kids_keys (wKids w)) \<Longrightarrow> (h, r') \<notin> set (layer_keys x) \<Longrightarrow>
          view (wDb w1) (KChildren h r') = view (wDb w) (KChildren h r')"
        using chs r by (auto simp: layer_keys_alt)
    qed (use W(6) st par logs r in auto)
    ultimately show ?thesis using root by blast
  qed
  then show ?thesis unfolding world_ok_def w1(2,3) using dist has W(4) pers by metis
qed

lemma updated_keys:
  assumes "route_of (wKids w) p = Some rt"
  shows "mset (kids_keys (upd_kids f p (wKids w))) + mset (kids_keys (route_kids w rt)) =
    mset (kids_keys (wKids w)) + mset (kids_keys (f (route_kids w rt)))"
proof (cases rt)
  case Nil
  then have "p = []" using route_Nil assms by blast
  then show ?thesis by (simp add: Nil route_kids_def)
next
  case (Cons x up)
  then show ?thesis using upd_keys [of "wKids w" p x up f] assms by (simp add: route_kids_def)
qed

lemma route_key:
  assumes "route_of (wKids w) p = Some rt"
  shows "(route_height w rt, route_root w rt) \<in> set ((wHeight w, wRoot w) # kids_keys (wKids w))"
    and "set (kids_keys (route_kids w rt)) \<subseteq> set (kids_keys (wKids w))"
  using assms keys_below [of "wKids w" p] keys_at [of "wKids w" p]
  by (cases rt; auto simp: route_height_def route_root_def route_kids_def layer_keys_alt)+

lemma route_key_above:
  assumes "world_ok view w" "route_of (wKids w) p = Some rt"
  shows "(route_height w rt, route_root w rt) \<notin> set (kids_keys (route_kids w rt))" "distinct (kids_keys (route_kids w rt))"
proof -
  have d: "distinct ((wHeight w, wRoot w) # kids_keys (wKids w))" by (rule world_okD(1) [OF assms(1)])
  then have "distinct (layer_keys x)" if "rt = x # up" for x up using distinct_route assms(2) that by auto
  then show "(route_height w rt, route_root w rt) \<notin> set (kids_keys (route_kids w rt))" "distinct (kids_keys (route_kids w rt))"
    using d by (cases rt; simp add: route_height_def route_root_def route_kids_def layer_keys_alt)+
qed

lemma route_kids_ok:
  assumes "world_ok view w" "route_of (wKids w) p = Some rt" "k \<in> set (route_kids w rt)"
  shows "heights_ok (route_height w rt + 1) k" "stored (view (wDb w)) k"
proof -
  note W = world_okD [OF assms(1)]
  have "heights_ok (route_height w rt + 1) k \<and> stored (view (wDb w)) k"
  proof (cases rt)
    case Nil
    then show ?thesis using W(2,6) assms(3) by (simp add: route_height_def route_kids_def)
  next
    case (Cons x up)
    have "heights_ok (lHeight x) x" using heights_route [OF _ assms(2) [unfolded Cons]] W(2) by blast
    moreover have "stored (view (wDb w)) x" using stored_route [OF _ assms(2) [unfolded Cons]] W(6) by blast
    moreover have "k \<in> set (lKids x)" using assms(3) by (simp add: Cons route_kids_def)
    ultimately show ?thesis
      using heights_kids [of "lHeight x" x k] stored_alt [of "view (wDb w)" x] by (simp add: Cons route_height_def)
  qed
  then show "heights_ok (route_height w rt + 1) k" "stored (view (wDb w)) k" by simp_all
qed

lemma attached_ok:
  assumes ok: "world_ok view w" and rt: "route_of (wKids w) p = Some rt"
    and h: "BlockNumber l = route_height w rt + 1"
    and new: "(BlockNumber l, RootHash l) \<notin> set ((wHeight w, wRoot w) # kids_keys (wKids w))"
    and att: "attached view w p rt l w1"
  shows "world_ok view w1"
proof -
  note W = world_okD [OF ok]
  let ?new = "Layer l [] [] [] []" and ?f = "\<lambda>ks. ks @ [Layer l [] [] [] []]"
  have A: "view (wDb w1) = (view (wDb w))
        (KChildren (BlockNumber l) (RootHash l) := Some (VChildren []),
         KLayerLog (BlockNumber l) (RootHash l) := Some (VLayerLog l),
         KChildren (route_height w rt) (route_root w rt) :=
           Some (VChildren (map lRoot (route_kids w rt @ [?new]))))"
    "wHeight w1 = wHeight w" "wRoot w1 = wRoot w"
    "wStates w1 = Register (BlockNumber l) (RootHash l) (wStates w)"
    "wKids w1 = upd_kids ?f p (wKids w)"
    using att by (simp_all add: attached_def)
  note key = route_key [OF rt] and above = route_key_above(1) [OF ok rt]
  have ne: "(route_height w rt, route_root w rt) \<noteq> (BlockNumber l, RootHash l)" using new key(1) by metis
  have ms: "mset (kids_keys (wKids w1)) = mset ((BlockNumber l, RootHash l) # kids_keys (wKids w))"
    using updated_keys [OF rt, of ?f] by (simp add: A(5) layer_keys_alt)
  then have ks: "set (kids_keys (wKids w1)) = insert (BlockNumber l, RootHash l) (set (kids_keys (wKids w)))"
    by (metis list.set(2) mset_eq_setD)
  have "distinct (kids_keys (wKids w1))" using W(1) new mset_eq_imp_distinct_iff [OF ms] by simp
  then have dist: "distinct ((wHeight w, wRoot w) # kids_keys (wKids w1))" using W(1) new ks by auto
  have rk: "stored (view (wDb w1)) k" if k: "k \<in> set (route_kids w rt)" for k
  proof -
    have "stored (view (wDb w)) k" by (rule route_kids_ok(2) [OF ok rt k])
    moreover have "stored (view (wDb w1)) k = stored (view (wDb w)) k"
    proof (rule stored_cong)
      fix h' r' assume "(h', r') \<in> set (layer_keys k)"
      then have "(h', r') \<in> set (kids_keys (route_kids w rt))" using kids_keys_mem [OF k] by blast
      then have "(h', r') \<noteq> (route_height w rt, route_root w rt)" "(h', r') \<noteq> (BlockNumber l, RootHash l)"
        using above key(2) new by auto
      then show "view (wDb w1) (KLayerLog h' r') = view (wDb w) (KLayerLog h' r') \<and>
          view (wDb w1) (KChildren h' r') = view (wDb w) (KChildren h' r')" by (auto simp: A(1))
    qed
    ultimately show ?thesis by simp
  qed
  show ?thesis
  proof (rule updated_ok [OF ok rt A(5,2,3) dist])
    show "Has h' r' (wStates w1) = ((h', r') \<in> set ((wHeight w, wRoot w) # kids_keys (wKids w1)))" for h' r'
      using W(3) ks by (auto simp: A(4) Has_Register)
    show "\<forall>k\<in>set (?f (route_kids w rt)). heights_ok (route_height w rt + 1) k"
      using route_kids_ok(1) [OF ok rt] h by auto
    show "\<forall>k\<in>set (?f (route_kids w rt)). stored (view (wDb w1)) k" using rk ne by (auto simp: A(1))
  qed (use new in \<open>auto simp: A(1)\<close>)
qed

lemma write_children_view:
  assumes "ds_reliable (leApi env) view"
  shows "view (write_children env h r kids db) = (view db)(KChildren h r := Some (VChildren (map lRoot kids)))"
proof -
  note R = ds_reliableD [OF assms]
  obtain db' where db': "txnCommit (leApi env) db [BPut (KChildren h r) (VChildren (map lRoot kids))] = Inr db'"
    using R(5) by blast
  have "write_children env h r kids db = db'"
    by (simp add: write_children_def R(3,4) PutChildren_def tput_def db')
  then show ?thesis using ds_lawD(3) [OF R(1) db' [unfolded txnCommit_def]] by simp
qed

text \<open>Loading the layer that was just stored.\<close>

lemma newLayered_new:
  assumes "ds_reliable api view" and "view db (KLayerLog h r) = Some (VLayerLog l)"
    and "view db (KChildren h r) = Some (VChildren [])"
  shows "newLayered api (Suc n) db h r st = (Inr (Layer l [] [] [] []), Register h r st)"
  using assms(2,3)
  by (simp add: GetLayerLog_def StateStore.GetChildren_def ds_reliableD(2) [OF assms(1)])

text \<open>The archive with the new layer in the tree, before anything is pruned.\<close>

definition attach_new :: "'db lenv \<Rightarrow> layer_log \<Rightarrow> path \<Rightarrow> 'db world \<Rightarrow> 'db \<Rightarrow> 'db world" where
  "attach_new env l p w db =
     AddChild env p (Layer l [] [] [] []) (w\<lparr>wDb := db, wStates := Register (BlockNumber l) (RootHash l) (wStates w)\<rparr>)"

definition commit_ops :: "layer_log \<Rightarrow> batch" where
  "commit_ops l = [BPut (KChildren (BlockNumber l) (RootHash l)) (VChildren []),
     BPut (KLayerLog (BlockNumber l) (RootHash l)) (VLayerLog l)]"

lemma commit_unfold:
  assumes rel: "ds_reliable (leApi env) view" and rt: "route_of (wKids w) p = Some rt"
    and new: "(block, rootHash) \<notin> set ((wHeight w, wRoot w) # kids_keys (wKids w))"
    and ok: "world_ok view w" and h: "block = route_height w rt + 1"
    and cm: "\<not> committed tc" "block = tnewHeight tc"
  obtains db w1 where "txnCommit (leApi env) (wDb w) (commit_ops (commit_log (leHash env) tc block rootHash)) = Inr db"
    "w1 = attach_new env (commit_log (leHash env) tc block rootHash) p w db"
    "attached view w p rt (commit_log (leHash env) tc block rootHash) w1"
    "wCommit env (Suc n) tc p block rootHash w =
       (case HandlePrune env (p @ [rootHash]) w1 of
          Inl e \<Rightarrow> (Inl (PanicStore e), w1) | Inr w2 \<Rightarrow> (Inr rootHash, w2))"
    "maxLayerToRetain w1 = maxLayerToRetain w" "pruningFrequency w1 = pruningFrequency w"
proof -
  note R = ds_reliableD [OF rel]
  let ?l = "commit_log (leHash env) tc block rootHash"
  let ?b = "[BPut (KChildren block rootHash) (VChildren []), BPut (KLayerLog block rootHash) (VLayerLog ?l)]"
  have bl: "BlockNumber ?l = block" "RootHash ?l = rootHash" by (simp_all add: commit_log_def)
  obtain db where db: "txnCommit (leApi env) (wDb w) ?b = Inr db" using R(5) by blast
  have v: "view db = (view (wDb w))(KChildren block rootHash := Some (VChildren []),
      KLayerLog block rootHash := Some (VLayerLog ?l))"
    using ds_lawD(3) [OF R(1) db [unfolded txnCommit_def]] by simp
  have txn: "rbind (NewTransaction (leApi env) (wDb w))
              (\<lambda>b. rbind (PutChildren (leApi env) (wDb w) block rootHash [] b)
                (\<lambda>b. rbind (PutLayerLog (leApi env) (wDb w) ?l b) (txnCommit (leApi env) (wDb w)))) = Inr db"
    using db by (simp add: R(3,4) PutChildren_def PutLayerLog_def tput_def bl)
  have nl: "newLayered (leApi env) (Suc n) db block rootHash (wStates w) =
      (Inr (Layer ?l [] [] [] []), Register block rootHash (wStates w))"
    by (rule newLayered_new [OF rel]) (simp_all add: v)
  let ?w0 = "w\<lparr>wDb := db, wStates := Register block rootHash (wStates w)\<rparr>"
  let ?w1 = "AddChild env p (Layer ?l [] [] [] []) ?w0"
  have la: "layer_at ?w0 p = Some (route_height w rt, route_root w rt, route_kids w rt)"
    using rt by (cases rt) (simp_all add: layer_at_def route_height_def route_root_def route_kids_def)
  have w1: "?w1 = ?w0\<lparr>wDb := write_children env (route_height w rt) (route_root w rt)
        (route_kids w rt @ [Layer ?l [] [] [] []]) db,
      wKids := upd_kids (\<lambda>ks. ks @ [Layer ?l [] [] [] []]) p (wKids w)\<rparr>"
    by (simp add: AddChild_def la)
  have att: "attached view w p rt ?l ?w1"
    unfolding attached_def w1 bl by (simp add: write_children_view [OF rel] v)
  have "\<not> Has block rootHash (wStates w)" using new world_okD(3) [OF ok] by blast
  then have "wCommit env (Suc n) tc p block rootHash w = (case HandlePrune env (p @ [rootHash]) ?w1 of
            Inl e \<Rightarrow> (Inl (PanicStore e), ?w1) | Inr w2 \<Rightarrow> (Inr rootHash, w2))"
    unfolding wCommit_def txn sum.case nl prod.case Let_def using cm by simp
  moreover have "?w1 = attach_new env ?l p w db" by (simp add: attach_new_def bl)
  moreover have "maxLayerToRetain ?w1 = maxLayerToRetain w" "pruningFrequency ?w1 = pruningFrequency w"
    by (simp_all add: w1)
  ultimately show thesis using that [of db ?w1] db att by (simp only: commit_ops_def bl)
qed

lemma commit_attaches:
  assumes rel: "ds_reliable (leApi env) view" and rt: "route_of (wKids w) p = Some rt"
    and new: "(block, rootHash) \<notin> set ((wHeight w, wRoot w) # kids_keys (wKids w))"
    and ok: "world_ok view w" and h: "block = route_height w rt + 1"
    and com: "wCommit env (Suc n) tc p block rootHash w = (Inr res, w')"
  obtains db w1 where "txnCommit (leApi env) (wDb w) (commit_ops (commit_log (leHash env) tc block rootHash)) = Inr db"
    "w1 = attach_new env (commit_log (leHash env) tc block rootHash) p w db"
    "attached view w p rt (commit_log (leHash env) tc block rootHash) w1"
    "HandlePrune env (p @ [rootHash]) w1 = Inr w'" "res = rootHash"
    "maxLayerToRetain w1 = maxLayerToRetain w" "pruningFrequency w1 = pruningFrequency w"
proof -
  have cm: "\<not> committed tc" "block = tnewHeight tc" using com by (auto simp: wCommit_def split: if_splits)
  from commit_unfold [OF rel rt new ok h cm, of n] obtain db w1 where
    w: "txnCommit (leApi env) (wDb w) (commit_ops (commit_log (leHash env) tc block rootHash)) = Inr db"
    "w1 = attach_new env (commit_log (leHash env) tc block rootHash) p w db"
    "attached view w p rt (commit_log (leHash env) tc block rootHash) w1"
    "wCommit env (Suc n) tc p block rootHash w =
       (case HandlePrune env (p @ [rootHash]) w1 of
          Inl e \<Rightarrow> (Inl (PanicStore e), w1) | Inr w2 \<Rightarrow> (Inr rootHash, w2))"
    "maxLayerToRetain w1 = maxLayerToRetain w" "pruningFrequency w1 = pruningFrequency w" .
  have "HandlePrune env (p @ [rootHash]) w1 = Inr w' \<and> res = rootHash"
    using com w(4) by (simp split: sum.splits)
  then show thesis using that [OF w(1-3) _ _ w(5,6)] by blast
qed

text \<open>All the prune steps of a list succeed.\<close>

fun prunes_ok :: "'db lenv \<Rightarrow> path \<Rightarrow> 'db world \<Rightarrow> bool" where
  "prunes_ok env [] w = True"
| "prunes_ok env (r # rs) w =
     (case pruneOne env r w of (Inr u, w') \<Rightarrow> prunes_ok env rs w' | (Inl e, w') \<Rightarrow> False)"

fun logs_distinct :: "layer \<Rightarrow> bool" where
  "logs_distinct (Layer l ca cc cs kids) = (log_distinct l \<and> (\<forall>k\<in>set kids. logs_distinct k))"

lemma logs_distinct_alt: "logs_distinct l = (log_distinct (lLog l) \<and> (\<forall>k\<in>set (lKids l). logs_distinct k))"
  by (cases l) simp

lemma pruneAll_ok:
  assumes rel: "ds_reliable (leApi env) view"
  shows "world_ok view w \<Longrightarrow> \<forall>k\<in>set (wKids w). logs_distinct k \<Longrightarrow> prunes_ok env rs w \<Longrightarrow>
    pruneAll env rs w = Inr w' \<Longrightarrow> world_ok view w'"
proof (induction rs arbitrary: w)
  case Nil
  then show ?case by simp
next
  case (Cons r rs)
  obtain u w1 where p: "pruneOne env r w = (Inr u, w1)"
    using Cons.prems(3) by (cases "pruneOne env r w"; cases "fst (pruneOne env r w)") auto
  from p obtain c where c: "find (\<lambda>l. lRoot l = r) (wKids w) = Some c" "wKids w1 = lKids c" by (elim pruneOneE)
  have cin: "c \<in> set (wKids w)" using find_split [OF c(1)] by auto
  have ld: "log_distinct (lLog c)" "\<forall>k\<in>set (lKids c). logs_distinct k"
    using Cons.prems(2) cin by (metis logs_distinct_alt)+
  have "world_ok view w1" by (rule prune_world_ok [OF rel Cons.prems(1) p c(1) ld(1)])
  then show ?case using Cons.IH [of w1] Cons.prems(3,4) p c(2) ld(2) by simp
qed

lemma upd_kids_logs:
  assumes "\<And>ks. \<forall>k\<in>set ks. logs_distinct k \<Longrightarrow> \<forall>k\<in>set (f ks). logs_distinct k"
  shows "\<forall>k\<in>set kids. logs_distinct k \<Longrightarrow> \<forall>k\<in>set (upd_kids f p kids). logs_distinct k"
proof (induction p arbitrary: kids)
  case Nil
  then show ?case using assms by simp
next
  case (Cons r p)
  note IH = Cons.IH
  from Cons.prems show ?case
  proof (induction kids)
    case Nil
    then show ?case by simp
  next
    case (Cons l kids)
    obtain ll ca cc cs ks where l: "l = Layer ll ca cc cs ks" by (cases l)
    have "\<forall>k\<in>set (upd_kids f p ks). logs_distinct k"
      by (rule IH) (use Cons.prems l in simp)
    moreover have "\<forall>k\<in>set (upd_kids f (r # p) kids). logs_distinct k"
      by (rule Cons.IH) (use Cons.prems in simp)
    ultimately show ?case using Cons.prems by (simp add: l)
  qed
qed



subsection \<open>An example\<close>

lemma demo_world_ok: "world_ok map_of demo_world"
  by (auto simp: world_ok_def demo_world_def demo_kids_def demo_log_def plain_log_def Has_def demo_store_def)

lemma demo_logs: "\<forall>k\<in>set (wKids demo_world). logs_distinct k"
  by (simp add: demo_world_def demo_kids_def log_distinct_def demo_log_def plain_log_def)

lemma demo_prune_gone: "\<not> Has 1 12 (wStates (snd (pruneOne demo_env 11 demo_world)))"
  by code_simp


text \<open>A block 3 on the layer 2: one layer more than are retained, so the first is pruned.\<close>

definition demo_tc :: temp_committed where
  "demo_tc = (newTempCommittedState (layer_view demo_env (wDb demo_world) []) 3)
     \<lparr>CommittedAccounts := [(1, \<lparr> Nonce = 2, Balance = 4, CodeHash = 101, DirtyStorage = True, Version = 1 \<rparr>)]\<rparr>"

abbreviation demo_commit_result :: "(store_err + hash) \<times> (dskey, dsval) gmap world" where
  "demo_commit_result \<equiv> wCommit demo_env 1 demo_tc [11, 21] 3 31 demo_world"

lemma demo_commit_ok: "\<not> isl (fst demo_commit_result)"
  by code_simp

lemma demo_commit_log: "log_distinct (commit_log (leHash demo_env) demo_tc 3 31)"
  by (simp add: log_distinct_def commit_log_def demo_tc_def newTempCommittedState_def trim_counts_def)

lemma demo_commit_prunes:
  "prunes_ok demo_env [11] (attach_new demo_env (commit_log (leHash demo_env) demo_tc 3 31) [11, 21] demo_world
     (projr (txnCommit mem_api (wDb demo_world) (commit_ops (commit_log (leHash demo_env) demo_tc 3 31)))))"
  by code_simp

lemma demo_pruned: "getToBePruned demo_world ([11, 21] @ [31]) = Inr [11]"
  by (simp add: getToBePruned_def demo_world_def)

lemma demo_commit': "demo_commit_result = (Inr (projr (fst demo_commit_result)), snd demo_commit_result)"
  using not_isl [OF demo_commit_ok] by (simp add: prod_eq_iff)

lemma demo_commit_state:
  "Has 3 31 (wStates (snd demo_commit_result))" "\<not> Has 1 12 (wStates (snd demo_commit_result))"
  "wHeight (snd demo_commit_result) = 1"
  by code_simp+


end
