(* ===== verification/Restart.thy ===== *)
theory Restart
  imports WorldInv
begin

section \<open>Restart\<close>

text \<open>
  \<open>NewLayeredWorldStateArchiveImpl\<close> on the store of a consistent world gives the same tree of
  layers back, with empty caches: nothing a running archive answers is lost by a restart.
\<close>

text \<open>A layer as it is loaded: the logs of the tree, no cache.\<close>

fun uncached :: "layer \<Rightarrow> layer" where
  "uncached (Layer l ca cc cs kids) = Layer l [] [] [] (map uncached kids)"

lemma uncached_simps [simp]:
  "lLog (uncached l) = lLog l" "lKids (uncached l) = map uncached (lKids l)"
  by (cases l; simp)+

lemma uncached_roots [simp]: "map lRoot (map uncached kids) = map lRoot kids"
  by simp

fun depth :: "layer \<Rightarrow> nat" where
  "depth (Layer l ca cc cs kids) = Suc (fold max (map depth kids) 0)"

lemma fold_max_start: "n \<le> fold max ns (n :: nat)"
proof (induction ns arbitrary: n)
  case (Cons x ns)
  show ?case using Cons [of "max x n"] by simp
qed simp

lemma fold_max: "n \<in> set ns \<Longrightarrow> n \<le> fold max ns (m :: nat)"
proof (induction ns arbitrary: m)
  case (Cons x ns)
  then show ?case using fold_max_start [of "max x m" ns] by auto
qed simp

lemma depth_kid: "k \<in> set kids \<Longrightarrow> depth (Layer l ca cc cs kids) \<le> Suc n \<Longrightarrow> depth k \<le> n"
  using fold_max [of "depth k" "map depth kids" 0] by auto

lemma uncached_keys [simp]: "layer_keys (uncached l) = layer_keys l"
proof (induction l)
  case (Layer l ca cc cs kids)
  then have "map (layer_keys \<circ> uncached) kids = map layer_keys kids" by simp
  then show ?case by (simp del: map_eq_conv)
qed

lemma uncached_kids_keys [simp]: "kids_keys (map uncached kids) = kids_keys kids"
  by (simp add: kids_keys_def comp_def)

lemma uncached_stored [simp]: "stored f (uncached l) = stored f l"
  by (induction l) auto

lemma uncached_heights [simp]: "heights_ok h (uncached l) = heights_ok h l"
  by (induction l arbitrary: h) auto

subsection \<open>Loading\<close>

definition register_all :: "(u64 \<times> hash) list \<Rightarrow> states \<Rightarrow> states" where
  "register_all ks st = fold (\<lambda>(h, r). Register h r) ks st"

lemma register_all_simps [simp]:
  "register_all [] st = st" "register_all ((h, r) # ks) st = register_all ks (Register h r st)"
  "register_all (xs @ ys) st = register_all ys (register_all xs st)"
  by (simp_all add: register_all_def)

lemma Has_register_all: "Has h r (register_all ks st) = ((h, r) \<in> set ks \<or> Has h r st)"
proof (induction ks arbitrary: st)
  case (Cons x ks)
  then show ?case by (cases x) (auto simp: Has_Register)
qed simp

lemma load_kids_all:
  "(\<And>k st. k \<in> set kids \<Longrightarrow> f (lRoot k) st = (Inr (uncached k), register_all (layer_keys k) st)) \<Longrightarrow>
   load_kids f (map lRoot kids) st = (Inr (map uncached kids), register_all (kids_keys kids) st)"
proof (induction kids arbitrary: st)
  case (Cons k kids)
  have "f (lRoot k) st = (Inr (uncached k), register_all (layer_keys k) st)" by (rule Cons.prems) simp
  moreover have "load_kids f (map lRoot kids) st' = (Inr (map uncached kids), register_all (kids_keys kids) st')" for st'
    by (rule Cons.IH, rule Cons.prems) simp
  ultimately show ?case by simp
qed simp

lemma load_layer:
  assumes rel: "ds_reliable api view"
  shows "stored (view db) l \<Longrightarrow> heights_ok h l \<Longrightarrow> depth l \<le> n \<Longrightarrow>
    newLayered api n db h (lRoot l) st = (Inr (uncached l), register_all (layer_keys l) st)"
proof (induction l arbitrary: h n st)
  case (Layer l ca cc cs kids)
  from Layer.prems(3) obtain m where n: "n = Suc m" by (cases n) auto
  have kid: "newLayered api m db (h + 1) (lRoot k) st' = (Inr (uncached k), register_all (layer_keys k) st')"
    if "k \<in> set kids" for k st'
    using Layer.IH [OF that] Layer.prems that depth_kid [OF that] n by simp
  have "GetLayerLog api db h (RootHash l) = Inr l" "StateStore.GetChildren api db h (RootHash l) = Inr (map lRoot kids)"
    using Layer.prems(1,2) by (simp_all add: GetLayerLog_def StateStore.GetChildren_def ds_reliableD(2) [OF rel])
  then show ?case
    using load_kids_all [of kids "newLayered api m db (h + 1)" "Register h (RootHash l) st"] kid Layer.prems(2)
    by (simp add: n kids_keys_def)
qed

subsection \<open>What is found afterwards\<close>

lemma find_uncached: "find (\<lambda>l. lRoot l = r) (map uncached kids) = map_option uncached (find (\<lambda>l. lRoot l = r) kids)"
  by (induction kids) simp_all

lemma route_uncached: "route_of (map uncached kids) p = map_option (map uncached) (route_of kids p)"
  by (induction p arbitrary: kids) (auto simp: find_uncached option.map_comp comp_def split: option.split)

lemma find_path_uncached: "find_path h r (uncached l) = find_path h r l"
proof (induction l)
  case (Layer l ca cc cs kids)
  then have "map (find_path h r \<circ> uncached) kids = map (find_path h r) kids" by simp
  then show ?case by (simp del: map_eq_conv)
qed

lemma spec_uncached:
  "specAccount kc f (map uncached rt) = specAccount kc f rt"
  "specStorage f (map uncached rt) = specStorage f rt"
proof -
  have "specAccount kc f (map uncached rt) ad = specAccount kc f rt ad" for ad
    by (induction rt) (simp_all split: option.split)
  moreover have "specStorage f (map uncached rt) ad ver k = specStorage f rt ad ver k" for ad ver k
    by (induction rt) (simp_all split: option.split)
  ultimately show "specAccount kc f (map uncached rt) = specAccount kc f rt"
    "specStorage f (map uncached rt) = specStorage f rt" by (simp_all add: fun_eq_iff)
qed

lemma route_ok_uncached: "route_ok kc f rt \<Longrightarrow> route_ok kc f (map uncached rt)"
proof (induction rt)
  case (Cons l up)
  then show ?case by (cases l) auto
qed simp

text \<open>(C10)
  A restart loses nothing: when the datastore answers and the fuel allows for the depth of the
  tree, opening the archive on the store of a consistent world succeeds; the tree it loads has
  the same layers without their caches, is registered and stored consistently, every state is
  found where it was found before, and with caches that were right the accounts and slots read
  through the loaded layers are those read before.
\<close>

theorem restart_rebuilds:
  assumes "ds_reliable (leApi env) view" and "world_ok view w" and "\<forall>k\<in>set (wKids w). depth k \<le> fuel"
  shows "\<exists>w'. NewArchive (leApi env) fuel maxLayer frequency (wDb w) = Inr w' \<and>
    wKids w' = map uncached (wKids w) \<and> maxLayerToRetain w' = maxLayer \<and> pruningFrequency w' = frequency \<and>
    world_ok view w' \<and> (\<forall>h r. Has h r (wStates w') = Has h r (wStates w)) \<and>
    (\<forall>h r. GetLayared h r w' = GetLayared h r w) \<and>
    (\<forall>p rt. route_of (wKids w) p = Some rt \<longrightarrow> route_of (wKids w') p = Some (map uncached rt) \<and>
       (typed (leHash env) (view (wDb w)) \<longrightarrow> route_ok (leHash env) (view (wDb w)) rt \<longrightarrow>
        (\<forall>ad ver k. lookAccount env (wDb w') (map uncached rt) ad = lookAccount env (wDb w) rt ad \<and>
           lookStorage env (wDb w') (map uncached rt) ad ver k = lookStorage env (wDb w) rt ad ver k)))"
proof -
  note W = world_okD [OF assms(2)]
  let ?st = "register_all (kids_keys (wKids w)) (Register (wHeight w) (wRoot w) [])"
  let ?w' = "\<lparr> wDb = wDb w, wHeight = wHeight w, wRoot = wRoot w, wKids = map uncached (wKids w), wStates = ?st,
               maxLayerToRetain = maxLayer, pruningFrequency = frequency \<rparr>"
  have k: "load_kids (newLayered (leApi env) fuel (wDb w) (wHeight w + 1)) (map lRoot (wKids w)) st =
      (Inr (map uncached (wKids w)), register_all (kids_keys (wKids w)) st)" for st
    by (rule load_kids_all, rule load_layer [OF assms(1)]) (use W(2,6) assms(3) in auto)
  have e: "NewArchive (leApi env) fuel maxLayer frequency (wDb w) = Inr ?w'"
    using W(4,5) k by (simp add: NewArchive_def GetPersistedHeight_def StateStore.GetChildren_def ds_reliableD(2) [OF assms(1)])
  have h: "Has h r ?st = Has h r (wStates w)" for h r
    unfolding W(3) Has_register_all Has_Register by (auto simp: Has_def)
  have ok: "world_ok view ?w'"
    using assms(2) h by (simp add: world_ok_def)
  have g: "GetLayared h r ?w' = GetLayared h r w" for h r
  proof -
    have "map (find_path h r \<circ> uncached) (wKids w) = map (find_path h r) (wKids w)" by (simp add: find_path_uncached)
    then show ?thesis by (simp add: GetLayared_def h del: map_eq_conv)
  qed
  have l: "lookAccount env (wDb w) (map uncached rt) ad = lookAccount env (wDb w) rt ad"
    "lookStorage env (wDb w) (map uncached rt) ad ver k = lookStorage env (wDb w) rt ad ver k"
    if "typed (leHash env) (view (wDb w))" "route_ok (leHash env) (view (wDb w)) rt" for rt ad ver k
    using look_spec [OF assms(1) that] look_spec [OF assms(1) that(1) route_ok_uncached [OF that(2)]]
    by (simp_all add: spec_uncached)
  show ?thesis
    by (rule exI [of _ ?w']) (use e h ok g l in \<open>auto simp: route_uncached\<close>)
qed

lemma demo_found: "GetLayared 2 21 demo_world = Some [11, 21]"
  by code_simp

theorem restart_rebuilds_witness:
  "\<exists>w'. NewArchive (leApi demo_env) 2 4 2 (wDb demo_world) = Inr w' \<and> wKids w' = map uncached demo_kids \<and>
     GetLayared 2 21 w' = Some [11, 21]"
proof -
  have rel: "ds_reliable (leApi demo_env) map_of" using mem_reliable by simp
  have d: "\<forall>k\<in>set (wKids demo_world). depth k \<le> 2" by (simp add: demo_world_def demo_kids_def)
  have k: "wKids demo_world = demo_kids" by (simp add: demo_world_def)
  from restart_rebuilds [OF rel demo_world_ok d, of 4 2] show ?thesis unfolding k demo_found [symmetric] by blast
qed

end
