(* ===== verification/Blockchain.thy ===== *)
theory Blockchain
  imports TempCommitted
begin

section \<open>The block store\<close>

text \<open>
  The model of \<open>blockchain/blockchain_impl.go\<close>: the blocks, the forks of every height with the
  canonical block in front, the indices of transactions and receipts, the head, and pruning
  from the tail. A key of the datastore is a \<open>bkey\<close>, one constructor per key function of
  \<open>blockchain/utils.go\<close>, a value a \<open>bval\<close>, one per encoder (\<open>Keys\<close> and \<open>CodecLaws\<close>
  are about the strings and bytes). Of the block types of go-ethereum, which are not under
  \<open>src/\<close>, a block has the fields the code reads, its hash included.

  Badger is a parameter again (\<open>bc_api\<close>): the code reads it directly and writes to a
  transaction, so a read never sees what the same call has queued. Timeouts and failures are
  errors of the parameter.
\<close>

record header =
  hParentHash :: hash
  hNumber :: u64
  hRoot :: hash
  hGasUsed :: u64
  hGasLimit :: u64
  hBloom :: bytes
  hReceiptHash :: hash
  hTime :: u64

record transaction =
  txHash :: hash
  txType :: u8
  txNonce :: u64
  txBlobHashes :: "hash list"
  txData :: bytes

record receipt =
  rTxHash :: hash
  rType :: u8
  rPostState :: "hash option"
  rStatus :: bool
  rCumulativeGasUsed :: u64
  rGasUsed :: u64
  rBlobGasUsed :: u64
  rContractAddress :: "address option"
  rLogs :: "log_entry list"
  rBloom :: bytes
  rBlockHash :: hash
  rBlockNumber :: u64
  rTransactionIndex :: int

record block =
  bHash :: hash
  bHeader :: header
  bTransactions :: "transaction list"
  bWithdrawals :: "bytes list"
  bBeaconRoot :: "hash option"

abbreviation NumberU64 :: "block \<Rightarrow> u64" where "NumberU64 b \<equiv> hNumber (bHeader b)"
abbreviation ParentHash :: "block \<Rightarrow> hash" where "ParentHash b \<equiv> hParentHash (bHeader b)"

datatype bkey =
    BlockK hash
  | TxK hash
  | ReceiptK hash
  | ForkK u64
  | TailK
  | HeadK
  | FinalizedK
  | SafeK

datatype bval =
    VBlock block
  | VTx transaction hash u64
  | VReceipt receipt hash u64
  | VForks "hash list"
  | VTail u64
  | VHead hash

datatype bc_err =
    BNotFound
  | BDatastore
  | BDecode
  | BNoParent hash hash
  | BReceiptCount nat nat
  | BReceiptMismatch hash hash
  | BForkEmpty u64
  | BNotCanonical u64
  | BMajorReorg u64 u64
  | BIndexPanic
  | BOutOfFuel

datatype bop = BcPut bkey bval | BcDelete bkey

record 'db bc_api =
  bcGet :: "'db \<Rightarrow> bkey \<Rightarrow> bc_err + bval"
  bcHas :: "'db \<Rightarrow> bkey \<Rightarrow> bc_err + bool"
  bcTxn :: "'db \<Rightarrow> bc_err option"
  bcQueue :: "'db \<Rightarrow> bkey \<Rightarrow> bc_err option"
  bcCommit :: "'db \<Rightarrow> bop list \<Rightarrow> bc_err + 'db"

type_synonym bview = "bkey \<Rightarrow> bval option"

fun apply_bop :: "bop \<Rightarrow> bview \<Rightarrow> bview" where
  "apply_bop (BcPut k v) f = f(k := Some v)"
| "apply_bop (BcDelete k) f = f(k := None)"

text \<open>What is documented of the datastore: reads tell what is there, a commit writes the batch.\<close>

definition bc_law :: "'db bc_api \<Rightarrow> ('db \<Rightarrow> bview) \<Rightarrow> bool" where
  "bc_law api view =
     ((\<forall>db k v. bcGet api db k = Inr v \<longrightarrow> view db k = Some v) \<and>
      (\<forall>db k. bcGet api db k = Inl BNotFound \<longrightarrow> view db k = None) \<and>
      (\<forall>db k h. bcHas api db k = Inr h \<longrightarrow> h = (view db k \<noteq> None)) \<and>
      (\<forall>db ops db'. bcCommit api db ops = Inr db' \<longrightarrow> view db' = fold apply_bop ops (view db)))"

lemma bc_lawD:
  assumes "bc_law api view"
  shows "bcGet api db k = Inr v \<Longrightarrow> view db k = Some v"
    and "bcGet api db k = Inl BNotFound \<Longrightarrow> view db k = None"
    and "bcHas api db k = Inr h \<Longrightarrow> h = (view db k \<noteq> None)"
    and "bcCommit api db ops = Inr db' \<Longrightarrow> view db' = fold apply_bop ops (view db)"
  using assms unfolding bc_law_def by blast+

record 'db blockchain =
  bcDb :: 'db
  tail :: u64
  MaxBlockToRetain :: u64
  PruningFrequency :: u64

subsection \<open>Reads\<close>

text \<open>The decoders: a value of another kind does not decode.\<close>

definition asBlock :: "bval \<Rightarrow> bc_err + block" where
  "asBlock v = (case v of VBlock b \<Rightarrow> Inr b | _ \<Rightarrow> Inl BDecode)"

definition asForks :: "bval \<Rightarrow> bc_err + hash list" where
  "asForks v = (case v of VForks fs \<Rightarrow> Inr fs | _ \<Rightarrow> Inl BDecode)"

definition asHash :: "bval \<Rightarrow> bc_err + hash" where
  "asHash v = (case v of VHead h \<Rightarrow> Inr h | _ \<Rightarrow> Inl BDecode)"

definition HasBlock :: "'db bc_api \<Rightarrow> 'db blockchain \<Rightarrow> hash \<Rightarrow> bc_err + bool" where
  "HasBlock api bc h = bcHas api (bcDb bc) (BlockK h)"

definition GetBlockByHash :: "'db bc_api \<Rightarrow> 'db blockchain \<Rightarrow> hash \<Rightarrow> bc_err + block" where
  "GetBlockByHash api bc h = rbind (bcGet api (bcDb bc) (BlockK h)) asBlock"

definition getForks :: "'db bc_api \<Rightarrow> 'db blockchain \<Rightarrow> u64 \<Rightarrow> bc_err + hash list" where
  "getForks api bc height = rbind (bcGet api (bcDb bc) (ForkK height)) asForks"

definition GetBlockByNumber :: "'db bc_api \<Rightarrow> 'db blockchain \<Rightarrow> u64 \<Rightarrow> bc_err + block" where
  "GetBlockByNumber api bc height =
     rbind (getForks api bc height) (\<lambda>forks.
       if forks = [] then Inl (BForkEmpty height)
       else if hd forks = 0 then Inl (BNotCanonical height)
       else GetBlockByHash api bc (hd forks))"

definition GetHeaderByHash :: "'db bc_api \<Rightarrow> 'db blockchain \<Rightarrow> hash \<Rightarrow> bc_err + header" where
  "GetHeaderByHash api bc h = rbind (GetBlockByHash api bc h) (\<lambda>b. Inr (bHeader b))"

definition GetHeaderByNumber :: "'db bc_api \<Rightarrow> 'db blockchain \<Rightarrow> u64 \<Rightarrow> bc_err + header" where
  "GetHeaderByNumber api bc height = rbind (GetBlockByNumber api bc height) (\<lambda>b. Inr (bHeader b))"

text \<open>\<open>Inr None\<close> is the answer "not there" (\<open>exists\<close> false, no error).\<close>

definition GetTransaction ::
  "'db bc_api \<Rightarrow> 'db blockchain \<Rightarrow> hash \<Rightarrow> bc_err + (transaction \<times> hash \<times> u64) option"
where
  "GetTransaction api bc h =
     (case bcGet api (bcDb bc) (TxK h) of
        Inl BNotFound \<Rightarrow> Inr None
      | Inl e \<Rightarrow> Inl e
      | Inr (VTx t b i) \<Rightarrow> Inr (Some (t, b, i))
      | Inr _ \<Rightarrow> Inl BDecode)"

definition GetReceipt ::
  "'db bc_api \<Rightarrow> 'db blockchain \<Rightarrow> hash \<Rightarrow> bc_err + (receipt \<times> hash \<times> u64) option"
where
  "GetReceipt api bc h =
     (case bcGet api (bcDb bc) (ReceiptK h) of
        Inl BNotFound \<Rightarrow> Inr None
      | Inl e \<Rightarrow> Inl e
      | Inr (VReceipt r b i) \<Rightarrow> Inr (Some (r, b, i))
      | Inr _ \<Rightarrow> Inl BDecode)"

definition GetHead :: "'db bc_api \<Rightarrow> 'db blockchain \<Rightarrow> bc_err + block" where
  "GetHead api bc =
     rbind (bcGet api (bcDb bc) HeadK) (\<lambda>v. rbind (asHash v) (GetBlockByHash api bc))"

definition getTagged :: "'db bc_api \<Rightarrow> 'db blockchain \<Rightarrow> bkey \<Rightarrow> bc_err + block option" where
  "getTagged api bc key =
     (case bcGet api (bcDb bc) key of
        Inl BNotFound \<Rightarrow> Inr None
      | Inl e \<Rightarrow> Inl e
      | Inr v \<Rightarrow> rbind (asHash v) (\<lambda>h. rbind (GetBlockByHash api bc h) (\<lambda>b. Inr (Some b))))"

definition GetFinalized :: "'db bc_api \<Rightarrow> 'db blockchain \<Rightarrow> bc_err + block option" where
  "GetFinalized api bc = getTagged api bc FinalizedK"

definition GetSafe :: "'db bc_api \<Rightarrow> 'db blockchain \<Rightarrow> bc_err + block option" where
  "GetSafe api bc = getTagged api bc SafeK"

subsection \<open>Transactions of the datastore\<close>

definition bcBegin :: "'db bc_api \<Rightarrow> 'db blockchain \<Rightarrow> bc_err + bop list" where
  "bcBegin api bc = (case bcTxn api (bcDb bc) of Some e \<Rightarrow> Inl e | None \<Rightarrow> Inr [])"

definition bcPut :: "'db bc_api \<Rightarrow> 'db blockchain \<Rightarrow> bkey \<Rightarrow> bval \<Rightarrow> bop list \<Rightarrow> bc_err + bop list" where
  "bcPut api bc k v b = (case bcQueue api (bcDb bc) k of Some e \<Rightarrow> Inl e | None \<Rightarrow> Inr (b @ [BcPut k v]))"

definition bcDelete :: "'db bc_api \<Rightarrow> 'db blockchain \<Rightarrow> bkey \<Rightarrow> bop list \<Rightarrow> bc_err + bop list" where
  "bcDelete api bc k b = (case bcQueue api (bcDb bc) k of Some e \<Rightarrow> Inl e | None \<Rightarrow> Inr (b @ [BcDelete k]))"

definition bcEnd :: "'db bc_api \<Rightarrow> 'db blockchain \<Rightarrow> bop list \<Rightarrow> bc_err + 'db blockchain" where
  "bcEnd api bc b = rbind (bcCommit api (bcDb bc) b) (\<lambda>db. Inr (bc\<lparr>bcDb := db\<rparr>))"

subsection \<open>Start\<close>

text \<open>On an open datastore: the tail of an existing one, else the genesis block is written.\<close>

definition NewBlockchain :: "'db bc_api \<Rightarrow> u64 \<Rightarrow> u64 \<Rightarrow> block \<Rightarrow> 'db \<Rightarrow> bc_err + 'db blockchain" where
  "NewBlockchain api maxBlock frequency genesis db =
     (let bc = \<lparr> bcDb = db, tail = 0, MaxBlockToRetain = maxBlock, PruningFrequency = frequency \<rparr>
      in case bcGet api db TailK of
           Inr (VTail t) \<Rightarrow> Inr (bc\<lparr>tail := t\<rparr>)
         | Inr _ \<Rightarrow> Inl BDecode
         | Inl BNotFound \<Rightarrow>
             rbind (bcBegin api bc) (\<lambda>b.
             rbind (bcPut api bc TailK (VTail 0) b) (\<lambda>b.
             rbind (bcPut api bc HeadK (VHead (bHash genesis)) b) (\<lambda>b.
             rbind (bcPut api bc (ForkK 0) (VForks [bHash genesis, bHash genesis]) b) (\<lambda>b.
             rbind (bcPut api bc (BlockK (bHash genesis)) (VBlock genesis) b) (bcEnd api bc)))))
         | Inl e \<Rightarrow> Inl e)"

subsection \<open>Adding a block\<close>

fun match_receipts :: "transaction list \<Rightarrow> receipt list \<Rightarrow> bc_err + unit" where
  "match_receipts (t # ts) (r # rs) =
     (if rTxHash r \<noteq> txHash t then Inl (BReceiptMismatch (txHash t) (rTxHash r)) else match_receipts ts rs)"
| "match_receipts ts rs = Inr ()"

definition forks_with :: "'db bc_api \<Rightarrow> 'db blockchain \<Rightarrow> block \<Rightarrow> bc_err + hash list" where
  "forks_with api bc blk =
     (case getForks api bc (NumberU64 blk) of
        Inr forks \<Rightarrow> Inr (forks @ [bHash blk])
      | Inl BNotFound \<Rightarrow> Inr [0, bHash blk]
      | Inl e \<Rightarrow> Inl e)"

definition put_txs :: "'db bc_api \<Rightarrow> 'db blockchain \<Rightarrow> block \<Rightarrow> bop list \<Rightarrow> bc_err + bop list" where
  "put_txs api bc blk =
     rfold (\<lambda>(i, t). bcPut api bc (TxK (txHash t)) (VTx t (bHash blk) (of_nat i)))
       (List.enumerate 0 (bTransactions blk))"

definition put_receipts :: "'db bc_api \<Rightarrow> 'db blockchain \<Rightarrow> block \<Rightarrow> receipt list \<Rightarrow> bop list \<Rightarrow> bc_err + bop list" where
  "put_receipts api bc blk receipts =
     rfold (\<lambda>(i, r). bcPut api bc (ReceiptK (rTxHash r)) (VReceipt r (bHash blk) (of_nat i)))
       (List.enumerate 0 receipts)"

definition AddBlock ::
  "'db bc_api \<Rightarrow> block \<Rightarrow> receipt list \<Rightarrow> 'db blockchain \<Rightarrow> bc_err + 'db blockchain"
where
  "AddBlock api blk receipts bc =
     (if NumberU64 blk < tail bc then Inr bc
      else rbind (HasBlock api bc (bHash blk)) (\<lambda>exists.
        if exists then Inr bc
        else rbind (HasBlock api bc (ParentHash blk)) (\<lambda>parentExists.
          if \<not> parentExists then Inl (BNoParent (ParentHash blk) (bHash blk))
          else if length (bTransactions blk) \<noteq> length receipts
            then Inl (BReceiptCount (length (bTransactions blk)) (length receipts))
          else rbind (match_receipts (bTransactions blk) receipts) (\<lambda>_.
            rbind (bcBegin api bc) (\<lambda>b.
            rbind (bcPut api bc (BlockK (bHash blk)) (VBlock blk) b) (\<lambda>b.
            rbind (forks_with api bc blk) (\<lambda>forks.
            rbind (bcPut api bc (ForkK (NumberU64 blk)) (VForks forks) b) (\<lambda>b.
            rbind (put_txs api bc blk b) (\<lambda>b.
            rbind (put_receipts api bc blk receipts b) (bcEnd api bc))))))))))"

subsection \<open>Pruning\<close>

text \<open>
  Every error, panics aside, ends the work on one height and drops its transaction; the loop
  goes on with the next height. The heights are those of the loop \<open>i < newTail\<close> of words.
\<close>

definition prune_fork :: "'db bc_api \<Rightarrow> 'db blockchain \<Rightarrow> hash \<Rightarrow> bop list \<Rightarrow> bc_err + bop list" where
  "prune_fork api bc fork b =
     rbind (GetBlockByHash api bc fork) (\<lambda>blk.
     rbind (bcDelete api bc (BlockK fork) b)
       (rfold (\<lambda>t b. rbind (bcDelete api bc (TxK (txHash t)) b) (bcDelete api bc (ReceiptK (txHash t))))
         (bTransactions blk)))"

definition prune_height :: "'db bc_api \<Rightarrow> u64 \<Rightarrow> 'db blockchain \<Rightarrow> 'db blockchain" where
  "prune_height api i bc =
     (case rbind (bcBegin api bc) (\<lambda>b.
           rbind (getForks api bc i) (\<lambda>forks.
           rbind (rfold (prune_fork api bc) forks b) (\<lambda>b.
           rbind (bcDelete api bc (ForkK i) b) (bcEnd api bc)))) of
        Inl e \<Rightarrow> bc
      | Inr bc' \<Rightarrow> bc')"

definition tryPrune :: "'db bc_api \<Rightarrow> u64 \<Rightarrow> 'db blockchain \<Rightarrow> 'db blockchain" where
  "tryPrune api height bc =
     (if height - tail bc \<le> MaxBlockToRetain bc then bc
      else
        (let newTail = tail bc + PruningFrequency bc;
             bc1 = fold (prune_height api) (map of_nat [unat (tail bc)..<unat newTail]) bc
         in case rbind (bcPut api bc1 TailK (VTail newTail) []) (bcEnd api bc1) of
              Inl e \<Rightarrow> bc1
            | Inr bc2 \<Rightarrow> bc2\<lparr>tail := newTail\<rparr>))"

subsection \<open>Setting the head\<close>

text \<open>\<open>forks[0] = h\<close>, which panics on an empty list.\<close>

definition set_canonical :: "hash \<Rightarrow> hash list \<Rightarrow> bc_err + hash list" where
  "set_canonical h forks = (case forks of [] \<Rightarrow> Inl BIndexPanic | f # fs \<Rightarrow> Inr (h # fs))"

definition put_canonical ::
  "'db bc_api \<Rightarrow> 'db blockchain \<Rightarrow> u64 \<Rightarrow> hash \<Rightarrow> bop list \<Rightarrow> bc_err + bop list"
where
  "put_canonical api bc i h b =
     rbind (getForks api bc i) (\<lambda>forks.
     rbind (set_canonical h forks) (\<lambda>forks'. bcPut api bc (ForkK i) (VForks forks') b))"

text \<open>
  The heights from \<open>lo + 1\<close> to \<open>hi\<close>. (For \<open>hi\<close> the largest word the loop \<open>i <= hi\<close> of the code
  would never end: no block has that number.)
\<close>

definition heights_above :: "u64 \<Rightarrow> u64 \<Rightarrow> u64 list" where
  "heights_above lo hi = map of_nat [Suc (unat lo)..<Suc (unat hi)]"

text \<open>
  The loop that walks from the parent of the new head down to a block that is canonical. In
  one round: the parent becomes canonical at its height, the grandparent is looked up, and its
  height compared with the tail. The height goes down by one in each round, and 0 wraps
  around: \<open>fuel\<close> bounds the rounds.
\<close>

fun reorg ::
  "'db bc_api \<Rightarrow> 'db blockchain \<Rightarrow> nat \<Rightarrow> hash \<Rightarrow> block \<Rightarrow> u64 \<Rightarrow> hash list \<Rightarrow> bop list \<Rightarrow> bc_err + bop list"
where
  "reorg api bc fuel parentBlkHash parentBlk parentHeight parentForks b =
     (case parentForks of
        [] \<Rightarrow> Inl BIndexPanic
      | f # fs \<Rightarrow>
          if f = parentBlkHash then Inr b
          else (case fuel of
             0 \<Rightarrow> Inl BOutOfFuel
           | Suc fuel' \<Rightarrow>
               rbind (bcPut api bc (ForkK parentHeight) (VForks (parentBlkHash # fs)) b) (\<lambda>b.
               rbind (GetBlockByHash api bc (ParentHash parentBlk)) (\<lambda>grandparentBlk.
                 if parentHeight - 1 < tail bc then Inl (BMajorReorg (parentHeight - 1) (tail bc))
                 else rbind (getForks api bc (parentHeight - 1)) (\<lambda>grandparentForks.
                   reorg api bc fuel' (ParentHash parentBlk) grandparentBlk (parentHeight - 1)
                     grandparentForks b)))))"

declare reorg.simps [simp del]

definition setHeadOps :: "'db bc_api \<Rightarrow> nat \<Rightarrow> hash \<Rightarrow> 'db blockchain \<Rightarrow> bc_err + bop list" where
  "setHeadOps api fuel h bc =
     rbind (GetBlockByHash api bc h) (\<lambda>blk.
     rbind (bcBegin api bc) (\<lambda>b.
     rbind (GetHead api bc) (\<lambda>currentHead.
     rbind (if NumberU64 currentHead > NumberU64 blk
            then rfold (\<lambda>i. put_canonical api bc i 0) (heights_above (NumberU64 blk) (NumberU64 currentHead)) b
            else Inr b) (\<lambda>b.
     rbind (put_canonical api bc (NumberU64 blk) (bHash blk) b) (\<lambda>b.
     rbind (GetBlockByHash api bc (ParentHash blk)) (\<lambda>parentBlk.
       if NumberU64 blk - 1 < tail bc then Inl (BMajorReorg (NumberU64 blk - 1) (tail bc))
       else rbind (getForks api bc (NumberU64 blk - 1)) (\<lambda>parentForks.
       rbind (reorg api bc fuel (ParentHash blk) parentBlk (NumberU64 blk - 1) parentForks b)
         (bcPut api bc HeadK (VHead h)))))))))"

definition SetHead :: "'db bc_api \<Rightarrow> nat \<Rightarrow> hash \<Rightarrow> 'db blockchain \<Rightarrow> bc_err + 'db blockchain" where
  "SetHead api fuel h bc =
     rbind (GetBlockByHash api bc h) (\<lambda>blk.
     rbind (setHeadOps api fuel h bc) (\<lambda>b.
     rbind (bcEnd api bc b) (\<lambda>bc'. Inr (tryPrune api (NumberU64 blk) bc'))))"

definition SetFinalized :: "'db bc_api \<Rightarrow> hash \<Rightarrow> 'db blockchain \<Rightarrow> bc_err + 'db blockchain" where
  "SetFinalized api h bc = rbind (bcPut api bc FinalizedK (VHead h) []) (bcEnd api bc)"

definition SetSafe :: "'db bc_api \<Rightarrow> hash \<Rightarrow> 'db blockchain \<Rightarrow> bc_err + 'db blockchain" where
  "SetSafe api h bc = rbind (bcPut api bc SafeK (VHead h) []) (bcEnd api bc)"

end
