(* ===== verification/ChainLaws.thy ===== *)
theory ChainLaws
  imports Blockchain
begin

section \<open>Laws of the block store\<close>

text \<open>
  The invariant of the block store: every stored block is listed among the forks of its
  height, everything listed is stored, and the canonical entries from the tail to the head are
  a chain of parents that ends in the head, with nothing canonical above it. Adding blocks,
  setting the head and pruning keep it; reading by number gives the ancestors of the head.
\<close>

definition canon :: "bview \<Rightarrow> u64 \<Rightarrow> hash option" where
  "canon f i = (case f (ForkK i) of Some (VForks (x # xs)) \<Rightarrow> Some x | _ \<Rightarrow> None)"

definition has_block :: "bview \<Rightarrow> hash \<Rightarrow> block \<Rightarrow> bool" where
  "has_block f h b = (f (BlockK h) = Some (VBlock b))"

text \<open>Blocks are kept under their hash, the empty hash is none, numbers go up from the parent.\<close>

definition blocks_ok :: "bview \<Rightarrow> bool" where
  "blocks_ok f =
     ((\<forall>h v. f (BlockK h) = Some v \<longrightarrow> (\<exists>b. v = VBlock b \<and> bHash b = h \<and> NumberU64 b \<noteq> - 1)) \<and>
      f (BlockK 0) = None \<and>
      (\<forall>h b p. has_block f h b \<longrightarrow> has_block f (ParentHash b) p \<longrightarrow> NumberU64 b = NumberU64 p + 1))"

text \<open>The list of a height: its blocks behind the entry in front, which is one of them or empty.\<close>

definition forks_ok :: "bview \<Rightarrow> bool" where
  "forks_ok f =
     ((\<forall>i v. f (ForkK i) = Some v \<longrightarrow>
        (\<exists>x xs. v = VForks (x # xs) \<and> (\<forall>y\<in>set (x # xs). y \<noteq> 0 \<longrightarrow> (\<exists>b. has_block f y b \<and> NumberU64 b = i)))) \<and>
      (\<forall>h b. has_block f h b \<longrightarrow> (\<exists>x xs. f (ForkK (NumberU64 b)) = Some (VForks (x # xs)) \<and> h \<in> set xs)))"

text \<open>The canonical entries of the heights from \<open>t\<close> to \<open>n\<close> are blocks linked by their parents.\<close>

definition linked :: "bview \<Rightarrow> bview \<Rightarrow> u64 \<Rightarrow> u64 \<Rightarrow> bool" where
  "linked f g t n =
     (\<forall>i. t \<le> i \<longrightarrow> i \<le> n \<longrightarrow>
        (\<exists>c b. canon g i = Some c \<and> has_block f c b \<and> NumberU64 b = i \<and>
             (t < i \<longrightarrow> canon g (i - 1) = Some (ParentHash b))))"

definition chain_ok :: "bview \<Rightarrow> u64 \<Rightarrow> hash \<Rightarrow> u64 \<Rightarrow> bool" where
  "chain_ok f t h n =
     (blocks_ok f \<and> forks_ok f \<and> linked f f t n \<and> f HeadK = Some (VHead h) \<and> canon f n = Some h \<and> t \<le> n \<and>
      (\<forall>i. n < i \<longrightarrow> canon f i = None \<or> canon f i = Some 0))"

lemma chain_okD:
  assumes "chain_ok f t h n"
  shows "blocks_ok f" "forks_ok f" "linked f f t n" "f HeadK = Some (VHead h)" "canon f n = Some h" "t \<le> n"
    and "n < i \<Longrightarrow> canon f i = None \<or> canon f i = Some 0"
  using assms unfolding chain_ok_def by blast+

lemma blocks_okD:
  assumes "blocks_ok f"
  shows "f (BlockK h) = Some v \<Longrightarrow> \<exists>b. v = VBlock b" "has_block f h b \<Longrightarrow> bHash b = h"
    "has_block f h b \<Longrightarrow> NumberU64 b \<noteq> - 1" "\<not> has_block f 0 b"
    "has_block f h b \<Longrightarrow> has_block f (ParentHash b) p \<Longrightarrow> NumberU64 b = NumberU64 p + 1"
  using assms unfolding blocks_ok_def has_block_def by fastforce+

lemma has_block_inj: "has_block f h b \<Longrightarrow> has_block f h b' \<Longrightarrow> b = b'"
  by (simp add: has_block_def)

lemma linkedE:
  assumes "linked f g t n" "t \<le> i" "i \<le> n"
  obtains c b where "canon g i = Some c" "has_block f c b" "NumberU64 b = i"
    "t < i \<Longrightarrow> canon g (i - 1) = Some (ParentHash b)"
  using assms unfolding linked_def by blast

lemma canon_Some: "canon f i = Some c \<longleftrightarrow> (\<exists>xs. f (ForkK i) = Some (VForks (c # xs)))"
  by (auto simp: canon_def split: option.splits bval.splits list.splits)

lemma canon_cong: "g (ForkK i) = f (ForkK i) \<Longrightarrow> canon g i = canon f i"
  by (simp add: canon_def)

lemma head_block:
  assumes "chain_ok f t h n"
  obtains b where "has_block f h b" "NumberU64 b = n"
  using linkedE [OF chain_okD(3) [OF assms] chain_okD(6) [OF assms] order_refl] chain_okD(5) [OF assms]
  by (metis option.inject)

subsection \<open>Ancestors\<close>

fun ancestor :: "bview \<Rightarrow> nat \<Rightarrow> hash \<Rightarrow> hash option" where
  "ancestor f 0 h = Some h"
| "ancestor f (Suc k) h =
     (case f (BlockK h) of Some (VBlock b) \<Rightarrow> ancestor f k (ParentHash b) | _ \<Rightarrow> None)"

lemma ancestor_step: "has_block f h b \<Longrightarrow> ancestor f (Suc k) h = ancestor f k (ParentHash b)"
  by (simp add: has_block_def)

lemma word_pred:
  fixes i n :: u64
  assumes "i < n"
  shows "i \<le> n - 1" "unat (n - 1) = unat n - 1" "n - 1 < n" "0 < unat n"
proof -
  have n: "n \<noteq> 0" using assms by auto
  then show "unat (n - 1) = unat n - 1" by (simp add: unat_minus_one)
  moreover show p: "0 < unat n" using n by (simp add: unat_gt_0)
  ultimately show "i \<le> n - 1" "n - 1 < n" using assms
    by (simp_all add: word_le_nat_alt word_less_nat_alt)
qed

lemma linked_ancestor:
  assumes "linked f f t n" "t \<le> i" "canon f m = Some c" "i \<le> m" "m \<le> n"
  shows "canon f i = ancestor f (unat m - unat i) c"
  using assms(3-5)
proof (induction "unat m - unat i" arbitrary: m c)
  case 0
  then have "m = i" by (metis diff_is_0_eq dual_order.antisym word_le_nat_alt)
  with 0 show ?case by simp
next
  case (Suc k)
  then have lt: "i < m" by (auto simp: word_less_nat_alt)
  note w = word_pred [OF lt]
  have tm: "t \<le> m" "t < m" using assms(2) lt by auto
  from linkedE [OF assms(1) tm(1) Suc.prems(3)] obtain c' b where
    b: "canon f m = Some c'" "has_block f c' b" "t < m \<Longrightarrow> canon f (m - 1) = Some (ParentHash b)" by metis
  have c: "c' = c" using b(1) Suc.prems(1) by simp
  have k: "k = unat (m - 1) - unat i" using Suc.hyps(2) w(2) by simp
  have "canon f i = ancestor f (unat (m - 1) - unat i) (ParentHash b)"
    by (rule Suc.hyps(1) [OF k b(3) [OF tm(2)] w(1)]) (use w(3) Suc.prems(3) in auto)
  also have "\<dots> = ancestor f (Suc k) c" using ancestor_step [OF b(2), of k] c k by (simp only:)
  finally show ?case by (simp only: Suc.hyps(2))
qed

subsection \<open>Queued operations\<close>

lemma bcPut_Inr: "bcPut api bc k v b = Inr b' \<Longrightarrow> b' = b @ [BcPut k v]"
  by (simp add: bcPut_def split: option.splits)

lemma bcDelete_Inr: "bcDelete api bc k b = Inr b' \<Longrightarrow> b' = b @ [BcDelete k]"
  by (simp add: bcDelete_def split: option.splits)

lemma bcBegin_Inr: "bcBegin api bc = Inr b \<Longrightarrow> b = []"
  by (simp add: bcBegin_def split: option.splits)

lemma bcEnd_Inr:
  assumes "bc_law api view" "bcEnd api bc b = Inr bc'"
  shows "view (bcDb bc') = fold apply_bop b (view (bcDb bc))" "tail bc' = tail bc"
    "MaxBlockToRetain bc' = MaxBlockToRetain bc" "PruningFrequency bc' = PruningFrequency bc"
  using assms(2) bc_lawD(4) [OF assms(1)] unfolding bcEnd_def by (auto simp: rbind_Inr_iff)

lemma as_Inr [simp]:
  "asBlock v = Inr b \<longleftrightarrow> v = VBlock b" "asForks v = Inr fs \<longleftrightarrow> v = VForks fs" "asHash v = Inr h \<longleftrightarrow> v = VHead h"
  by (auto simp: asBlock_def asForks_def asHash_def split: bval.splits)

lemma read_block:
  assumes "bc_law api view" "GetBlockByHash api bc h = Inr b"
  shows "has_block (view (bcDb bc)) h b"
  using assms(2) bc_lawD(1) [OF assms(1)]
  unfolding GetBlockByHash_def has_block_def by (auto simp: rbind_Inr_iff)

lemma read_forks:
  assumes "bc_law api view" "getForks api bc i = Inr fs"
  shows "view (bcDb bc) (ForkK i) = Some (VForks fs)"
  using assms(2) bc_lawD(1) [OF assms(1)]
  unfolding getForks_def by (auto simp: rbind_Inr_iff)

lemma read_head:
  assumes "bc_law api view" "GetHead api bc = Inr b"
  obtains h where "view (bcDb bc) HeadK = Some (VHead h)" "has_block (view (bcDb bc)) h b"
proof -
  from assms(2) obtain v h where v: "bcGet api (bcDb bc) HeadK = Inr v" "asHash v = Inr h"
    "GetBlockByHash api bc h = Inr b" unfolding GetHead_def by (auto simp: rbind_Inr_iff)
  from v(2) have "v = VHead h" by simp
  with bc_lawD(1) [OF assms(1) v(1)] read_block [OF assms(1) v(3)] that show thesis by blast
qed

text \<open>
  \<open>retops f g\<close>: \<open>g\<close> is \<open>f\<close> with other canonical entries. What the forks list behind the
  entry in front, and all that is no fork list, is the same.
\<close>

definition retops :: "bview \<Rightarrow> bview \<Rightarrow> bool" where
  "retops f g =
     ((\<forall>k. (\<forall>i. k \<noteq> ForkK i) \<longrightarrow> k \<noteq> HeadK \<longrightarrow> g k = f k) \<and>
      (\<forall>i. g (ForkK i) = f (ForkK i) \<or>
         (\<exists>x y xs. f (ForkK i) = Some (VForks (x # xs)) \<and> g (ForkK i) = Some (VForks (y # xs)))))"

lemma retops_refl: "retops f f"
  by (simp add: retops_def)

lemma retops_upd:
  assumes "retops f g" "f (ForkK i) = Some (VForks (x # xs))"
  shows "retops f (g(ForkK i \<mapsto> VForks (y # xs)))"
  using assms by (auto simp: retops_def)

lemma retops_head: "retops f g \<Longrightarrow> retops f (g(HeadK \<mapsto> v))"
  by (simp add: retops_def)

lemma canon_upd: "canon (g(ForkK i \<mapsto> VForks (y # xs))) j = (if j = i then Some y else canon g j)"
  by (simp add: canon_def)

lemma canon_head: "canon (g(HeadK \<mapsto> v)) j = canon g j"
  by (simp add: canon_def)

lemma retops_block: "retops f g \<Longrightarrow> has_block g h b = has_block f h b"
  unfolding retops_def has_block_def by fastforce

lemma retops_blocks_ok: "retops f g \<Longrightarrow> blocks_ok f \<Longrightarrow> blocks_ok g"
  unfolding blocks_ok_def retops_block by (auto simp: retops_def)

lemma retops_forks_ok:
  assumes "retops f g" "forks_ok f" "\<And>i c. canon g i = Some c \<Longrightarrow> c \<noteq> 0 \<Longrightarrow> \<exists>b. has_block f c b \<and> NumberU64 b = i"
  shows "forks_ok g"
proof -
  have 1: "g (ForkK i) = f (ForkK i) \<or>
      (\<exists>x y xs. f (ForkK i) = Some (VForks (x # xs)) \<and> g (ForkK i) = Some (VForks (y # xs)))" for i
    using assms(1) unfolding retops_def by blast
  have A: "\<exists>x xs. v = VForks (x # xs) \<and> (\<forall>y\<in>set (x # xs). y \<noteq> 0 \<longrightarrow> (\<exists>b. has_block f y b \<and> NumberU64 b = i))"
    if v: "g (ForkK i) = Some v" for i v
    using 1 [of i]
  proof (elim disjE exE conjE)
    assume "g (ForkK i) = f (ForkK i)"
    then show ?thesis using v assms(2) unfolding forks_ok_def by simp
  next
    fix x y xs assume f: "f (ForkK i) = Some (VForks (x # xs))" and g: "g (ForkK i) = Some (VForks (y # xs))"
    have "\<forall>z\<in>set xs. z \<noteq> 0 \<longrightarrow> (\<exists>b. has_block f z b \<and> NumberU64 b = i)"
      using assms(2) f unfolding forks_ok_def by fastforce
    moreover have "canon g i = Some y" using g by (simp add: canon_Some)
    ultimately show ?thesis using v g assms(3) [of i y] by auto
  qed
  have B: "\<exists>x xs. g (ForkK (NumberU64 b)) = Some (VForks (x # xs)) \<and> h \<in> set xs" if "has_block f h b" for h b
    using 1 [of "NumberU64 b"] assms(2) that unfolding forks_ok_def by fastforce
  show ?thesis using A B unfolding forks_ok_def retops_block [OF assms(1)] by blast
qed

subsection \<open>The walk of SetHead\<close>

lemma put_canonical_Inr:
  assumes "bc_law api view" "put_canonical api bc i h b = Inr b'"
  obtains x xs where "view (bcDb bc) (ForkK i) = Some (VForks (x # xs))" "b' = b @ [BcPut (ForkK i) (VForks (h # xs))]"
proof -
  from assms(2) obtain fs fs' where f: "getForks api bc i = Inr fs" "set_canonical h fs = Inr fs'"
    "bcPut api bc (ForkK i) (VForks fs') b = Inr b'" unfolding put_canonical_def by (auto simp: rbind_Inr_iff)
  from f(2) obtain x xs where "fs = x # xs" "fs' = h # xs" by (auto simp: set_canonical_def split: list.splits)
  with read_forks [OF assms(1) f(1)] bcPut_Inr [OF f(3)] that show thesis by blast
qed

lemma put_canonical_effect:
  assumes "bc_law api view" "put_canonical api bc i h b = Inr b'"
    and "f = view (bcDb bc)" "retops f (fold apply_bop b f)"
  shows "retops f (fold apply_bop b' f)"
    "canon (fold apply_bop b' f) j = (if j = i then Some h else canon (fold apply_bop b f) j)"
    "fold apply_bop b' f HeadK = fold apply_bop b f HeadK"
    "j \<noteq> i \<Longrightarrow> fold apply_bop b' f (ForkK j) = fold apply_bop b f (ForkK j)"
proof -
  from put_canonical_Inr [OF assms(1,2)] obtain x xs where
    x: "f (ForkK i) = Some (VForks (x # xs))" "b' = b @ [BcPut (ForkK i) (VForks (h # xs))]" using assms(3) by metis
  show "retops f (fold apply_bop b' f)" using retops_upd [OF assms(4) x(1)] by (simp add: x(2))
  show "canon (fold apply_bop b' f) j = (if j = i then Some h else canon (fold apply_bop b f) j)"
    by (simp add: x(2) canon_upd)
  show "fold apply_bop b' f HeadK = fold apply_bop b f HeadK" by (simp add: x(2))
  show "j \<noteq> i \<Longrightarrow> fold apply_bop b' f (ForkK j) = fold apply_bop b f (ForkK j)" by (simp add: x(2))
qed

lemma clear_effect:
  assumes "bc_law api view" "f = view (bcDb bc)"
  shows "rfold (\<lambda>i. put_canonical api bc i h) is b = Inr b' \<Longrightarrow> retops f (fold apply_bop b f) \<Longrightarrow>
    retops f (fold apply_bop b' f) \<and>
    (\<forall>j. canon (fold apply_bop b' f) j = (if j \<in> set is then Some h else canon (fold apply_bop b f) j)) \<and>
    fold apply_bop b' f HeadK = fold apply_bop b f HeadK \<and>
    (\<forall>j. j \<notin> set is \<longrightarrow> fold apply_bop b' f (ForkK j) = fold apply_bop b f (ForkK j))"
proof (induction "is" arbitrary: b)
  case Nil
  then show ?case by simp
next
  case (Cons i "is")
  from Cons.prems(1) obtain b1 where b1: "put_canonical api bc i h b = Inr b1"
    "rfold (\<lambda>i. put_canonical api bc i h) is b1 = Inr b'" by (auto elim: rbind_InrE)
  note e = put_canonical_effect [OF assms(1) b1(1) assms(2) Cons.prems(2)]
  from Cons.IH [OF b1(2) e(1)] show ?case using e by simp
qed

lemma heights_above_set: "set (heights_above lo hi) = {i. lo < i \<and> i \<le> hi}"
proof (intro set_eqI iffI)
  fix i assume "i \<in> set (heights_above lo hi)"
  then have "i \<in> of_nat ` {Suc (unat lo)..<Suc (unat hi)}" by (simp only: heights_above_def set_map set_upt)
  then obtain k where "i = of_nat k" "k \<in> {Suc (unat lo)..<Suc (unat hi)}" by (rule imageE)
  then have k: "i = of_nat k" "unat lo < k" "k \<le> unat hi" by simp_all
  have "k < 2 ^ LENGTH(64)" using k(3) unsigned_less [of hi] by (rule le_less_trans)
  then have "unat i = k" unfolding k(1) unat_of_nat by (rule mod_less)
  with k show "i \<in> {i. lo < i \<and> i \<le> hi}" by (simp add: word_less_nat_alt word_le_nat_alt)
next
  fix i assume "i \<in> {i. lo < i \<and> i \<le> hi}"
  then have "unat i \<in> {Suc (unat lo)..<Suc (unat hi)}" by (simp add: word_less_nat_alt word_le_nat_alt Suc_le_eq less_Suc_eq_le)
  then show "i \<in> set (heights_above lo hi)" unfolding heights_above_def set_map set_upt
    by (rule image_eqI [rotated]) simp
qed

text \<open>The walk makes the parents of the new head canonical and stops at one that is.\<close>

lemma reorg_found:
  assumes "chain_ok f t hh n" "canon f ph = Some pbh" "has_block f pbh pb"
    and "\<forall>i. i \<le> ph \<longrightarrow> g (ForkK i) = f (ForkK i)"
  shows "linked f g t ph \<and> canon g ph = Some pbh"
proof -
  have "pbh \<noteq> 0" using assms(3) blocks_okD(4) [OF chain_okD(1) [OF assms(1)]] by auto
  then have le: "ph \<le> n" using chain_okD(7) [OF assms(1), of ph] assms(2) by fastforce
  have c: "canon g i = canon f i" if "i \<le> ph" for i using canon_cong assms(4) that by metis
  have "\<exists>c b. canon g i = Some c \<and> has_block f c b \<and> NumberU64 b = i \<and>
      (t < i \<longrightarrow> canon g (i - 1) = Some (ParentHash b))" if i: "t \<le> i" "i \<le> ph" for i
  proof -
    have "i \<le> n" using i(2) le by (rule order_trans)
    from linkedE [OF chain_okD(3) [OF assms(1)] i(1) this] obtain x b where b: "canon f i = Some x" "has_block f x b"
      "NumberU64 b = i" "t < i \<Longrightarrow> canon f (i - 1) = Some (ParentHash b)" by blast
    have "canon g (i - 1) = canon f (i - 1)" if "t < i"
      using c [of "i - 1"] word_pred [OF that] i(2) by (meson less_imp_le order_trans)
    with b c [OF i(2)] show ?thesis by auto
  qed
  then show ?thesis using c [OF order_refl] assms(2) unfolding linked_def by auto
qed

lemma linked_extend:
  assumes "linked f g t (ph - 1)" "t < ph" "canon g (ph - 1) = Some (ParentHash b)"
    and "canon g ph = Some c" "has_block f c b" "NumberU64 b = ph"
  shows "linked f g t ph"
  unfolding linked_def
proof (intro allI impI)
  fix i assume i: "t \<le> i" "i \<le> ph"
  show "\<exists>c b. canon g i = Some c \<and> has_block f c b \<and> NumberU64 b = i \<and>
      (t < i \<longrightarrow> canon g (i - 1) = Some (ParentHash b))"
  proof (cases "i = ph")
    case True
    then show ?thesis using assms(3-6) by blast
  next
    case False
    then have "i \<le> ph - 1" using word_pred(1) [of i ph] i(2) by simp
    then show ?thesis using assms(1) i(1) unfolding linked_def by blast
  qed
qed

lemma reorg_effect:
  assumes law: "bc_law api view" and f: "f = view (bcDb bc)" and ok: "chain_ok f (tail bc) hh n"
  shows "reorg api bc fuel pbh pb ph pf b = Inr b' \<Longrightarrow> has_block f pbh pb \<Longrightarrow> NumberU64 pb = ph \<Longrightarrow> tail bc \<le> ph \<Longrightarrow>
    f (ForkK ph) = Some (VForks pf) \<Longrightarrow> retops f (fold apply_bop b f) \<Longrightarrow>
    \<forall>i. i \<le> ph \<longrightarrow> fold apply_bop b f (ForkK i) = f (ForkK i) \<Longrightarrow>
    retops f (fold apply_bop b' f) \<and> fold apply_bop b' f HeadK = fold apply_bop b f HeadK \<and>
    (\<forall>i. ph < i \<or> i < tail bc \<longrightarrow> fold apply_bop b' f (ForkK i) = fold apply_bop b f (ForkK i)) \<and>
    linked f (fold apply_bop b' f) (tail bc) ph \<and> canon (fold apply_bop b' f) ph = Some pbh"
proof (induction fuel arbitrary: pbh pb ph pf b)
  case 0
  then obtain fs where pf: "pf = pbh # fs" by (auto simp: reorg.simps [of api bc 0] split: list.splits if_splits)
  then have "b' = b" using 0 by (simp add: reorg.simps [of api bc 0])
  moreover have "canon f ph = Some pbh" using 0 pf by (simp add: canon_Some)
  ultimately show ?case using reorg_found [OF ok _ 0(2) 0(7)] 0(6) by simp
next
  case (Suc fuel)
  show ?case
  proof (cases "\<exists>fs. pf = pbh # fs")
    case True
    then have "b' = b" using Suc.prems(1) by (auto simp: reorg.simps [of api bc "Suc fuel"])
    moreover have "canon f ph = Some pbh" using Suc.prems(5) True by (auto simp: canon_Some)
    ultimately show ?thesis using reorg_found [OF ok _ Suc.prems(2,7)] Suc.prems(6) by simp
  next
    case False
    with Suc.prems(1) obtain y fs where pf: "pf = y # fs" "y \<noteq> pbh"
      by (cases pf) (auto simp: reorg.simps [of api bc "Suc fuel"])
    from Suc.prems(1) pf obtain b1 gb gf where
      b1: "bcPut api bc (ForkK ph) (VForks (pbh # fs)) b = Inr b1"
      and gb: "GetBlockByHash api bc (ParentHash pb) = Inr gb" and ge: "\<not> ph - 1 < tail bc"
      and gf: "getForks api bc (ph - 1) = Inr gf"
      and r: "reorg api bc fuel (ParentHash pb) gb (ph - 1) gf b1 = Inr b'"
      by (auto simp: reorg.simps [of api bc "Suc fuel"] elim!: rbind_InrE split: if_splits)
    note gb' = read_block [OF law gb, folded f]
    have num: "ph = NumberU64 gb + 1" "NumberU64 gb \<noteq> - 1"
      using blocks_okD(5) [OF chain_okD(1) [OF ok] Suc.prems(2) gb'] blocks_okD(3) [OF chain_okD(1) [OF ok] gb'] Suc.prems(3)
      by auto
    then have lt: "ph - 1 < ph" by (simp add: word_less_nat_alt word_Suc_unat)
    have G: "fold apply_bop b1 f = (fold apply_bop b f)(ForkK ph \<mapsto> VForks (pbh # fs))"
      using bcPut_Inr [OF b1] by simp
    have low: "\<forall>i. i \<le> ph - 1 \<longrightarrow> fold apply_bop b1 f (ForkK i) = f (ForkK i)"
      using Suc.prems(7) lt by (auto simp: G)
    have n1: "NumberU64 gb = ph - 1" and t1: "tail bc \<le> ph - 1" using num(1) ge by simp_all
    have gf': "f (ForkK (ph - 1)) = Some (VForks gf)" using read_forks [OF law gf] f by simp
    have ro: "retops f (fold apply_bop b1 f)"
      unfolding G by (rule retops_upd [OF Suc.prems(6)]) (use Suc.prems(5) pf in simp)
    have IH: "retops f (fold apply_bop b' f)" "fold apply_bop b' f HeadK = fold apply_bop b1 f HeadK"
      "\<forall>i. ph - 1 < i \<or> i < tail bc \<longrightarrow> fold apply_bop b' f (ForkK i) = fold apply_bop b1 f (ForkK i)"
      "linked f (fold apply_bop b' f) (tail bc) (ph - 1)" "canon (fold apply_bop b' f) (ph - 1) = Some (ParentHash pb)"
      using Suc.IH [OF r gb' n1 t1 gf' ro low] by blast+
    have c: "canon (fold apply_bop b' f) ph = Some pbh"
      using IH(3) lt by (simp add: canon_Some G)
    have t: "tail bc < ph" using ge lt by simp
    have "linked f (fold apply_bop b' f) (tail bc) ph"
      by (rule linked_extend [OF IH(4) t IH(5) c Suc.prems(2,3)])
    moreover have "fold apply_bop b' f (ForkK i) = fold apply_bop b f (ForkK i)" if "ph < i \<or> i < tail bc" for i
      using IH(3) that lt t by (auto simp: G)
    ultimately show ?thesis using IH c by (simp add: G)
  qed
qed

end
