(* ===== verification/ChainHead.thy ===== *)
theory ChainHead
  imports ChainLaws
begin

section \<open>Setting the head, adding, pruning\<close>

text \<open>
  The operations that write to the block store keep its invariant, and what they achieve:
  \<open>SetHead\<close> moves the canonical chain to the ancestors of the new head, \<open>AddBlock\<close> makes a
  block readable and leaves the canonical chain alone, pruning removes only what is below the
  new tail.
\<close>

lemma setHead_effect:
  assumes law: "bc_law api view" and f: "f = view (bcDb bc)" and ok: "chain_ok f (tail bc) hh n"
    and r: "setHeadOps api fuel h bc = Inr b'"
  obtains blk where "has_block f h blk" "retops f (fold apply_bop b' f)" "tail bc < NumberU64 blk"
    "chain_ok (fold apply_bop b' f) (tail bc) h (NumberU64 blk)"
proof -
  note C = chain_okD [OF ok]
  from r obtain blk b0 cur b1 b2 pb pf b3 where
    blk: "GetBlockByHash api bc h = Inr blk" and b0: "bcBegin api bc = Inr b0" and cur: "GetHead api bc = Inr cur"
    and b1: "(if NumberU64 cur > NumberU64 blk
            then rfold (\<lambda>i. put_canonical api bc i 0) (heights_above (NumberU64 blk) (NumberU64 cur)) b0
            else Inr b0) = Inr b1"
    and b2: "put_canonical api bc (NumberU64 blk) (bHash blk) b1 = Inr b2"
    and pb: "GetBlockByHash api bc (ParentHash blk) = Inr pb" and ge: "\<not> NumberU64 blk - 1 < tail bc"
    and pf: "getForks api bc (NumberU64 blk - 1) = Inr pf"
    and b3: "reorg api bc fuel (ParentHash blk) pb (NumberU64 blk - 1) pf b2 = Inr b3"
    and b4: "bcPut api bc HeadK (VHead h) b3 = Inr b'"
    unfolding setHeadOps_def by (elim rbind_InrE) (auto elim!: rbind_InrE split: if_splits)
  note hb = read_block [OF law blk, folded f] and hp = read_block [OF law pb, folded f]
  have hash: "bHash blk = h" using blocks_okD(2) [OF C(1) hb] .
  have num: "NumberU64 blk = NumberU64 pb + 1" "NumberU64 pb \<noteq> - 1"
    using blocks_okD(5) [OF C(1) hb hp] blocks_okD(3) [OF C(1) hp] by simp_all
  let ?n = "NumberU64 blk"
  have lt: "?n - 1 < ?n" using num by (simp add: word_less_nat_alt word_Suc_unat)
  have t: "tail bc < ?n" using ge lt by simp
  obtain ch where "f HeadK = Some (VHead ch)" "has_block f ch cur" using read_head [OF law cur] f by metis
  then have "has_block f hh cur" using C(4) by simp
  then have n: "NumberU64 cur = n" using head_block [OF ok] has_block_inj by metis
  have nil: "b0 = []" using b0 by (rule bcBegin_Inr)
  let ?G = "\<lambda>b. fold apply_bop b f"
  have r0: "retops f (?G b0)" by (simp add: nil retops_refl)
  have e1: "retops f (?G b1) \<and> (\<forall>j. canon (?G b1) j = (if ?n < j \<and> j \<le> n then Some 0 else canon f j)) \<and>
      (\<forall>j. j \<le> ?n \<longrightarrow> ?G b1 (ForkK j) = f (ForkK j))"
  proof (cases "?n < NumberU64 cur")
    case True
    then show ?thesis
      using clear_effect [OF law f _ r0, of 0 "heights_above ?n (NumberU64 cur)" b1] b1
      by (auto simp: heights_above_set nil n dest: leD)
  next
    case False
    then show ?thesis using b1 by (auto simp: nil n retops_refl)
  qed
  then have r1: "retops f (?G b1)" by blast
  note e2 = put_canonical_effect [OF law b2 f r1]
  have low: "\<forall>i. i \<le> ?n - 1 \<longrightarrow> ?G b2 (ForkK i) = f (ForkK i)"
  proof (intro allI impI)
    fix i assume "i \<le> ?n - 1"
    then have "i \<noteq> ?n" "i \<le> ?n" using lt by auto
    then show "?G b2 (ForkK i) = f (ForkK i)" using e1 e2(4) [of i] by simp
  qed
  have pn: "NumberU64 pb = ?n - 1" using num by simp
  have tp: "tail bc \<le> ?n - 1" using ge by simp
  have e3: "retops f (?G b3)" "\<forall>i. ?n - 1 < i \<or> i < tail bc \<longrightarrow> ?G b3 (ForkK i) = ?G b2 (ForkK i)"
    "linked f (?G b3) (tail bc) (?n - 1)" "canon (?G b3) (?n - 1) = Some (ParentHash blk)"
    using reorg_effect [OF law f ok b3 hp pn tp read_forks [OF law pf, folded f] e2(1) low] by blast+
  have cn: "canon (?G b3) ?n = Some h"
    using e3(2) lt e2(2) [of ?n] canon_cong [of "?G b3" ?n "?G b2"] by (simp add: hash)
  have up: "canon (?G b3) i = (if i \<le> n then Some 0 else canon f i)" if "?n < i" for i
  proof -
    have "?n - 1 < i" using lt that by (rule less_trans)
    then have "canon (?G b3) i = canon (?G b2) i" using e3(2) canon_cong by blast
    also have "\<dots> = canon (?G b1) i" using e2(2) [of i] that by auto
    finally show ?thesis using e1 that by simp
  qed
  have lk: "linked f (?G b3) (tail bc) ?n" by (rule linked_extend [OF e3(3) t e3(4) cn hb refl])
  have G: "?G b' = (?G b3)(HeadK \<mapsto> VHead h)" using bcPut_Inr [OF b4] by simp
  have ret: "retops f (?G b')" unfolding G by (rule retops_head [OF e3(1)])
  have cG: "canon (?G b') i = canon (?G b3) i" for i by (simp only: G canon_head)
  have cb: "\<exists>b. has_block f c b \<and> NumberU64 b = i" if c: "canon (?G b') i = Some c" "c \<noteq> 0" for i c
  proof -
    consider "i < tail bc" | "tail bc \<le> i" "i \<le> ?n" | "?n < i" by fastforce
    then show ?thesis
    proof cases
      case 1
      then have "i \<noteq> ?n" "i \<le> ?n" using t by auto
      then have "canon (?G b3) i = canon f i" using 1 e3(2) e2(4) [of i] e1 canon_cong by metis
      then obtain xs where "f (ForkK i) = Some (VForks (c # xs))" using c(1) by (auto simp: cG canon_Some)
      then show ?thesis using C(2) c(2) unfolding forks_ok_def by fastforce
    next
      case 2
      then show ?thesis using lk c(1) unfolding linked_def cG by (metis option.inject)
    next
      case 3
      then show ?thesis using up [OF 3] C(7) [of i] c by (auto simp: cG not_le split: if_splits)
    qed
  qed
  have "chain_ok (?G b') (tail bc) h ?n"
    unfolding chain_ok_def
  proof (intro conjI allI impI)
    show "blocks_ok (?G b')" by (rule retops_blocks_ok [OF ret C(1)])
    show "forks_ok (?G b')" by (rule retops_forks_ok [OF ret C(2) cb])
    show "linked (?G b') (?G b') (tail bc) ?n"
      using lk unfolding linked_def cG retops_block [OF ret] .
    show "?G b' HeadK = Some (VHead h)" by (simp add: G)
    show "canon (?G b') ?n = Some h" by (simp only: cG cn)
    show "tail bc \<le> ?n" using t by simp
    fix i assume "?n < i"
    then show "canon (?G b') i = None \<or> canon (?G b') i = Some 0"
      using up [of i] C(7) [of i] by (auto simp: cG)
  qed
  then show thesis using that [OF hb ret t] by blast
qed

subsection \<open>Pruning\<close>

definition dels :: "bkey set \<Rightarrow> bop list \<Rightarrow> bool" where
  "dels ks ops = (\<forall>x\<in>set ops. \<exists>k\<in>ks. x = BcDelete k)"

lemma dels_fold: "dels ks ops \<Longrightarrow> fold apply_bop ops f k = (if BcDelete k \<in> set ops then None else f k)"
proof (induction ops arbitrary: f)
  case Nil
  then show ?case by simp
next
  case (Cons x ops)
  then obtain k' where x: "x = BcDelete k'" and d: "dels ks ops" by (auto simp: dels_def)
  show ?case by (simp add: x Cons.IH [OF d])
qed

definition txkey :: "bkey \<Rightarrow> bool" where
  "txkey k = (case k of TxK h \<Rightarrow> True | ReceiptK h \<Rightarrow> True | _ \<Rightarrow> False)"

lemma prune_txs_ops:
  "rfold (\<lambda>t b. rbind (bcDelete api bc (TxK (txHash t)) b) (bcDelete api bc (ReceiptK (txHash t)))) ts b = Inr b' \<Longrightarrow>
   \<exists>ops. b' = b @ ops \<and> dels (Collect txkey) ops"
proof (induction ts arbitrary: b)
  case Nil
  then show ?case by (simp add: dels_def)
next
  case (Cons t ts)
  from Cons.prems obtain b1 b2 where b: "bcDelete api bc (TxK (txHash t)) b = Inr b1"
    "bcDelete api bc (ReceiptK (txHash t)) b1 = Inr b2"
    "rfold (\<lambda>t b. rbind (bcDelete api bc (TxK (txHash t)) b) (bcDelete api bc (ReceiptK (txHash t)))) ts b2 = Inr b'"
    by (auto simp: rbind_Inr_iff)
  from Cons.IH [OF b(3)] obtain ops where "b' = b2 @ ops" "dels (Collect txkey) ops" by blast
  moreover have "b2 = b @ [BcDelete (TxK (txHash t)), BcDelete (ReceiptK (txHash t))]"
    using bcDelete_Inr [OF b(1)] bcDelete_Inr [OF b(2)] by simp
  ultimately show ?case by (auto simp: dels_def txkey_def)
qed

lemma prune_forks_ops:
  "rfold (prune_fork api bc) fs b = Inr b' \<Longrightarrow>
   \<exists>ops. b' = b @ ops \<and> dels (Collect txkey \<union> BlockK ` set fs) ops \<and> (\<forall>y\<in>set fs. BcDelete (BlockK y) \<in> set ops)"
proof (induction fs arbitrary: b)
  case Nil
  then show ?case by (simp add: dels_def)
next
  case (Cons y fs)
  from Cons.prems obtain b2 where y: "prune_fork api bc y b = Inr b2" and b3: "rfold (prune_fork api bc) fs b2 = Inr b'"
    by (auto elim: rbind_InrE)
  from y obtain blk b1 where b: "bcDelete api bc (BlockK y) b = Inr b1"
    and "GetBlockByHash api bc y = Inr blk"
    and b': "rfold (\<lambda>t b. rbind (bcDelete api bc (TxK (txHash t)) b) (bcDelete api bc (ReceiptK (txHash t))))
       (bTransactions blk) b1 = Inr b2"
    unfolding prune_fork_def by (elim rbind_InrE) blast
  from prune_txs_ops [OF b'] obtain o1 where o1: "b2 = b1 @ o1" "dels (Collect txkey) o1" by blast
  from Cons.IH [OF b3] obtain o2 where o2: "b' = b2 @ o2" "dels (Collect txkey \<union> BlockK ` set fs) o2"
    "\<forall>y\<in>set fs. BcDelete (BlockK y) \<in> set o2" by blast
  have "b' = b @ (BcDelete (BlockK y) # o1 @ o2)" using o1(1) o2(1) bcDelete_Inr [OF b] by simp
  moreover have "dels (Collect txkey \<union> BlockK ` set (y # fs)) (BcDelete (BlockK y) # o1 @ o2)"
    using o1(2) o2(2) by (fastforce simp: dels_def)
  moreover have "\<forall>x\<in>set (y # fs). BcDelete (BlockK x) \<in> set (BcDelete (BlockK y) # o1 @ o2)" using o2(3) by simp
  ultimately show ?case by blast
qed

text \<open>What one round of pruning does to the store: all or nothing of one height.\<close>

definition pruned_at :: "bview \<Rightarrow> u64 \<Rightarrow> bview \<Rightarrow> bool" where
  "pruned_at f i g =
     (\<exists>fs. f (ForkK i) = Some (VForks fs) \<and> g (ForkK i) = None \<and>
        (\<forall>y. g (BlockK y) = (if y \<in> set fs then None else f (BlockK y))) \<and>
        (\<forall>j. j \<noteq> i \<longrightarrow> g (ForkK j) = f (ForkK j)) \<and> g HeadK = f HeadK)"

lemma prune_height_cases:
  assumes "bc_law api view"
  shows "prune_height api i bc = bc \<or>
    pruned_at (view (bcDb bc)) i (view (bcDb (prune_height api i bc))) \<and>
    tail (prune_height api i bc) = tail bc \<and> MaxBlockToRetain (prune_height api i bc) = MaxBlockToRetain bc \<and>
    PruningFrequency (prune_height api i bc) = PruningFrequency bc"
proof (cases "rbind (bcBegin api bc) (\<lambda>b.
           rbind (getForks api bc i) (\<lambda>forks.
           rbind (rfold (prune_fork api bc) forks b) (\<lambda>b.
           rbind (bcDelete api bc (ForkK i) b) (bcEnd api bc))))")
  case (Inl e)
  then show ?thesis by (simp add: prune_height_def)
next
  case (Inr bc')
  then have p: "prune_height api i bc = bc'" by (simp add: prune_height_def)
  from Inr obtain b fs b1 b2 where b: "bcBegin api bc = Inr b" "getForks api bc i = Inr fs"
    "rfold (prune_fork api bc) fs b = Inr b1" "bcDelete api bc (ForkK i) b1 = Inr b2" "bcEnd api bc b2 = Inr bc'"
    by (auto elim!: rbind_InrE)
  from prune_forks_ops [OF b(3)] obtain ops where ops: "b1 = ops" "dels (Collect txkey \<union> BlockK ` set fs) ops"
    "\<forall>y\<in>set fs. BcDelete (BlockK y) \<in> set ops" using bcBegin_Inr [OF b(1)] by auto
  have b2: "b2 = ops @ [BcDelete (ForkK i)]" using bcDelete_Inr [OF b(4)] ops(1) by simp
  note e = bcEnd_Inr [OF assms b(5)]
  have v: "view (bcDb bc') k = (if k = ForkK i \<or> BcDelete k \<in> set ops then None else view (bcDb bc) k)" for k
    unfolding e(1) b2 using dels_fold [OF ops(2), of "view (bcDb bc)" k] by simp
  have m: "BcDelete k \<in> set ops \<Longrightarrow> txkey k \<or> (\<exists>y\<in>set fs. k = BlockK y)" for k
    using ops(2) by (auto simp: dels_def)
  have "pruned_at (view (bcDb bc)) i (view (bcDb bc'))"
    unfolding pruned_at_def
  proof (intro exI [of _ fs] conjI allI impI)
    show "view (bcDb bc) (ForkK i) = Some (VForks fs)" by (rule read_forks [OF assms b(2)])
    show "view (bcDb bc') (ForkK i) = None" by (simp add: v)
    show "view (bcDb bc') (BlockK y) = (if y \<in> set fs then None else view (bcDb bc) (BlockK y))" for y
      using v [of "BlockK y"] ops(3) m [of "BlockK y"] by (auto simp: txkey_def)
    show "j \<noteq> i \<Longrightarrow> view (bcDb bc') (ForkK j) = view (bcDb bc) (ForkK j)" for j
      using v [of "ForkK j"] m [of "ForkK j"] by (auto simp: txkey_def)
    show "view (bcDb bc') HeadK = view (bcDb bc) HeadK"
      using v [of HeadK] m [of HeadK] by (auto simp: txkey_def)
  qed
  then show ?thesis using p e by simp
qed

lemma pruned_chain_ok:
  assumes "pruned_at f i g" "chain_ok f T hh n" "i < T"
  shows "chain_ok g T hh n" and "has_block f h b \<Longrightarrow> NumberU64 b \<noteq> i \<Longrightarrow> has_block g h b"
proof -
  note C = chain_okD [OF assms(2)]
  from assms(1) obtain fs where p: "f (ForkK i) = Some (VForks fs)" "g (ForkK i) = None"
    "\<And>y. g (BlockK y) = (if y \<in> set fs then None else f (BlockK y))"
    "\<And>j. j \<noteq> i \<Longrightarrow> g (ForkK j) = f (ForkK j)" "g HeadK = f HeadK" unfolding pruned_at_def by blast
  have num: "NumberU64 b = i" if y: "y \<in> set fs" "has_block f y b" for y b
  proof -
    have "y \<noteq> 0" using y(2) blocks_okD(4) [OF C(1)] by auto
    moreover have "\<forall>y\<in>set fs. y \<noteq> 0 \<longrightarrow> (\<exists>b. has_block f y b \<and> NumberU64 b = i)"
      using C(2) p(1) unfolding forks_ok_def by fastforce
    ultimately show ?thesis using y has_block_inj by metis
  qed
  show kept: "has_block g h b" if "has_block f h b" "NumberU64 b \<noteq> i" for h b
    using num [of h b] that by (auto simp: has_block_def p(3))
  have sub: "has_block f h b" if "has_block g h b" for h b
    using that by (simp add: has_block_def p(3) split: if_splits)
  have gone: "NumberU64 b \<noteq> i" if "has_block g h b" for h b
  proof
    assume "NumberU64 b = i"
    then have "h \<in> set fs" using C(2) sub [OF that] p(1) unfolding forks_ok_def by fastforce
    then show False using that by (simp add: has_block_def p(3))
  qed
  have cn: "canon g j = canon f j" if "j \<noteq> i" for j using p(4) [OF that] by (rule canon_cong)
  have ne: "j \<noteq> i" if "T \<le> j" for j using that assms(3) by auto
  show "chain_ok g T hh n"
    unfolding chain_ok_def
  proof (intro conjI allI impI)
    show "blocks_ok g" using C(1) sub unfolding blocks_ok_def by (simp add: p(3)) blast
    show "forks_ok g" unfolding forks_ok_def
    proof (intro conjI allI impI)
      fix j v assume v: "g (ForkK j) = Some v"
      then have j: "j \<noteq> i" using p(2) by auto
      then have "f (ForkK j) = Some v" using v p(4) by simp
      then obtain x xs where x: "v = VForks (x # xs)"
        "\<forall>y\<in>set (x # xs). y \<noteq> 0 \<longrightarrow> (\<exists>b. has_block f y b \<and> NumberU64 b = j)"
        using C(2) unfolding forks_ok_def by blast
      then have "\<forall>y\<in>set (x # xs). y \<noteq> 0 \<longrightarrow> (\<exists>b. has_block g y b \<and> NumberU64 b = j)" using kept j by blast
      with x(1) show "\<exists>x xs. v = VForks (x # xs) \<and> (\<forall>y\<in>set (x # xs). y \<noteq> 0 \<longrightarrow> (\<exists>b. has_block g y b \<and> NumberU64 b = j))" by blast
    next
      fix h b assume "has_block g h b"
      then show "\<exists>x xs. g (ForkK (NumberU64 b)) = Some (VForks (x # xs)) \<and> h \<in> set xs"
        using C(2) sub p(4) [OF gone] unfolding forks_ok_def by metis
    qed
    show "linked g g T n" unfolding linked_def
    proof (intro allI impI)
      fix j assume j: "T \<le> j" "j \<le> n"
      from linkedE [OF C(3) j] obtain c b where b: "canon f j = Some c" "has_block f c b" "NumberU64 b = j"
        "T < j \<Longrightarrow> canon f (j - 1) = Some (ParentHash b)" by blast
      have "canon g (j - 1) = canon f (j - 1)" if "T < j"
        by (rule cn [OF ne]) (rule word_pred(1) [OF that])
      then show "\<exists>c b. canon g j = Some c \<and> has_block g c b \<and> NumberU64 b = j \<and>
          (T < j \<longrightarrow> canon g (j - 1) = Some (ParentHash b))"
        using b cn [OF ne [OF j(1)]] kept [OF b(2)] ne [OF j(1)] by auto
    qed
    show "g HeadK = Some (VHead hh)" using C(4) p(5) by simp
    show "canon g n = Some hh" using C(5) cn [OF ne [OF C(6)]] by simp
    show "T \<le> n" by (rule C(6))
    fix j assume "n < j"
    then show "canon g j = None \<or> canon g j = Some 0"
      using C(7) [of j] cn [of j] C(6) ne [of j] by auto
  qed
qed

lemma prune_heights:
  assumes "bc_law api view"
  shows "chain_ok (view (bcDb bc)) T hh n \<Longrightarrow> \<forall>i\<in>set is. i < T \<Longrightarrow> bc' = fold (prune_height api) is bc \<Longrightarrow>
    chain_ok (view (bcDb bc')) T hh n \<and> tail bc' = tail bc \<and> MaxBlockToRetain bc' = MaxBlockToRetain bc \<and>
    PruningFrequency bc' = PruningFrequency bc \<and>
    (\<forall>h b. has_block (view (bcDb bc)) h b \<longrightarrow> T \<le> NumberU64 b \<longrightarrow> has_block (view (bcDb bc')) h b)"
proof (induction "is" arbitrary: bc)
  case Nil
  then show ?case by simp
next
  case (Cons i "is")
  let ?bc1 = "prune_height api i bc"
  have i: "i < T" using Cons.prems(2) by simp
  have s: "chain_ok (view (bcDb ?bc1)) T hh n \<and> tail ?bc1 = tail bc \<and> MaxBlockToRetain ?bc1 = MaxBlockToRetain bc \<and>
      PruningFrequency ?bc1 = PruningFrequency bc \<and>
      (\<forall>h b. has_block (view (bcDb bc)) h b \<longrightarrow> T \<le> NumberU64 b \<longrightarrow> has_block (view (bcDb ?bc1)) h b)"
    using prune_height_cases [OF assms, of i bc]
  proof
    assume "?bc1 = bc"
    then show ?thesis using Cons.prems(1) by simp
  next
    assume p: "pruned_at (view (bcDb bc)) i (view (bcDb ?bc1)) \<and> tail ?bc1 = tail bc \<and>
      MaxBlockToRetain ?bc1 = MaxBlockToRetain bc \<and> PruningFrequency ?bc1 = PruningFrequency bc"
    then show ?thesis
      using pruned_chain_ok [OF conjunct1 [OF p] Cons.prems(1) i] i by (metis leD)
  qed
  from Cons.IH [of ?bc1] s Cons.prems(2,3) show ?case by auto
qed

lemma chain_ok_later:
  assumes "chain_ok f t hh n" "t \<le> T" "T \<le> n"
  shows "chain_ok f T hh n"
proof -
  have "linked f f T n" using chain_okD(3) [OF assms(1)] assms(2) unfolding linked_def
    by (meson le_less_trans order_trans)
  then show ?thesis using assms unfolding chain_ok_def by blast
qed

text \<open>
  The tail never passes the head: the window is at least as large as one pruning step, and
  the loop starts only when more blocks than that are there.
\<close>

lemma new_tail:
  fixes t n :: u64
  assumes "\<not> n - t \<le> m" "p \<le> m" "t \<le> n"
  shows "t \<le> t + p" "t + p \<le> n"
proof -
  have u: "unat (n - t) = unat n - unat t" using assms(3) by (simp add: unat_sub word_le_nat_alt)
  have "unat p < unat n - unat t" using assms(1,2) by (simp add: word_le_nat_alt u)
  then have lt: "unat t + unat p < unat n" by linarith
  moreover have "unat n < 2 ^ LENGTH(64)" by (rule unsigned_less)
  ultimately have "unat t + unat p < 2 ^ LENGTH(64)" by (rule less_trans)
  then have "unat (t + p) = unat t + unat p" by (simp add: unat_word_ariths)
  with lt show "t \<le> t + p" "t + p \<le> n" by (simp_all add: word_le_nat_alt)
qed

text \<open>Writing the tail does not fail; if it did, the tail in memory would stay behind the blocks.\<close>

definition tail_writable :: "'db bc_api \<Rightarrow> bool" where
  "tail_writable api =
     ((\<forall>db. bcQueue api db TailK = None) \<and> (\<forall>db t. \<exists>db'. bcCommit api db [BcPut TailK (VTail t)] = Inr db'))"

lemma chain_ok_cong:
  "(\<And>k. k \<noteq> TailK \<Longrightarrow> g k = f k) \<Longrightarrow> chain_ok g t hh n = chain_ok f t hh n"
  by (simp add: chain_ok_def blocks_ok_def forks_ok_def linked_def canon_def has_block_def)

lemma tryPrune_chain_ok:
  assumes law: "bc_law api view" and w: "tail_writable api" and ok: "chain_ok (view (bcDb bc)) (tail bc) hh n"
    and p: "PruningFrequency bc \<le> MaxBlockToRetain bc"
  shows "chain_ok (view (bcDb (tryPrune api n bc))) (tail (tryPrune api n bc)) hh n"
    and "tail bc \<le> tail (tryPrune api n bc)"
    and "has_block (view (bcDb bc)) h b \<Longrightarrow> tail (tryPrune api n bc) \<le> NumberU64 b \<Longrightarrow>
      has_block (view (bcDb (tryPrune api n bc))) h b"
proof -
  let ?bc' = "tryPrune api n bc"
  have "chain_ok (view (bcDb ?bc')) (tail ?bc') hh n \<and> tail bc \<le> tail ?bc' \<and>
      (\<forall>h b. has_block (view (bcDb bc)) h b \<longrightarrow> tail ?bc' \<le> NumberU64 b \<longrightarrow>
        has_block (view (bcDb ?bc')) h b)"
  proof (cases "n - tail bc \<le> MaxBlockToRetain bc")
    case True
    then show ?thesis using ok by (simp add: tryPrune_def)
  next
    case False
    let ?T = "tail bc + PruningFrequency bc"
    note nt = new_tail [OF False p chain_okD(6) [OF ok]]
    define bc1 where "bc1 = fold (prune_height api) (map of_nat [unat (tail bc)..<unat ?T]) bc"
    have "\<forall>i\<in>set (map (of_nat :: nat \<Rightarrow> u64) [unat (tail bc)..<unat ?T]). i < ?T"
    proof
      fix i :: u64 assume "i \<in> set (map of_nat [unat (tail bc)..<unat ?T])"
      then obtain k where k: "i = of_nat k" "k < unat ?T" by auto
      then have "unat i \<le> k" by (simp add: unat_of_nat)
      with k(2) show "i < ?T" by (simp add: word_less_nat_alt)
    qed
    from prune_heights [OF law chain_ok_later [OF ok nt] this bc1_def]
    have b1: "chain_ok (view (bcDb bc1)) ?T hh n" "tail bc1 = tail bc"
      "\<And>h b. has_block (view (bcDb bc)) h b \<Longrightarrow> ?T \<le> NumberU64 b \<Longrightarrow> has_block (view (bcDb bc1)) h b" by blast+
    obtain db where db: "bcCommit api (bcDb bc1) [BcPut TailK (VTail ?T)] = Inr db"
      using w unfolding tail_writable_def by blast
    have q: "bcQueue api (bcDb bc1) TailK = None" using w unfolding tail_writable_def by blast
    have e: "?bc' = bc1\<lparr>bcDb := db, tail := ?T\<rparr>"
      using False unfolding tryPrune_def Let_def bc1_def [symmetric]
      by (simp add: bcPut_def q bcEnd_def db)
    have v: "view db = (view (bcDb bc1))(TailK \<mapsto> VTail ?T)" using bc_lawD(4) [OF law db] by simp
    have "chain_ok (view db) ?T hh n = chain_ok (view (bcDb bc1)) ?T hh n"
      by (rule chain_ok_cong) (simp add: v)
    moreover have "has_block (view db) h b = has_block (view (bcDb bc1)) h b" for h b by (simp add: v has_block_def)
    ultimately show ?thesis using b1(1,3) nt(1) by (simp add: e)
  qed
  then show "chain_ok (view (bcDb (tryPrune api n bc))) (tail (tryPrune api n bc)) hh n"
    and "tail bc \<le> tail (tryPrune api n bc)"
    and "has_block (view (bcDb bc)) h b \<Longrightarrow> tail (tryPrune api n bc) \<le> NumberU64 b \<Longrightarrow>
      has_block (view (bcDb (tryPrune api n bc))) h b" by blast+
qed

text \<open>The settings of the store do not change.\<close>

lemma bcEnd_config: "bcEnd api bc b = Inr bc' \<Longrightarrow> MaxBlockToRetain bc' = MaxBlockToRetain bc \<and> PruningFrequency bc' = PruningFrequency bc"
  by (auto simp: bcEnd_def rbind_Inr_iff)

lemma prune_height_config:
  "MaxBlockToRetain (prune_height api i bc) = MaxBlockToRetain bc \<and> PruningFrequency (prune_height api i bc) = PruningFrequency bc"
proof (cases "prune_height api i bc = bc")
  case False
  then obtain b where "bcEnd api bc b = Inr (prune_height api i bc)"
    unfolding prune_height_def by (auto split: sum.splits elim!: rbind_InrE)
  then show ?thesis by (rule bcEnd_config)
qed simp

lemma prune_heights_config:
  "MaxBlockToRetain (fold (prune_height api) is bc) = MaxBlockToRetain bc \<and>
   PruningFrequency (fold (prune_height api) is bc) = PruningFrequency bc"
  by (induction "is" arbitrary: bc) (simp_all add: prune_height_config)

lemma tryPrune_config:
  "MaxBlockToRetain (tryPrune api n bc) = MaxBlockToRetain bc \<and> PruningFrequency (tryPrune api n bc) = PruningFrequency bc"
  by (auto simp: tryPrune_def Let_def prune_heights_config split: sum.split elim!: rbind_InrE dest!: bcEnd_config)

lemma SetHead_config:
  "SetHead api fuel h bc = Inr bc' \<Longrightarrow> MaxBlockToRetain bc' = MaxBlockToRetain bc \<and> PruningFrequency bc' = PruningFrequency bc"
  by (auto simp: SetHead_def tryPrune_config elim!: rbind_InrE dest!: bcEnd_config)

lemma set_head_chain:
  assumes "bc_law api view" and "tail_writable api" and "chain_ok (view (bcDb bc)) (tail bc) hh n"
    and "PruningFrequency bc \<le> MaxBlockToRetain bc" and "SetHead api fuel h bc = Inr bc'"
  shows "\<exists>b. has_block (view (bcDb bc)) h b \<and> chain_ok (view (bcDb bc')) (tail bc') h (NumberU64 b) \<and> tail bc \<le> tail bc' \<and>
    (\<forall>x y. has_block (view (bcDb bc)) x y \<longrightarrow> tail bc' \<le> NumberU64 y \<longrightarrow> has_block (view (bcDb bc')) x y)"
proof -
  from assms(5) obtain blk ops bc1 where s: "GetBlockByHash api bc h = Inr blk" "setHeadOps api fuel h bc = Inr ops"
    "bcEnd api bc ops = Inr bc1" "bc' = tryPrune api (NumberU64 blk) bc1"
    unfolding SetHead_def by (auto simp: rbind_Inr_iff)
  from setHead_effect [OF assms(1) refl assms(3) s(2)] obtain b where
    b: "has_block (view (bcDb bc)) h b" "retops (view (bcDb bc)) (fold apply_bop ops (view (bcDb bc)))"
    "chain_ok (fold apply_bop ops (view (bcDb bc))) (tail bc) h (NumberU64 b)" .
  have bb: "b = blk" using b(1) read_block [OF assms(1) s(1)] has_block_inj by metis
  note e = bcEnd_Inr [OF assms(1) s(3)]
  have ok1: "chain_ok (view (bcDb bc1)) (tail bc1) h (NumberU64 blk)" using b(3) by (simp add: e bb)
  have p1: "PruningFrequency bc1 \<le> MaxBlockToRetain bc1" using assms(4) by (simp add: e)
  note tp = tryPrune_chain_ok [OF assms(1,2) ok1 p1, folded s(4)]
  have "has_block (view (bcDb bc')) x y" if "has_block (view (bcDb bc)) x y" "tail bc' \<le> NumberU64 y" for x y
    by (rule tp(3) [OF _ that(2)]) (simp add: e(1) retops_block [OF b(2)] that(1))
  then show ?thesis using b(1) tp(1,2) by (auto simp: bb e)
qed

text \<open>(C8)
  When SetHead returns without an error, the block store is consistent again, with the block
  as the head: the canonical entries from the tail to its height are its ancestors, nothing
  above it is canonical, every stored block is listed at its height, and no block at or above
  the tail it leaves has been lost, whatever the reorganisation and the pruning it has done.
\<close>

theorem set_head_keeps_chain:
  assumes "bc_law api view" and "tail_writable api" and "chain_ok (view (bcDb bc)) (tail bc) hh n"
    and "PruningFrequency bc \<le> MaxBlockToRetain bc" and "SetHead api fuel h bc = Inr bc'"
  shows "\<exists>b. has_block (view (bcDb bc)) h b \<and> chain_ok (view (bcDb bc')) (tail bc') h (NumberU64 b) \<and> tail bc \<le> tail bc' \<and>
    (\<forall>x y. has_block (view (bcDb bc)) x y \<longrightarrow> tail bc' \<le> NumberU64 y \<longrightarrow> has_block (view (bcDb bc')) x y)"
  by (rule set_head_chain [OF assms])

end
