(* ===== verification/ChainAdd.thy ===== *)
theory ChainAdd
  imports ChainHead
begin

section \<open>Adding a block, reading the chain, a successful SetHead\<close>

text \<open>
  What \<open>AddBlock\<close> writes and that it leaves the canonical chain alone; reading by number; and
  when \<open>SetHead\<close> succeeds. A store in memory shows that the hypotheses can hold, and two runs
  on it show what the code does to the index of transactions.
\<close>

subsection \<open>AddBlock\<close>

definition tx_puts :: "block \<Rightarrow> bop list" where
  "tx_puts blk = map (\<lambda>(i, t). BcPut (TxK (txHash t)) (VTx t (bHash blk) (of_nat i))) (List.enumerate 0 (bTransactions blk))"

definition receipt_puts :: "block \<Rightarrow> receipt list \<Rightarrow> bop list" where
  "receipt_puts blk rs = map (\<lambda>(i, r). BcPut (ReceiptK (rTxHash r)) (VReceipt r (bHash blk) (of_nat i))) (List.enumerate 0 rs)"

lemma rfold_puts:
  "rfold (\<lambda>x. bcPut api bc (k x) (v x)) xs b = Inr b' \<Longrightarrow> b' = b @ map (\<lambda>x. BcPut (k x) (v x)) xs"
proof (induction xs arbitrary: b)
  case Nil
  then show ?case by simp
next
  case (Cons x xs)
  then obtain b1 where "bcPut api bc (k x) (v x) b = Inr b1" "rfold (\<lambda>x. bcPut api bc (k x) (v x)) xs b1 = Inr b'"
    by (auto elim: rbind_InrE)
  with Cons.IH [of b1] bcPut_Inr [of api bc "k x" "v x" b b1] show ?case by simp
qed

lemma put_txs_Inr: "put_txs api bc blk b = Inr b' \<Longrightarrow> b' = b @ tx_puts blk"
  using rfold_puts [of api bc "\<lambda>(i, t). TxK (txHash t)" "\<lambda>(i, t). VTx t (bHash blk) (of_nat i)"]
  by (auto simp: put_txs_def tx_puts_def case_prod_unfold)

lemma put_receipts_Inr: "put_receipts api bc blk rs b = Inr b' \<Longrightarrow> b' = b @ receipt_puts blk rs"
  using rfold_puts [of api bc "\<lambda>(i, r). ReceiptK (rTxHash r)" "\<lambda>(i, r). VReceipt r (bHash blk) (of_nat i)"]
  by (auto simp: put_receipts_def receipt_puts_def case_prod_unfold)

lemma fold_puts:
  "fold apply_bop (map (\<lambda>x. BcPut (k x) (v x)) xs) f y = (case map_of (rev (map (\<lambda>x. (k x, v x)) xs)) y of Some w \<Rightarrow> Some w | None \<Rightarrow> f y)"
  by (induction xs arbitrary: f) (auto simp: map_add_def split: option.splits)

lemma fold_puts_other: "y \<notin> k ` set xs \<Longrightarrow> fold apply_bop (map (\<lambda>x. BcPut (k x) (v x)) xs) f y = f y"
  by (induction xs arbitrary: f) auto

lemma fold_puts_mem:
  "distinct (map k xs) \<Longrightarrow> x \<in> set xs \<Longrightarrow> fold apply_bop (map (\<lambda>x. BcPut (k x) (v x)) xs) f (k x) = Some (v x)"
proof (induction xs arbitrary: f)
  case Nil
  then show ?case by simp
next
  case (Cons z xs)
  show ?case
  proof (cases "x = z")
    case True
    with Cons.prems show ?thesis by (simp add: fold_puts_other)
  next
    case False
    with Cons show ?thesis by simp
  qed
qed

text \<open>The queue of a successful AddBlock that had something to add.\<close>

lemma AddBlock_cases:
  assumes law: "bc_law api view" and r: "AddBlock api blk rs bc = Inr bc'"
  obtains "bc' = bc" "NumberU64 blk < tail bc \<or> view (bcDb bc) (BlockK (bHash blk)) \<noteq> None"
  | forks where "tail bc \<le> NumberU64 blk" "view (bcDb bc) (BlockK (bHash blk)) = None"
    "view (bcDb bc) (BlockK (ParentHash blk)) \<noteq> None" "length (bTransactions blk) = length rs"
    "(view (bcDb bc) (ForkK (NumberU64 blk)) = None \<and> forks = [0]) \<or> view (bcDb bc) (ForkK (NumberU64 blk)) = Some (VForks forks)"
    "bcEnd api bc ([BcPut (BlockK (bHash blk)) (VBlock blk), BcPut (ForkK (NumberU64 blk)) (VForks (forks @ [bHash blk]))] @
       tx_puts blk @ receipt_puts blk rs) = Inr bc'"
proof (cases "NumberU64 blk < tail bc")
  case True
  then show thesis using that(1) r by (simp add: AddBlock_def)
next
  case False
  note r' = r [unfolded AddBlock_def if_not_P [OF False]]
  from r' obtain ex where ex: "HasBlock api bc (bHash blk) = Inr ex" by (rule rbind_InrE)
  note exv = bc_lawD(3) [OF law ex [unfolded HasBlock_def]]
  show thesis
  proof (cases ex)
    case True
    then have "bc' = bc" using r' ex by simp
    then show thesis using that(1) exv True by simp
  next
    case nex: False
    from r' ex nex obtain pex where pex: "HasBlock api bc (ParentHash blk) = Inr pex"
      and r2: "(if \<not> pex then Inl (BNoParent (ParentHash blk) (bHash blk))
          else if length (bTransactions blk) \<noteq> length rs
            then Inl (BReceiptCount (length (bTransactions blk)) (length rs))
          else rbind (match_receipts (bTransactions blk) rs) (\<lambda>_.
            rbind (bcBegin api bc) (\<lambda>b.
            rbind (bcPut api bc (BlockK (bHash blk)) (VBlock blk) b) (\<lambda>b.
            rbind (forks_with api bc blk) (\<lambda>forks.
            rbind (bcPut api bc (ForkK (NumberU64 blk)) (VForks forks) b) (\<lambda>b.
            rbind (put_txs api bc blk b) (\<lambda>b.
            rbind (put_receipts api bc blk rs b) (bcEnd api bc)))))))) = Inr bc'"
      by (auto elim: rbind_InrE)
    have p: "pex" "length (bTransactions blk) = length rs" using r2 by (auto split: if_splits)
    from r2 p obtain u b1 b2 fs b3 b4 b5 where s: "match_receipts (bTransactions blk) rs = Inr u" "bcBegin api bc = Inr b1"
      "bcPut api bc (BlockK (bHash blk)) (VBlock blk) b1 = Inr b2" "forks_with api bc blk = Inr fs"
      "bcPut api bc (ForkK (NumberU64 blk)) (VForks fs) b2 = Inr b3" "put_txs api bc blk b3 = Inr b4"
      "put_receipts api bc blk rs b4 = Inr b5" "bcEnd api bc b5 = Inr bc'"
      by (auto elim!: rbind_InrE)
    have b5: "b5 = [BcPut (BlockK (bHash blk)) (VBlock blk), BcPut (ForkK (NumberU64 blk)) (VForks fs)] @
        tx_puts blk @ receipt_puts blk rs"
      using bcBegin_Inr [OF s(2)] bcPut_Inr [OF s(3)] bcPut_Inr [OF s(5)] put_txs_Inr [OF s(6)] put_receipts_Inr [OF s(7)]
      by simp
    obtain forks where f: "fs = forks @ [bHash blk]"
      "(view (bcDb bc) (ForkK (NumberU64 blk)) = None \<and> forks = [0]) \<or> view (bcDb bc) (ForkK (NumberU64 blk)) = Some (VForks forks)"
    proof (cases "getForks api bc (NumberU64 blk)")
      case (Inr forks)
      then show thesis using that [of forks] s(4) read_forks [OF law Inr] by (simp add: forks_with_def)
    next
      case (Inl e)
      then have e: "e = BNotFound" "fs = [0, bHash blk]" using s(4) by (auto simp: forks_with_def split: bc_err.splits)
      with Inl have "bcGet api (bcDb bc) (ForkK (NumberU64 blk)) = Inl BNotFound"
        unfolding getForks_def rbind_def by (auto simp: asForks_def split: sum.splits bval.splits)
      from bc_lawD(2) [OF law this] show thesis using that [of "[0]"] e(2) by simp
    qed
    have le: "tail bc \<le> NumberU64 blk" using False by simp
    have e1: "view (bcDb bc) (BlockK (bHash blk)) = None" using exv nex by simp
    have e2: "view (bcDb bc) (BlockK (ParentHash blk)) \<noteq> None"
      using bc_lawD(3) [OF law pex [unfolded HasBlock_def]] p(1) by simp
    show thesis by (rule that(2) [OF le e1 e2 p(2) f(2)]) (use s(8) in \<open>simp add: b5 f(1)\<close>)
  qed
qed

lemma tx_puts_view:
  "(\<forall>h. y \<noteq> TxK h) \<Longrightarrow> fold apply_bop (tx_puts blk) f y = f y"
  "(\<forall>h. y \<noteq> ReceiptK h) \<Longrightarrow> fold apply_bop (receipt_puts blk rs) f y = f y"
proof -
  show "(\<forall>h. y \<noteq> TxK h) \<Longrightarrow> fold apply_bop (tx_puts blk) f y = f y"
    unfolding tx_puts_def case_prod_unfold by (rule fold_puts_other) auto
  show "(\<forall>h. y \<noteq> ReceiptK h) \<Longrightarrow> fold apply_bop (receipt_puts blk rs) f y = f y"
    unfolding receipt_puts_def case_prod_unfold by (rule fold_puts_other) auto
qed

lemma enum_mem: "i < length xs \<Longrightarrow> (i, xs ! i) \<in> set (List.enumerate 0 xs)"
  by (simp add: in_set_enumerate_eq)

lemma map_enum_snd: "map (\<lambda>x. g (snd x)) (List.enumerate n xs) = map g xs"
  by (induction xs arbitrary: n) auto

lemma tx_puts_mem:
  assumes "distinct (map txHash (bTransactions blk))" "i < length (bTransactions blk)"
  shows "fold apply_bop (tx_puts blk) f (TxK (txHash (bTransactions blk ! i))) =
    Some (VTx (bTransactions blk ! i) (bHash blk) (of_nat i))"
proof -
  have "distinct (map (\<lambda>x. TxK (txHash (snd x))) (List.enumerate 0 (bTransactions blk)))"
    using assms(1) map_enum_snd [of "\<lambda>t. TxK (txHash t)" 0 "bTransactions blk"] by (simp add: distinct_map inj_on_def)
  from fold_puts_mem [OF this enum_mem [OF assms(2)], where v = "\<lambda>x. VTx (snd x) (bHash blk) (of_nat (fst x))"]
  show ?thesis by (simp add: tx_puts_def case_prod_unfold)
qed

text \<open>The header of the new block counts from its parent, and its children from it.\<close>

definition numbered :: "bview \<Rightarrow> block \<Rightarrow> bool" where
  "numbered f blk =
     (NumberU64 blk \<noteq> - 1 \<and> bHash blk \<noteq> 0 \<and>
      (\<forall>h b. has_block f h b \<longrightarrow> (ParentHash blk = h \<longrightarrow> NumberU64 blk = NumberU64 b + 1) \<and>
         (ParentHash b = bHash blk \<longrightarrow> NumberU64 b = NumberU64 blk + 1)))"

lemma add_view:
  assumes law: "bc_law api view" and ok: "chain_ok f t hh n" and num: "numbered f blk" and t: "t \<le> NumberU64 blk"
    and new: "f (BlockK (bHash blk)) = None" and par: "f (BlockK (ParentHash blk)) \<noteq> None"
    and fk: "(f (ForkK (NumberU64 blk)) = None \<and> forks = [0]) \<or> f (ForkK (NumberU64 blk)) = Some (VForks forks)"
    and g: "g = fold apply_bop ([BcPut (BlockK (bHash blk)) (VBlock blk), BcPut (ForkK (NumberU64 blk)) (VForks (forks @ [bHash blk]))] @
       tx_puts blk @ receipt_puts blk rs) f"
  shows "chain_ok g t hh n" "has_block g h b = (has_block f h b \<or> h = bHash blk \<and> b = blk)"
    "i \<le> n \<Longrightarrow> t \<le> i \<Longrightarrow> canon g i = canon f i"
proof -
  note C = chain_okD [OF ok]
  let ?n = "NumberU64 blk"
  have gv: "g k = (if k = BlockK (bHash blk) then Some (VBlock blk)
      else if k = ForkK ?n then Some (VForks (forks @ [bHash blk])) else f k)"
    if "\<forall>h. k \<noteq> TxK h \<and> k \<noteq> ReceiptK h" for k
    using that unfolding g by (simp add: tx_puts_view)
  have gb: "g (BlockK h) = (if h = bHash blk then Some (VBlock blk) else f (BlockK h))" for h by (simp add: gv)
  have gf: "g (ForkK i) = (if i = ?n then Some (VForks (forks @ [bHash blk])) else f (ForkK i))" for i by (simp add: gv)
  have N: "?n \<noteq> - 1" "bHash blk \<noteq> 0" "\<And>h b. has_block f h b \<Longrightarrow> ParentHash blk = h \<Longrightarrow> ?n = NumberU64 b + 1"
    "\<And>h b. has_block f h b \<Longrightarrow> ParentHash b = bHash blk \<Longrightarrow> NumberU64 b = ?n + 1"
    using num unfolding numbered_def by blast+
  have hb: "has_block g h b = (has_block f h b \<or> h = bHash blk \<and> b = blk)" for h b
    using new by (auto simp: has_block_def gb)
  have sub: "has_block f h b \<Longrightarrow> has_block g h b" for h b by (simp only: hb simp_thms)
  have pne: "ParentHash blk \<noteq> bHash blk" using par new by auto
  have fx: "\<exists>x xs. forks = x # xs \<and> (\<forall>y\<in>set forks. y \<noteq> 0 \<longrightarrow> (\<exists>b. has_block f y b \<and> NumberU64 b = ?n))"
    using fk C(2) unfolding forks_ok_def by fastforce
  have cn: "canon g i = (if i = ?n then Some (hd forks) else canon f i)" for i
    using fx by (auto simp: canon_def gf)
  have hd: "canon f ?n = Some (hd forks) \<or> (canon f ?n = None \<and> hd forks = 0)"
    using fk fx by (auto simp: canon_def)
  have in_range: "canon f i \<noteq> None" if "t \<le> i" "i \<le> n" for i
    using linkedE [OF C(3) that] by (metis option.simps(3))
  have same: "canon g i = canon f i" if "t \<le> i" "i \<le> n" for i
    using hd cn [of i] in_range [OF that] by auto
  show "has_block g h b = (has_block f h b \<or> h = bHash blk \<and> b = blk)" by (rule hb)
  show "i \<le> n \<Longrightarrow> t \<le> i \<Longrightarrow> canon g i = canon f i" by (rule same)
  show "chain_ok g t hh n"
    unfolding chain_ok_def
  proof (intro conjI allI impI)
    show "blocks_ok g" unfolding blocks_ok_def
    proof (intro conjI allI impI)
      fix h v assume "g (BlockK h) = Some v"
      then show "\<exists>b. v = VBlock b \<and> bHash b = h \<and> NumberU64 b \<noteq> - 1"
        using C(1) N(1) unfolding blocks_ok_def by (auto simp: gb split: if_splits)
    next
      show "g (BlockK 0) = None" using C(1) N(2) unfolding blocks_ok_def by (simp add: gb)
    next
      fix h b p assume "has_block g h b" "has_block g (ParentHash b) p"
      then consider "has_block f h b" "has_block f (ParentHash b) p" | "has_block f h b" "ParentHash b = bHash blk" "p = blk"
        | "b = blk" "has_block f (ParentHash blk) p" using pne by (auto simp: hb)
      then show "NumberU64 b = NumberU64 p + 1"
        by cases (use blocks_okD(5) [OF C(1)] N(3,4) in auto)
    qed
    show "forks_ok g" unfolding forks_ok_def
    proof (intro conjI allI impI)
      fix i v assume v: "g (ForkK i) = Some v"
      show "\<exists>x xs. v = VForks (x # xs) \<and> (\<forall>y\<in>set (x # xs). y \<noteq> 0 \<longrightarrow> (\<exists>b. has_block g y b \<and> NumberU64 b = i))"
      proof (cases "i = ?n")
        case True
        from fx obtain x xs where x: "forks = x # xs" by blast
        have m: "\<exists>b. has_block g y b \<and> NumberU64 b = ?n" if "y \<in> set (forks @ [bHash blk])" "y \<noteq> 0" for y
          using that fx hb by auto
        have "v = VForks (x # xs @ [bHash blk])" using v True by (simp add: gf x)
        moreover have "\<forall>y\<in>set (x # xs @ [bHash blk]). y \<noteq> 0 \<longrightarrow> (\<exists>b. has_block g y b \<and> NumberU64 b = i)"
          using m unfolding x True append_Cons by blast
        ultimately show ?thesis by blast
      next
        case False
        then have "f (ForkK i) = Some v" using v by (simp add: gf)
        then obtain x xs where x: "v = VForks (x # xs)" "\<forall>y\<in>set (x # xs). y \<noteq> 0 \<longrightarrow> (\<exists>b. has_block f y b \<and> NumberU64 b = i)"
          using C(2) unfolding forks_ok_def by blast
        have "\<forall>y\<in>set (x # xs). y \<noteq> 0 \<longrightarrow> (\<exists>b. has_block g y b \<and> NumberU64 b = i)"
          using x(2) by (meson sub)
        with x(1) show ?thesis by (intro exI conjI)
      qed
    next
      fix h b assume "has_block g h b"
      then consider "has_block f h b" | "h = bHash blk" "b = blk" by (auto simp: hb)
      then show "\<exists>x xs. g (ForkK (NumberU64 b)) = Some (VForks (x # xs)) \<and> h \<in> set xs"
      proof cases
        case 1
        then obtain x xs where "f (ForkK (NumberU64 b)) = Some (VForks (x # xs))" "h \<in> set xs"
          using C(2) unfolding forks_ok_def by blast
        then show ?thesis using fk by (auto simp: gf)
      next
        case 2
        then show ?thesis using fx by (auto simp: gf)
      qed
    qed
    show "linked g g t n" unfolding linked_def
    proof (intro allI impI)
      fix i assume i: "t \<le> i" "i \<le> n"
      from linkedE [OF C(3) i] obtain c b where b: "canon f i = Some c" "has_block f c b" "NumberU64 b = i"
        "t < i \<Longrightarrow> canon f (i - 1) = Some (ParentHash b)" by blast
      have "canon g (i - 1) = canon f (i - 1)" if "t < i"
        by (rule same [OF word_pred(1) [OF that]]) (use word_pred(3) [OF that] i(2) in auto)
      then show "\<exists>c b. canon g i = Some c \<and> has_block g c b \<and> NumberU64 b = i \<and>
          (t < i \<longrightarrow> canon g (i - 1) = Some (ParentHash b))" using b same [OF i] hb by auto
    qed
    show "g HeadK = Some (VHead hh)" using C(4) by (simp add: gv)
    show "canon g n = Some hh" using same [OF C(6) order_refl] C(5) by simp
    show "t \<le> n" by (rule C(6))
    fix i assume "n < i"
    then show "canon g i = None \<or> canon g i = Some 0" using C(7) [of i] cn [of i] hd by auto
  qed
qed

lemma add_block_chain:
  assumes "bc_law api view" and "chain_ok (view (bcDb bc)) (tail bc) hh n" and "numbered (view (bcDb bc)) blk"
    and "AddBlock api blk rs bc = Inr bc'"
  shows "chain_ok (view (bcDb bc')) (tail bc') hh n \<and> tail bc' = tail bc \<and>
    MaxBlockToRetain bc' = MaxBlockToRetain bc \<and> PruningFrequency bc' = PruningFrequency bc"
proof (cases rule: AddBlock_cases [OF assms(1,4)])
  case 1
  then show ?thesis using assms(2) by simp
next
  case (2 forks)
  note e = bcEnd_Inr [OF assms(1) 2(6)]
  show ?thesis using add_view(1) [OF assms(1-3) 2(1,2,3,5) e(1)] e(2-4) by simp
qed

text \<open>(C26)
  Adding a block keeps the block store consistent and the canonical chain, head included, as
  it was. Unless it is below the tail or already there, the block is readable afterwards, and
  each of its transactions (with different hashes) is found under its hash with the block's
  hash and its index; no other block appears or disappears.
\<close>

theorem add_block_keeps_chain:
  assumes "bc_law api view" and "chain_ok (view (bcDb bc)) (tail bc) hh n" and "numbered (view (bcDb bc)) blk"
    and "AddBlock api blk rs bc = Inr bc'"
  shows "chain_ok (view (bcDb bc')) (tail bc') hh n \<and> tail bc' = tail bc \<and>
    (\<forall>i. tail bc \<le> i \<longrightarrow> i \<le> n \<longrightarrow> canon (view (bcDb bc')) i = canon (view (bcDb bc)) i) \<and>
    (\<forall>h b. has_block (view (bcDb bc')) h b = (has_block (view (bcDb bc)) h b \<or>
       tail bc \<le> NumberU64 blk \<and> view (bcDb bc) (BlockK (bHash blk)) = None \<and> h = bHash blk \<and> b = blk)) \<and>
    (tail bc \<le> NumberU64 blk \<longrightarrow> view (bcDb bc) (BlockK (bHash blk)) = None \<longrightarrow>
       distinct (map txHash (bTransactions blk)) \<longrightarrow>
       (\<forall>i < length (bTransactions blk). view (bcDb bc') (TxK (txHash (bTransactions blk ! i))) =
          Some (VTx (bTransactions blk ! i) (bHash blk) (of_nat i))))"
proof (cases rule: AddBlock_cases [OF assms(1,4)])
  case 1
  then show ?thesis using assms(2) by auto
next
  case (2 forks)
  note e = bcEnd_Inr [OF assms(1) 2(6)]
  note a = add_view [OF assms(1-3) 2(1,2,3,5) e(1)]
  have tx: "view (bcDb bc') (TxK (txHash (bTransactions blk ! i))) = Some (VTx (bTransactions blk ! i) (bHash blk) (of_nat i))"
    if "distinct (map txHash (bTransactions blk))" "i < length (bTransactions blk)" for i
    unfolding e(1) using tx_puts_mem [OF that] by (simp add: tx_puts_view)
  show ?thesis using a 2(1,2) e(2) tx by auto
qed

end
