(* ===== verification/ChainReads.thy ===== *)
theory ChainReads
  imports ChainAdd
begin

section \<open>A block store that does not fail\<close>

text \<open>
  On a datastore that does not fail: reading by number gives the ancestors of the head and
  nothing above it, and \<open>SetHead\<close> succeeds for every block whose chain of parents meets the
  canonical chain at or above the tail; the walk needs no more rounds than there are heights
  between the block and the tail.
\<close>

definition bc_reliable :: "'db bc_api \<Rightarrow> ('db \<Rightarrow> bview) \<Rightarrow> bool" where
  "bc_reliable api view =
     (bc_law api view \<and>
      (\<forall>db k. bcGet api db k = (case view db k of Some v \<Rightarrow> Inr v | None \<Rightarrow> Inl BNotFound)) \<and>
      (\<forall>db. bcTxn api db = None) \<and> (\<forall>db k. bcQueue api db k = None) \<and>
      (\<forall>db b. \<exists>db'. bcCommit api db b = Inr db'))"

lemma bc_reliableD:
  assumes "bc_reliable api view"
  shows "bc_law api view" "bcGet api db k = (case view db k of Some v \<Rightarrow> Inr v | None \<Rightarrow> Inl BNotFound)"
    "bcBegin api bc = Inr []" "bcPut api bc k v b = Inr (b @ [BcPut k v])" "\<exists>bc'. bcEnd api bc b = Inr bc'"
    "tail_writable api"
proof -
  note D = assms [unfolded bc_reliable_def]
  show "bc_law api view" using D by (rule conjunct1)
  show "bcGet api db k = (case view db k of Some v \<Rightarrow> Inr v | None \<Rightarrow> Inl BNotFound)" using D by blast
  show "bcBegin api bc = Inr []" using D by (simp add: bcBegin_def)
  show "bcPut api bc k v b = Inr (b @ [BcPut k v])" using D by (simp add: bcPut_def)
  have c: "\<exists>db'. bcCommit api db b = Inr db'" for db b using D by blast
  from c [of "bcDb bc" b] show "\<exists>bc'. bcEnd api bc b = Inr bc'" by (auto simp: bcEnd_def)
  show "tail_writable api" using D c by (simp add: tail_writable_def)
qed

lemma listed:
  assumes "forks_ok f" "has_block f h b" "NumberU64 b = i"
  obtains x xs where "f (ForkK i) = Some (VForks (x # xs))"
  using assms unfolding forks_ok_def by blast

lemma reliable_block:
  assumes "bc_reliable api view" "has_block (view (bcDb bc)) h b"
  shows "GetBlockByHash api bc h = Inr b"
  using assms(2) by (simp add: GetBlockByHash_def bc_reliableD(2) [OF assms(1)] has_block_def asBlock_def)

lemma reliable_forks:
  assumes "bc_reliable api view" "view (bcDb bc) (ForkK i) = Some (VForks fs)"
  shows "getForks api bc i = Inr fs"
  using assms(2) by (simp add: getForks_def bc_reliableD(2) [OF assms(1)] asForks_def)

text \<open>(C9)
  The canonical chain is the chain of parents of the head: from the tail to the head, the
  block read by number is the ancestor of the head at that distance; above the head no block
  is found; and GetHead reads the head.
\<close>

theorem get_by_number_is_ancestor:
  assumes "bc_reliable api view" and "chain_ok (view (bcDb bc)) (tail bc) hh n"
  shows "(\<forall>i. tail bc \<le> i \<longrightarrow> i \<le> n \<longrightarrow>
      (\<exists>c b. ancestor (view (bcDb bc)) (unat n - unat i) hh = Some c \<and> GetBlockByNumber api bc i = Inr b \<and>
         GetBlockByHash api bc c = Inr b \<and> bHash b = c \<and> NumberU64 b = i)) \<and>
    (\<forall>i. n < i \<longrightarrow> GetBlockByNumber api bc i \<in> {Inl BNotFound, Inl (BNotCanonical i)}) \<and>
    (\<exists>b. GetHead api bc = Inr b \<and> bHash b = hh \<and> NumberU64 b = n)"
proof (intro conjI allI impI)
  note C = chain_okD [OF assms(2)]
  let ?f = "view (bcDb bc)"
  { fix i assume i: "tail bc \<le> i" "i \<le> n"
    from linkedE [OF C(3) i] obtain c b where b: "canon ?f i = Some c" "has_block ?f c b" "NumberU64 b = i" by blast
    obtain xs where xs: "?f (ForkK i) = Some (VForks (c # xs))" using b(1) by (auto simp: canon_Some)
    have c0: "c \<noteq> 0" using b(2) blocks_okD(4) [OF C(1)] by auto
    have "GetBlockByNumber api bc i = GetBlockByHash api bc c"
      by (simp add: GetBlockByNumber_def reliable_forks [OF assms(1) xs] c0)
    moreover have "ancestor ?f (unat n - unat i) hh = Some c"
      using linked_ancestor [OF C(3) i(1) C(5) i(2) order_refl] b(1) by simp
    ultimately show "\<exists>c b. ancestor ?f (unat n - unat i) hh = Some c \<and> GetBlockByNumber api bc i = Inr b \<and>
         GetBlockByHash api bc c = Inr b \<and> bHash b = c \<and> NumberU64 b = i"
      using reliable_block [OF assms(1) b(2)] b(3) blocks_okD(2) [OF C(1) b(2)] by auto }
  { fix i assume i: "n < i"
    show "GetBlockByNumber api bc i \<in> {Inl BNotFound, Inl (BNotCanonical i)}"
    proof (cases "?f (ForkK i)")
      case None
      then show ?thesis by (simp add: GetBlockByNumber_def getForks_def bc_reliableD(2) [OF assms(1)])
    next
      case (Some v)
      then obtain x xs where x: "v = VForks (x # xs)" using C(2) unfolding forks_ok_def by blast
      then have "x = 0" using C(7) [OF i] Some by (auto simp: canon_def)
      then show ?thesis using reliable_forks [OF assms(1)] Some x by (simp add: GetBlockByNumber_def)
    qed }
  obtain b where b: "has_block ?f hh b" "NumberU64 b = n" by (rule head_block [OF assms(2)])
  have "GetHead api bc = Inr b"
    by (simp add: GetHead_def bc_reliableD(2) [OF assms(1)] C(4) asHash_def reliable_block [OF assms(1) b(1)])
  then show "\<exists>b. GetHead api bc = Inr b \<and> bHash b = hh \<and> NumberU64 b = n"
    using b blocks_okD(2) [OF C(1) b(1)] by blast
qed

subsection \<open>SetHead succeeds\<close>

lemma ancestor_stored:
  assumes "ancestor f k h = Some c" "has_block f c b'"
  shows "\<exists>b. has_block f h b"
  using assms by (cases k) (auto simp: has_block_def split: option.splits bval.splits)

lemma reorg_succeeds:
  assumes rel: "bc_reliable api view" and f: "f = view (bcDb bc)" and ok: "chain_ok f (tail bc) hh n"
  shows "has_block f pbh pb \<Longrightarrow> NumberU64 pb = ph \<Longrightarrow> tail bc \<le> ph \<Longrightarrow> f (ForkK ph) = Some (VForks pf) \<Longrightarrow>
    ancestor f (unat ph - unat (tail bc)) pbh = canon f (tail bc) \<Longrightarrow> unat ph - unat (tail bc) \<le> fuel \<Longrightarrow>
    \<exists>b'. reorg api bc fuel pbh pb ph pf b = Inr b'"
proof (induction fuel arbitrary: pbh pb ph pf b)
  case 0
  then have ph: "ph = tail bc" by (simp add: word_le_nat_alt word_unat_eq_iff)
  then have "canon f ph = Some pbh" using 0 by simp
  then obtain xs where "pf = pbh # xs" using 0(4) by (auto simp: canon_Some)
  then show ?case by (simp add: reorg.simps [of api bc 0])
next
  case (Suc fuel)
  note C = chain_okD [OF ok]
  from Suc.prems(4) obtain x xs where pf: "pf = x # xs" using C(2) unfolding forks_ok_def by blast
  show ?case
  proof (cases "x = pbh")
    case True
    then show ?thesis by (simp add: pf reorg.simps [of api bc "Suc fuel"])
  next
    case False
    have "canon f ph = Some x" using Suc.prems(4) pf by (simp add: canon_Some)
    then have "ph \<noteq> tail bc" using Suc.prems(5) False by auto
    then have lt: "tail bc < ph" using Suc.prems(3) by simp
    note w = word_pred [OF lt]
    have pos: "unat (tail bc) < unat ph" using lt by (simp add: word_less_nat_alt)
    have k: "unat ph - unat (tail bc) = Suc (unat (ph - 1) - unat (tail bc))" using w(2) pos by simp
    have an: "ancestor f (unat (ph - 1) - unat (tail bc)) (ParentHash pb) = canon f (tail bc)"
      using Suc.prems(5) unfolding k by (simp only: ancestor_step [OF Suc.prems(1)])
    from linkedE [OF C(3) order_refl C(6)] obtain c cb where c: "canon f (tail bc) = Some c" "has_block f c cb" by blast
    from ancestor_stored [OF an [unfolded c(1)] c(2)] obtain gb where gb: "has_block f (ParentHash pb) gb" by blast
    have ng: "NumberU64 gb = ph - 1" using blocks_okD(5) [OF C(1) Suc.prems(1) gb] Suc.prems(2) by simp
    obtain gf where gf: "f (ForkK (ph - 1)) = Some (VForks gf)" using listed [OF C(2) gb ng] by blast
    have fu: "unat (ph - 1) - unat (tail bc) \<le> fuel" using Suc.prems(6) k by simp
    from Suc.IH [OF gb ng w(1) gf an fu] show ?thesis
      using reliable_block [OF rel, of bc "ParentHash pb" gb] gb reliable_forks [OF rel, of bc "ph - 1" gf] gf w(1) False
      by (simp add: pf reorg.simps [of api bc "Suc fuel"] bc_reliableD(4) [OF rel] f)
  qed
qed

lemma clear_succeeds:
  assumes "bc_reliable api view" "\<forall>i\<in>set is. canon (view (bcDb bc)) i \<noteq> None"
  shows "\<exists>b'. rfold (\<lambda>i. put_canonical api bc i h) is b = Inr b'"
  using assms(2)
proof (induction "is" arbitrary: b)
  case Nil
  then show ?case by simp
next
  case (Cons i "is")
  then obtain c where "canon (view (bcDb bc)) i = Some c" by auto
  then obtain xs where "view (bcDb bc) (ForkK i) = Some (VForks (c # xs))" by (auto simp: canon_Some)
  from reliable_forks [OF assms(1) this] Cons show ?case
    by (simp add: put_canonical_def set_canonical_def bc_reliableD(4) [OF assms(1)])
qed

text \<open>(C27)
  SetHead succeeds for every stored block above the tail whose chain of parents reaches the
  canonical block of the tail, whatever the current head; as many rounds as there are heights
  between the block and the tail are enough for its loop, so the loop ends.
\<close>

theorem set_head_succeeds:
  assumes "bc_reliable api view" and "chain_ok (view (bcDb bc)) (tail bc) hh n"
    and "has_block (view (bcDb bc)) h b" and "tail bc < NumberU64 b"
    and "ancestor (view (bcDb bc)) (unat (NumberU64 b) - unat (tail bc)) h = canon (view (bcDb bc)) (tail bc)"
    and "unat (NumberU64 b) - unat (tail bc) \<le> fuel"
  shows "\<exists>bc'. SetHead api fuel h bc = Inr bc'"
proof -
  let ?f = "view (bcDb bc)" and ?n = "NumberU64 b"
  note rel = assms(1) and C = chain_okD [OF assms(2)] and w = word_pred [OF assms(4)]
  have k: "unat ?n - unat (tail bc) = Suc (unat (?n - 1) - unat (tail bc))"
    using w(2) assms(4) by (simp add: word_less_nat_alt)
  have an: "ancestor ?f (unat (?n - 1) - unat (tail bc)) (ParentHash b) = canon ?f (tail bc)"
    using assms(5) unfolding k by (simp only: ancestor_step [OF assms(3)])
  from linkedE [OF C(3) order_refl C(6)] obtain c cb where c: "canon ?f (tail bc) = Some c" "has_block ?f c cb" by blast
  from ancestor_stored [OF an [unfolded c(1)] c(2)] obtain pb where pb: "has_block ?f (ParentHash b) pb" by blast
  have np: "NumberU64 pb = ?n - 1" using blocks_okD(5) [OF C(1) assms(3) pb] by simp
  obtain pf where pf: "?f (ForkK (?n - 1)) = Some (VForks pf)" using listed [OF C(2) pb np] by blast
  obtain x xs where fs: "?f (ForkK ?n) = Some (VForks (x # xs))" using listed [OF C(2) assms(3) refl] by blast
  obtain cur where cur: "has_block ?f hh cur" "NumberU64 cur = n" by (rule head_block [OF assms(2)])
  have gh: "GetHead api bc = Inr cur"
    by (simp add: GetHead_def bc_reliableD(2) [OF rel] C(4) asHash_def reliable_block [OF rel cur(1)])
  have "\<forall>i\<in>set (heights_above ?n n). canon ?f i \<noteq> None"
  proof
    fix i assume "i \<in> set (heights_above ?n n)"
    then have i: "?n < i" "i \<le> n" by (auto simp: heights_above_set)
    then have "tail bc \<le> i" using assms(4) by simp
    from linkedE [OF C(3) this i(2)] show "canon ?f i \<noteq> None" by (metis option.simps(3))
  qed
  from clear_succeeds [OF rel this, of 0 "[]"] obtain b1 where b1:
    "(if n > ?n then rfold (\<lambda>i. put_canonical api bc i 0) (heights_above ?n n) [] else Inr []) = Inr b1"
    by (cases "?n < n") auto
  obtain b3 where b3: "reorg api bc fuel (ParentHash b) pb (?n - 1) pf (b1 @ [BcPut (ForkK ?n) (VForks (bHash b # xs))]) = Inr b3"
    using reorg_succeeds [OF rel refl assms(2) pb np w(1) pf an] assms(6) k by (metis Suc_leD)
  have "setHeadOps api fuel h bc = Inr (b3 @ [BcPut HeadK (VHead h)])"
    unfolding setHeadOps_def reliable_block [OF rel assms(3)] bc_reliableD(3) [OF rel] gh rbind_simps cur(2) b1
      put_canonical_def reliable_forks [OF rel fs] set_canonical_def list.case bc_reliableD(4) [OF rel]
      reliable_block [OF rel pb] reliable_forks [OF rel pf] b3
    using w(1) by simp
  moreover obtain bc1 where "bcEnd api bc (b3 @ [BcPut HeadK (VHead h)]) = Inr bc1" using bc_reliableD(5) [OF rel] by blast
  ultimately show ?thesis by (simp add: SetHead_def reliable_block [OF rel assms(3)])
qed

end
