(* ===== verification/ChainDemo.thy ===== *)
theory ChainDemo
  imports ChainReads
begin

section \<open>A new chain; examples\<close>

text \<open>
  A chain on an empty datastore starts consistent. The store in memory is an instance of the
  datastore's laws; on it a small tree of blocks shows a reorganisation with pruning, and what
  the index of transactions loses when blocks share a transaction.
\<close>

text \<open>A block store created on an empty datastore is consistent, with the genesis block as head
  and tail and the only canonical block.
\<close>

theorem new_blockchain_ok:
  assumes "bc_law api view" and "\<forall>k. view db k = None" and "bHash genesis \<noteq> 0" and "NumberU64 genesis = 0"
    and "ParentHash genesis \<noteq> bHash genesis" and "NewBlockchain api maxBlock frequency genesis db = Inr bc"
  shows "chain_ok (view (bcDb bc)) (tail bc) (bHash genesis) 0 \<and> tail bc = 0 \<and>
    MaxBlockToRetain bc = maxBlock \<and> PruningFrequency bc = frequency \<and>
    (\<forall>h b. has_block (view (bcDb bc)) h b = (h = bHash genesis \<and> b = genesis))"
proof -
  let ?bc = "\<lparr> bcDb = db, tail = 0, MaxBlockToRetain = maxBlock, PruningFrequency = frequency \<rparr>"
  have t: "bcGet api db TailK = Inl BNotFound"
  proof (cases "bcGet api db TailK")
    case (Inl e)
    then show ?thesis using assms(6) by (cases e) (simp_all add: NewBlockchain_def)
  next
    case (Inr v)
    then show ?thesis using bc_lawD(1) [OF assms(1) Inr] assms(2) by simp
  qed
  from assms(6) obtain b1 b2 b3 b4 b5 where s: "bcBegin api ?bc = Inr b1" "bcPut api ?bc TailK (VTail 0) b1 = Inr b2"
    "bcPut api ?bc HeadK (VHead (bHash genesis)) b2 = Inr b3"
    "bcPut api ?bc (ForkK 0) (VForks [bHash genesis, bHash genesis]) b3 = Inr b4"
    "bcPut api ?bc (BlockK (bHash genesis)) (VBlock genesis) b4 = Inr b5" "bcEnd api ?bc b5 = Inr bc"
    unfolding NewBlockchain_def t Let_def by (auto elim!: rbind_InrE)
  note e = bcEnd_Inr [OF assms(1) s(6)]
  have v: "view (bcDb bc) k = (if k = BlockK (bHash genesis) then Some (VBlock genesis)
      else if k = ForkK 0 then Some (VForks [bHash genesis, bHash genesis])
      else if k = HeadK then Some (VHead (bHash genesis)) else if k = TailK then Some (VTail 0) else None)" for k
    using bcBegin_Inr [OF s(1)] bcPut_Inr [OF s(2)] bcPut_Inr [OF s(3)] bcPut_Inr [OF s(4)] bcPut_Inr [OF s(5)] e(1) assms(2)
    by simp
  have hb: "has_block (view (bcDb bc)) h b = (h = bHash genesis \<and> b = genesis)" for h b
    by (auto simp: has_block_def v)
  have cn: "canon (view (bcDb bc)) i = (if i = 0 then Some (bHash genesis) else None)" for i
    by (simp add: canon_def v)
  have "chain_ok (view (bcDb bc)) 0 (bHash genesis) 0"
    unfolding chain_ok_def blocks_ok_def forks_ok_def linked_def hb cn
    using assms(3-5) by (auto simp: v)
  then show ?thesis using e hb by simp
qed

subsection \<open>A datastore in memory\<close>

definition mem_bc :: "(bkey, bval) gmap bc_api" where
  "mem_bc =
     \<lparr> bcGet = (\<lambda>db k. case map_of db k of Some v \<Rightarrow> Inr v | None \<Rightarrow> Inl BNotFound),
       bcHas = (\<lambda>db k. Inr (mhas db k)), bcTxn = (\<lambda>db. None), bcQueue = (\<lambda>db k. None),
       bcCommit = (\<lambda>db b. Inr (fold (\<lambda>x m. case x of BcPut k v \<Rightarrow> mput k v m | BcDelete k \<Rightarrow> mdel k m) b db)) \<rparr>"

lemma mem_bc_commit:
  "map_of (fold (\<lambda>x m. case x of BcPut k v \<Rightarrow> mput k v m | BcDelete k \<Rightarrow> mdel k m) b db) = fold apply_bop b (map_of db)"
  by (induction b arbitrary: db) (auto simp: map_fun split: bop.split)

lemma mem_bc_reliable: "bc_reliable mem_bc map_of"
  by (auto simp: bc_reliable_def bc_law_def mem_bc_def mem_bc_commit split: option.splits)

lemmas mem_bc_law = bc_reliableD(1) [OF mem_bc_reliable]

definition demo_tx :: transaction where
  "demo_tx = \<lparr> txHash = 7, txType = 0, txNonce = 0, txBlobHashes = [], txData = [1] \<rparr>"

definition demo_receipt :: receipt where
  "demo_receipt = \<lparr> rTxHash = 7, rType = 0, rPostState = None, rStatus = True, rCumulativeGasUsed = 21000,
     rGasUsed = 21000, rBlobGasUsed = 0, rContractAddress = None, rLogs = [], rBloom = [], rBlockHash = 203,
     rBlockNumber = 3, rTransactionIndex = 0 \<rparr>"

definition demo_block :: "hash \<Rightarrow> hash \<Rightarrow> u64 \<Rightarrow> transaction list \<Rightarrow> block" where
  "demo_block h p n ts = \<lparr> bHash = h, bHeader = \<lparr> hParentHash = p, hNumber = n, hRoot = h + 1000, hGasUsed = 0,
     hGasLimit = 0, hBloom = [], hReceiptHash = 0, hTime = 0 \<rparr>, bTransactions = ts, bWithdrawals = [], bBeaconRoot = None \<rparr>"

text \<open>Two blocks on the genesis block 100, the first canonical, and one on the second.\<close>

definition demo_chain :: "(bkey, bval) gmap blockchain" where
  "demo_chain = \<lparr> bcDb =
     [(TailK, VTail 0), (HeadK, VHead 101), (ForkK 0, VForks [100, 100]), (ForkK 1, VForks [101, 101, 201]),
      (ForkK 2, VForks [0, 202]), (BlockK 100, VBlock (demo_block 100 0 0 [])),
      (BlockK 101, VBlock (demo_block 101 100 1 [])), (BlockK 201, VBlock (demo_block 201 100 1 [])),
      (BlockK 202, VBlock (demo_block 202 201 2 []))],
     tail = 0, MaxBlockToRetain = 1, PruningFrequency = 1 \<rparr>"

lemma demo_has: "has_block (map_of (bcDb demo_chain)) h b =
    (h = 100 \<and> b = demo_block 100 0 0 [] \<or> h = 101 \<and> b = demo_block 101 100 1 [] \<or>
     h = 201 \<and> b = demo_block 201 100 1 [] \<or> h = 202 \<and> b = demo_block 202 201 2 [])"
  by (auto simp: has_block_def demo_chain_def)

lemma demo_canon: "canon (map_of (bcDb demo_chain)) i =
    (if i = 0 then Some 100 else if i = 1 then Some 101 else if i = 2 then Some 0 else None)"
  by (simp add: canon_def demo_chain_def)

lemma u64_le_1: "(i :: u64) \<le> 1 \<longleftrightarrow> i = 0 \<or> i = 1"
proof
  assume "i \<le> 1"
  then have "unat i \<le> 1" by (simp add: word_le_nat_alt)
  then have "unat i = 0 \<or> unat i = 1" by linarith
  then show "i = 0 \<or> i = 1" by (simp add: word_unat_eq_iff)
qed auto

lemma demo_chain_ok: "chain_ok (map_of (bcDb demo_chain)) (tail demo_chain) 101 1"
proof -
  have "blocks_ok (map_of (bcDb demo_chain))"
    unfolding blocks_ok_def demo_has by (auto simp: demo_chain_def demo_block_def)
  moreover have "forks_ok (map_of (bcDb demo_chain))"
    unfolding forks_ok_def demo_has by (auto simp: demo_chain_def demo_block_def)
  moreover have "linked (map_of (bcDb demo_chain)) (map_of (bcDb demo_chain)) 0 1"
    unfolding linked_def demo_has demo_canon u64_le_1 by (auto simp: demo_block_def)
  ultimately show ?thesis
    unfolding chain_ok_def demo_canon by (simp add: demo_chain_def)
qed

lemma demo_set_head: "\<not> isl (SetHead mem_bc 2 202 demo_chain)"
  by code_simp

lemma demo_set_head_tail: "tail (projr (SetHead mem_bc 2 202 demo_chain)) = 1"
  by code_simp

theorem set_head_keeps_chain_witness:
  "chain_ok (map_of (bcDb (projr (SetHead mem_bc 2 202 demo_chain)))) 1 202 2"
proof -
  have r: "SetHead mem_bc 2 202 demo_chain = Inr (projr (SetHead mem_bc 2 202 demo_chain))"
    using demo_set_head by (cases "SetHead mem_bc 2 202 demo_chain") simp_all
  have p: "PruningFrequency demo_chain \<le> MaxBlockToRetain demo_chain" by (simp add: demo_chain_def)
  from set_head_keeps_chain [OF mem_bc_law bc_reliableD(6) [OF mem_bc_reliable] demo_chain_ok p r]
  show ?thesis by (auto simp: demo_has demo_set_head_tail demo_block_def)
qed

theorem set_head_succeeds_witness: "\<exists>bc'. SetHead mem_bc 2 202 demo_chain = Inr bc'"
proof (rule set_head_succeeds [OF mem_bc_reliable demo_chain_ok])
  show "has_block (map_of (bcDb demo_chain)) 202 (demo_block 202 201 2 [])" by (simp add: demo_has)
  show "tail demo_chain < NumberU64 (demo_block 202 201 2 [])" by (simp add: demo_chain_def demo_block_def)
  have 2: "unat (NumberU64 (demo_block 202 201 2 [])) - unat (tail demo_chain) = Suc (Suc 0)"
    by (simp add: demo_chain_def demo_block_def)
  show "ancestor (map_of (bcDb demo_chain)) (unat (NumberU64 (demo_block 202 201 2 [])) - unat (tail demo_chain)) 202 =
      canon (map_of (bcDb demo_chain)) (tail demo_chain)"
    unfolding 2 demo_canon by (simp add: demo_chain_def demo_block_def)
  show "unat (NumberU64 (demo_block 202 201 2 [])) - unat (tail demo_chain) \<le> 2" unfolding 2 by simp
qed

theorem get_by_number_is_ancestor_witness:
  "\<exists>b. GetBlockByNumber mem_bc demo_chain 0 = Inr b \<and> bHash b = 100"
proof -
  have t: "tail demo_chain \<le> 0" "(0 :: u64) \<le> 1" by (simp_all add: demo_chain_def)
  from conjunct1 [OF get_by_number_is_ancestor [OF mem_bc_reliable demo_chain_ok], rule_format, OF t]
  obtain c b where cb: "ancestor (map_of (bcDb demo_chain)) (unat (1 :: u64) - unat (0 :: u64)) 101 = Some c"
    "GetBlockByNumber mem_bc demo_chain 0 = Inr b" "bHash b = c" by blast
  have "c = 100" using cb(1) by (simp add: demo_chain_def demo_block_def)
  with cb(2,3) show ?thesis by blast
qed

lemma demo_add: "\<not> isl (AddBlock mem_bc (demo_block 203 202 3 [demo_tx]) [demo_receipt] demo_chain)"
  by code_simp

theorem add_block_keeps_chain_witness:
  "\<exists>bc'. AddBlock mem_bc (demo_block 203 202 3 [demo_tx]) [demo_receipt] demo_chain = Inr bc' \<and>
     chain_ok (map_of (bcDb bc')) 0 101 1 \<and> map_of (bcDb bc') (TxK 7) = Some (VTx demo_tx 203 0)"
proof -
  obtain bc' where r: "AddBlock mem_bc (demo_block 203 202 3 [demo_tx]) [demo_receipt] demo_chain = Inr bc'"
    using demo_add by (cases "AddBlock mem_bc (demo_block 203 202 3 [demo_tx]) [demo_receipt] demo_chain") simp_all
  have n: "numbered (map_of (bcDb demo_chain)) (demo_block 203 202 3 [demo_tx])"
    unfolding numbered_def demo_has by (auto simp: demo_block_def)
  have m: "map_of (bcDb demo_chain) (BlockK (bHash (demo_block 203 202 3 [demo_tx]))) = None" "tail demo_chain = 0"
    by (simp_all add: demo_chain_def demo_block_def)
  have d: "distinct (map txHash (bTransactions (demo_block 203 202 3 [demo_tx])))"
    "0 < length (bTransactions (demo_block 203 202 3 [demo_tx]))"
    "tail demo_chain \<le> NumberU64 (demo_block 203 202 3 [demo_tx])" by (simp_all add: demo_block_def demo_chain_def)
  note ab = add_block_keeps_chain [OF mem_bc_law demo_chain_ok n r]
  have "map_of (bcDb bc') (TxK (txHash (bTransactions (demo_block 203 202 3 [demo_tx]) ! 0))) =
      Some (VTx (bTransactions (demo_block 203 202 3 [demo_tx]) ! 0) (bHash (demo_block 203 202 3 [demo_tx])) (of_nat 0))"
    using ab d m(1) by blast
  then have "map_of (bcDb bc') (TxK 7) = Some (VTx demo_tx 203 0)" by (simp add: demo_block_def demo_tx_def)
  moreover have "chain_ok (map_of (bcDb bc')) 0 101 1"
    using conjunct1 [OF ab] conjunct1 [OF conjunct2 [OF ab]] m(2) by simp
  ultimately show ?thesis using r by blast
qed

theorem new_blockchain_ok_witness:
  "\<exists>bc. NewBlockchain mem_bc 5 2 (demo_block 100 0 0 []) [] = Inr bc \<and> chain_ok (map_of (bcDb bc)) 0 100 0"
proof -
  have "\<not> isl (NewBlockchain mem_bc 5 2 (demo_block 100 0 0 []) [])" by code_simp
  then obtain bc where r: "NewBlockchain mem_bc 5 2 (demo_block 100 0 0 []) [] = Inr bc"
    by (cases "NewBlockchain mem_bc 5 2 (demo_block 100 0 0 []) []") simp_all
  have g: "\<forall>k. map_of ([] :: (bkey, bval) gmap) k = None" "bHash (demo_block 100 0 0 []) \<noteq> 0"
    "NumberU64 (demo_block 100 0 0 []) = 0" "ParentHash (demo_block 100 0 0 []) \<noteq> bHash (demo_block 100 0 0 [])"
    "bHash (demo_block 100 0 0 []) = 100" by (simp_all add: demo_block_def)
  note nb = new_blockchain_ok [OF mem_bc_law g(1-4) r]
  show ?thesis using r conjunct1 [OF nb] conjunct1 [OF conjunct2 [OF nb]] by (auto simp: g(5))
qed

subsection \<open>The index of transactions\<close>

text \<open>
  A transaction in a side block at height 1 and in the canonical block at height 2. Pruning
  height 1 deletes the transaction and its receipt, although its canonical block stays.
\<close>

definition shared_chain :: "(bkey, bval) gmap blockchain" where
  "shared_chain = \<lparr> bcDb =
     [(TailK, VTail 1), (HeadK, VHead 102), (ForkK 1, VForks [101, 101, 201]), (ForkK 2, VForks [102, 102]),
      (BlockK 101, VBlock (demo_block 101 100 1 [])), (BlockK 201, VBlock (demo_block 201 100 1 [demo_tx])),
      (BlockK 102, VBlock (demo_block 102 101 2 [demo_tx])), (TxK 7, VTx demo_tx 102 0),
      (BlockK 103, VBlock (demo_block 103 102 3 []))],
     tail = 1, MaxBlockToRetain = 1, PruningFrequency = 1 \<rparr>"

lemma pruned_side_tx:
  "GetTransaction mem_bc shared_chain 7 = Inr (Some (demo_tx, 102, 0))"
  "GetTransaction mem_bc (tryPrune mem_bc 3 shared_chain) 7 = Inr None"
  "\<not> isl (GetBlockByHash mem_bc (tryPrune mem_bc 3 shared_chain) 102)"
  by code_simp+

text \<open>
  A height without a canonical block is never cleared: the empty hash in front of its list is
  no block, so the round ends there, and the tail moves on.
\<close>

definition gap_chain :: "(bkey, bval) gmap blockchain" where
  "gap_chain = \<lparr> bcDb = [(ForkK 1, VForks [0, 201]), (BlockK 201, VBlock (demo_block 201 100 1 []))],
     tail = 1, MaxBlockToRetain = 1, PruningFrequency = 1 \<rparr>"

lemma unpruned_gap:
  "tail (tryPrune mem_bc 3 gap_chain) = 2" "\<not> isl (GetBlockByHash mem_bc (tryPrune mem_bc 3 gap_chain) 201)"
  by code_simp+

text \<open>
  A frequency above the number of blocks kept (the default 257 with 128 blocks kept): setting
  the head 129 blocks above the tail prunes up to 257 above it, the head as well.
\<close>

definition short_chain :: "(bkey, bval) gmap blockchain" where
  "short_chain = \<lparr> bcDb =
     [(TailK, VTail 100), (HeadK, VHead 101), (ForkK 228, VForks [101, 101]), (ForkK 229, VForks [0, 102]),
      (BlockK 101, VBlock (demo_block 101 100 228 [])), (BlockK 102, VBlock (demo_block 102 101 229 []))],
     tail = 100, MaxBlockToRetain = 128, PruningFrequency = 257 \<rparr>"

lemma pruned_head:
  "map_sum id (\<lambda>b. bHash b) (GetHead mem_bc short_chain) = Inr 101"
  "map_sum id (\<lambda>bc. (tail bc, GetHead mem_bc bc)) (SetHead mem_bc 2 102 short_chain) = Inr (357, Inl BNotFound)"
  by code_simp+

end
