(* ===== verification/CommitState.thy ===== *)
theory CommitState
  imports WorldInv
begin

section \<open>The committed state is available\<close>

text \<open>
  Pruning walks along the path of the layer that was committed, so it never loses that layer:
  after a commit the archive has the new state, as a layer or as the persisted state.
\<close>

lemma prune_layer_at:
  assumes "pruneOne env r w = (Inr u, w')" and "layer_at w (r # q) = Some x"
  shows "layer_at w' q = Some x"
proof -
  from assms(1) obtain c where c: "find (\<lambda>l. lRoot l = r) (wKids w) = Some c" "wKids w' = lKids c"
    "wRoot w' = lRoot c" "wHeight w' = lHeight c" by (rule pruneOneE)
  from assms(2) c(1) obtain rt where rt: "route_of (lKids c) q = Some rt"
    by (auto simp: layer_at_def split: option.splits)
  then have "route_of (wKids w) (r # q) = Some (rt @ [c])" using c(1) by simp
  then show ?thesis using assms(2) rt c(2-4) by (cases rt) (simp_all add: layer_at_def)
qed

lemma prunes_layer_at:
  "prunes_ok env rs w \<Longrightarrow> pruneAll env rs w = Inr w' \<Longrightarrow> layer_at w (rs @ q) = Some x \<Longrightarrow> layer_at w' q = Some x"
proof (induction rs arbitrary: w)
  case Nil
  then show ?case by simp
next
  case (Cons r rs)
  obtain res w1 where p1: "pruneOne env r w = (res, w1)" by (rule prod.exhaust)
  with Cons.prems(1) obtain u where p: "pruneOne env r w = (Inr u, w1)" by (cases res) auto
  have "layer_at w1 (rs @ q) = Some x" using prune_layer_at [OF p] Cons.prems(3) by simp
  then show ?case using Cons.IH [of w1] Cons.prems(1,2) p by simp
qed

lemma layer_at_Has:
  assumes "world_ok view w" "layer_at w p = Some (h, r, ks)"
  shows "Has h r (wStates w)"
proof -
  from assms(2) obtain rt where rt: "route_of (wKids w) p = Some rt" by (auto simp: layer_at_def split: option.splits)
  show ?thesis
  proof (cases rt)
    case Nil
    then show ?thesis using assms(2) rt world_okD(3) [OF assms(1)] by (simp add: layer_at_def)
  next
    case (Cons x up)
    then have "(h, r) \<in> set (kids_keys (wKids w))" using assms(2) rt keys_at [OF rt [unfolded Cons]] by (auto simp: layer_at_def)
    then show ?thesis using world_okD(3) [OF assms(1)] by simp
  qed
qed

text \<open>The new layer is at its path.\<close>

definition kids_at :: "layer list \<Rightarrow> route \<Rightarrow> layer list" where
  "kids_at kids rt = (case rt of [] \<Rightarrow> kids | x # up \<Rightarrow> lKids x)"

lemma find_append_new:
  "\<forall>k\<in>set kids. lRoot k \<noteq> lRoot new \<Longrightarrow> find (\<lambda>l. lRoot l = lRoot new) (kids @ [new]) = Some new"
  by (induction kids) auto

lemma find_split_eq:
  "\<forall>y\<in>set ys. lRoot y \<noteq> r \<Longrightarrow> lRoot l = r \<Longrightarrow> find (\<lambda>l. lRoot l = r) (ys @ l # zs) = Some l"
  by (induction ys) auto

lemma new_route:
  "route_of kids p = Some rt \<Longrightarrow> \<forall>k\<in>set (kids_at kids rt). lRoot k \<noteq> lRoot new \<Longrightarrow>
   \<exists>rt'. route_of (upd_kids (\<lambda>ks. ks @ [new]) p kids) (p @ [lRoot new]) = Some (new # rt')"
proof (induction p arbitrary: kids rt)
  case Nil
  then show ?case using find_append_new by (simp add: kids_at_def)
next
  case (Cons r p)
  from Cons.prems(1) obtain ys l zs up where s: "kids = ys @ l # zs" "lRoot l = r" "\<forall>y\<in>set ys. lRoot y \<noteq> r"
    "route_of (lKids l) p = Some up" "rt = up @ [l]" by (rule route_of_split)
  have "kids_at kids rt = kids_at (lKids l) up" by (cases up) (simp_all add: kids_at_def s(5))
  with Cons.IH [OF s(4)] Cons.prems(2) obtain rt' where
    rt': "route_of (upd_kids (\<lambda>ks. ks @ [new]) p (lKids l)) (p @ [lRoot new]) = Some (new # rt')" by auto
  have "find (\<lambda>x. lRoot x = r) (upd_kids (\<lambda>ks. ks @ [new]) (r # p) kids) =
      Some (with_kids l (upd_kids (\<lambda>ks. ks @ [new]) p (lKids l)))"
    unfolding s(1) upd_kids_split [OF s(2,3)] by (rule find_split_eq [OF s(3)]) (simp add: s(2))
  with rt' show ?case by simp
qed

lemma attached_at:
  assumes ok: "world_ok view w" and rt: "route_of (wKids w) p = Some rt"
    and h: "BlockNumber l = route_height w rt + 1"
    and new: "(BlockNumber l, RootHash l) \<notin> set ((wHeight w, wRoot w) # kids_keys (wKids w))"
    and att: "attached view w p rt l w1"
  shows "layer_at w1 (p @ [RootHash l]) = Some (BlockNumber l, RootHash l, [])"
proof -
  have "lRoot k \<noteq> RootHash l" if k: "k \<in> set (kids_at (wKids w) rt)" for k
  proof
    assume r: "lRoot k = RootHash l"
    have "lHeight k = BlockNumber l \<and> (lHeight k, lRoot k) \<in> set (kids_keys (wKids w))"
    proof (cases rt)
      case Nil
      then have kk: "k \<in> set (wKids w)" using k by (simp add: kids_at_def)
      then have "lHeight k = BlockNumber l" using heights_key [OF world_okD(2) [OF ok kk]] h Nil by (simp add: route_height_def)
      moreover have "(lHeight k, lRoot k) \<in> set (layer_keys k)" by (simp add: layer_keys_alt)
      ultimately show ?thesis using kids_keys_mem [OF kk] by blast
    next
      case (Cons x up)
      then have kk: "k \<in> set (lKids x)" using k by (simp add: kids_at_def)
      have hx: "heights_ok (lHeight x) x" using heights_route [OF _ rt [unfolded Cons]] world_okD(2) [OF ok] by blast
      have "lHeight k = BlockNumber l" using heights_key [OF heights_kids [OF hx kk]] h Cons by (simp add: route_height_def)
      moreover have "(lHeight k, lRoot k) \<in> set (kids_keys (lKids x))"
        using kids_keys_mem [OF kk] by (auto simp: layer_keys_alt [of k])
      ultimately show ?thesis using keys_below [OF rt [unfolded Cons]] by (auto simp: layer_keys_alt [of x])
    qed
    then have "(BlockNumber l, RootHash l) \<in> set (kids_keys (wKids w))" using r by metis
    then show False using new by simp
  qed
  then obtain rt' where "route_of (wKids w1) (p @ [RootHash l]) = Some (Layer l [] [] [] [] # rt')"
    using new_route [OF rt, of "Layer l [] [] [] []"] att by (auto simp: attached_def)
  then show ?thesis by (simp add: layer_at_def)
qed

lemma prunes_logs:
  "prunes_ok env rs w \<Longrightarrow> pruneAll env rs w = Inr w' \<Longrightarrow> \<forall>k\<in>set (wKids w). logs_distinct k \<Longrightarrow>
   \<forall>k\<in>set (wKids w'). logs_distinct k"
proof (induction rs arbitrary: w)
  case Nil
  then show ?case by simp
next
  case (Cons r rs)
  obtain res w1 where p1: "pruneOne env r w = (res, w1)" by (rule prod.exhaust)
  with Cons.prems(1) obtain u where p: "pruneOne env r w = (Inr u, w1)" by (cases res) auto
  from p obtain c where c: "find (\<lambda>l. lRoot l = r) (wKids w) = Some c" "wKids w1 = lKids c" by (rule pruneOneE)
  have "logs_distinct c" using find_in [OF c(1)] Cons.prems(3) by blast
  then have "\<forall>k\<in>set (wKids w1). logs_distinct k" using logs_distinct_alt [of c] c(2) by simp
  then show ?case using Cons.IH [of w1] Cons.prems(1,2) p by simp
qed

text \<open>What a commit needs: the layer fits its parent, and the prunes it triggers succeed.\<close>

definition commit_fits ::
  "'db lenv \<Rightarrow> 'db world \<Rightarrow> path \<Rightarrow> temp_committed \<Rightarrow> u64 \<Rightarrow> hash \<Rightarrow> bool"
where
  "commit_fits env w p tc block rootHash =
     (log_distinct (commit_log (leHash env) tc block rootHash) \<and>
      (\<forall>db rs. txnCommit (leApi env) (wDb w) (commit_ops (commit_log (leHash env) tc block rootHash)) = Inr db \<longrightarrow>
         getToBePruned w (p @ [rootHash]) = Inr rs \<longrightarrow>
         prunes_ok env rs (attach_new env (commit_log (leHash env) tc block rootHash) p w db)))"

definition commit_ready ::
  "'db lenv \<Rightarrow> 'db world \<Rightarrow> path \<Rightarrow> temp_committed \<Rightarrow> u64 \<Rightarrow> hash \<Rightarrow> bool"
where
  "commit_ready env w p tc block rootHash =
     ((\<exists>rt. route_of (wKids w) p = Some rt \<and> block = route_height w rt + 1) \<and> commit_fits env w p tc block rootHash)"

lemma commit_makes_available:
  assumes "ds_reliable (leApi env) view" and "world_ok view w" and "\<forall>k\<in>set (wKids w). logs_distinct k"
    and "commit_ready env w p tc block rootHash"
    and "wCommit env (Suc n) tc p block rootHash w = (r, w')"
  shows "world_ok view w' \<and> (\<forall>k\<in>set (wKids w'). logs_distinct k) \<and>
    ((\<exists>h. r = Inr h) \<or> r = Inl ErrAlready \<longrightarrow> Has block rootHash (wStates w'))"
proof -
  from assms(4) obtain rt where rt: "route_of (wKids w) p = Some rt" "block = route_height w rt + 1"
    "log_distinct (commit_log (leHash env) tc block rootHash)" unfolding commit_ready_def commit_fits_def by blast
  consider "committed tc \<or> block \<noteq> tnewHeight tc" | "\<not> committed tc" "block = tnewHeight tc" "Has block rootHash (wStates w)"
    | "\<not> committed tc" "block = tnewHeight tc" "\<not> Has block rootHash (wStates w)" by blast
  then show ?thesis
  proof cases
    case 1
    then have "w' = w" "r = Inl ErrCommitted \<or> r = Inl ErrHeight" using assms(5) by (auto simp: wCommit_def split: if_splits)
    then show ?thesis using assms(2,3) by auto
  next
    case 2
    then have "w' = w" using assms(5) by (simp add: wCommit_def)
    then show ?thesis using assms(2,3) 2(3) by simp
  next
    case 3
    let ?l = "commit_log (leHash env) tc block rootHash"
    have bl: "BlockNumber ?l = block" "RootHash ?l = rootHash" by (simp_all add: commit_log_def)
    have new: "(block, rootHash) \<notin> set ((wHeight w, wRoot w) # kids_keys (wKids w))"
      using 3(3) world_okD(3) [OF assms(2)] by blast
    from commit_unfold [OF assms(1) rt(1) new assms(2) rt(2) 3(1,2), of n] obtain db w1 where
      w1: "txnCommit (leApi env) (wDb w) (commit_ops ?l) = Inr db" "w1 = attach_new env ?l p w db"
      "attached view w p rt ?l w1"
      "wCommit env (Suc n) tc p block rootHash w =
         (case HandlePrune env (p @ [rootHash]) w1 of
            Inl e \<Rightarrow> (Inl (PanicStore e), w1) | Inr w2 \<Rightarrow> (Inr rootHash, w2))"
      and m: "maxLayerToRetain w1 = maxLayerToRetain w" "pruningFrequency w1 = pruningFrequency w" .
    have hn: "BlockNumber ?l = route_height w rt + 1" "(BlockNumber ?l, RootHash ?l) \<notin> set ((wHeight w, wRoot w) # kids_keys (wKids w))"
      unfolding bl by (fact rt(2), fact new)
    have ok1: "world_ok view w1" by (rule attached_ok [OF assms(2) rt(1) hn w1(3)])
    have at1: "layer_at w1 (p @ [rootHash]) = Some (block, rootHash, [])"
      using attached_at [OF assms(2) rt(1) hn w1(3)] unfolding bl .
    have ld1: "\<forall>k\<in>set (wKids w1). logs_distinct k"
      using upd_kids_logs [of "\<lambda>ks. ks @ [Layer ?l [] [] [] []]"] assms(3) rt(3) w1(3) by (simp add: attached_def)
    show ?thesis
    proof (cases "HandlePrune env (p @ [rootHash]) w1")
      case (Inl e)
      then have "w' = w1" "r = Inl (PanicStore e)" using assms(5) w1(4) by simp_all
      then show ?thesis using ok1 ld1 by simp
    next
      case (Inr w2)
      then have w2: "w' = w2" "r = Inr rootHash" using assms(5) w1(4) by simp_all
      from Inr obtain rs where rs: "getToBePruned w1 (p @ [rootHash]) = Inr rs" "pruneAll env rs w1 = Inr w2"
        unfolding HandlePrune_def by (rule rbind_InrE)
      have "getToBePruned w (p @ [rootHash]) = Inr rs" using rs(1) unfolding getToBePruned_def m .
      then have po: "prunes_ok env rs w1" using assms(4) w1(1,2) unfolding commit_ready_def commit_fits_def by blast
      obtain q where q: "p @ [rootHash] = rs @ q"
        using rs(1) unfolding getToBePruned_def by (metis append_Nil append_take_drop_id Inl_Inr_False sum.inject(2))
      have ok2: "world_ok view w2" by (rule pruneAll_ok [OF assms(1) ok1 ld1 po rs(2)])
      have "layer_at w2 q = Some (block, rootHash, [])" by (rule prunes_layer_at [OF po rs(2)]) (use at1 q in simp)
      from layer_at_Has [OF ok2 this] prunes_logs [OF po rs(2) ld1] ok2 show ?thesis by (simp add: w2)
    qed
  qed
qed

text \<open>(C38)
  Whatever a commit returns, the world is consistent after it; when it succeeds, or says that
  the state already existed, the archive has the state of that height and root, also when the
  commit has pruned: pruning walks up to the layer committed and never past it.
\<close>

theorem commit_makes_state_available:
  assumes "ds_reliable (leApi env) view" and "world_ok view w" and "\<forall>k\<in>set (wKids w). logs_distinct k"
    and "commit_ready env w p tc block rootHash"
    and "wCommit env (Suc n) tc p block rootHash w = (r, w')"
  shows "world_ok view w' \<and> (\<forall>k\<in>set (wKids w'). logs_distinct k) \<and>
    ((\<exists>h. r = Inr h) \<or> r = Inl ErrAlready \<longrightarrow> Has block rootHash (wStates w'))"
  by (rule commit_makes_available [OF assms])

theorem commit_makes_state_available_witness:
  "Has 3 31 (wStates (snd demo_commit_result)) \<and> world_ok map_of (snd demo_commit_result)"
proof -
  have rel: "ds_reliable (leApi demo_env) map_of" using mem_reliable by simp
  have h: "3 = route_height demo_world
      [Layer (plain_log 2 21) [] [] [] [], Layer demo_log [] [] [] [Layer (plain_log 2 21) [] [] [] []]] + 1"
    by (simp add: route_height_def plain_log_def)
  have ready: "commit_ready demo_env demo_world [11, 21] demo_tc 3 31"
    unfolding commit_ready_def commit_fits_def using demo_route h demo_commit_log demo_commit_prunes demo_pruned by auto
  have c: "wCommit demo_env (Suc 0) demo_tc [11, 21] 3 31 demo_world = (Inr (projr (fst demo_commit_result)), snd demo_commit_result)"
    using demo_commit' by simp
  have "projr (fst demo_commit_result) = 31" by code_simp
  with commit_makes_state_available [OF rel demo_world_ok demo_logs ready c] show ?thesis by simp
qed

end
