(* ===== verification/ArchiveLaws.thy ===== *)
theory ArchiveLaws
  imports WorldInv
begin

section \<open>Looking up a state\<close>

text \<open>
  The archive of the code keeps a pointer to each registered layer; the model keeps the keys
  registered and looks the layer up in the tree. In a consistent world this is the same: what
  is registered is found, under the path that leads to the layer of that height and root.
\<close>

abbreviation first_some :: "'a option list \<Rightarrow> 'a option" where
  "first_some xs \<equiv> fold (\<lambda>x acc. case acc of Some p \<Rightarrow> Some p | None \<Rightarrow> x) xs None"

lemma fold_some_mem:
  "fold (\<lambda>x acc. case acc of Some p \<Rightarrow> Some p | None \<Rightarrow> x) (map g ks) acc = Some p \<Longrightarrow>
   acc = Some p \<or> (\<exists>k\<in>set ks. g k = Some p)"
proof (induction ks arbitrary: acc)
  case (Cons k ks)
  then show ?case by (cases acc) force+
qed simp

lemma first_some_mem: "first_some (map g ks) = Some p \<Longrightarrow> \<exists>k\<in>set ks. g k = Some p"
  using fold_some_mem by fastforce

lemma fold_some_ex:
  "acc \<noteq> None \<or> (\<exists>k\<in>set ks. g k \<noteq> None) \<Longrightarrow>
   fold (\<lambda>x acc. case acc of Some p \<Rightarrow> Some p | None \<Rightarrow> x) (map g ks) acc \<noteq> None"
proof (induction ks arbitrary: acc)
  case (Cons k ks)
  then have "(case acc of Some p \<Rightarrow> Some p | None \<Rightarrow> g k) \<noteq> None \<or> (\<exists>k\<in>set ks. g k \<noteq> None)"
    by (cases acc) auto
  from Cons.IH [OF this] show ?case by simp
qed simp

lemma first_some_ex: "k \<in> set ks \<Longrightarrow> g k \<noteq> None \<Longrightarrow> first_some (map g ks) \<noteq> None"
  by (rule fold_some_ex) blast

lemma distinct_layer: "distinct (kids_keys kids) \<Longrightarrow> c \<in> set kids \<Longrightarrow> distinct (layer_keys c)"
  by (auto simp: kids_keys_def distinct_concat_iff)

lemma find_path_alt:
  "find_path h r k =
     (if lHeight k = h \<and> lRoot k = r then Some [r]
      else map_option (\<lambda>p. lRoot k # p) (first_some (map (find_path h r) (lKids k))))"
proof -
  obtain l ca cc cs kids where k: "k = Layer l ca cc cs kids" by (cases k)
  show ?thesis unfolding k layer.sel by (fact find_path.simps)
qed

definition ends_in :: "u64 \<Rightarrow> hash \<Rightarrow> layer \<Rightarrow> route \<Rightarrow> bool" where
  "ends_in h r k rt = (case rt of [] \<Rightarrow> lHeight k = h \<and> lRoot k = r | x # up \<Rightarrow> lHeight x = h \<and> lRoot x = r)"

lemma sibling_found:
  assumes "\<forall>k\<in>set kids. heights_ok h k" "distinct (kids_keys kids)" "k \<in> set kids"
  shows "find (\<lambda>l. lRoot l = lRoot k) kids = Some k"
  using assms
proof (induction kids)
  case Nil
  then show ?case by simp
next
  case (Cons x xs)
  show ?case
  proof (cases "k \<in> set xs")
    case True
    have "(h, lRoot k) \<in> set (kids_keys xs)"
      using kids_keys_mem [OF True] heights_key Cons.prems(1) True by (force simp: layer_keys_alt [of k])
    moreover have "(h, lRoot x) \<notin> set (kids_keys xs)"
      using Cons.prems(1,2) heights_key [of h x] by (auto simp: layer_keys_alt [of x])
    ultimately have "lRoot x \<noteq> lRoot k" by metis
    then show ?thesis using Cons True by simp
  next
    case False
    then show ?thesis using Cons.prems(3) by simp
  qed
qed

lemma find_path_ends:
  "heights_ok hk k \<Longrightarrow> distinct (layer_keys k) \<Longrightarrow> find_path h r k = Some p \<Longrightarrow>
   \<exists>q rt. p = lRoot k # q \<and> route_of (lKids k) q = Some rt \<and> ends_in h r k rt"
proof (induction k arbitrary: hk p)
  case (Layer l ca cc cs kids)
  let ?k = "Layer l ca cc cs kids"
  show ?case
  proof (cases "lHeight ?k = h \<and> lRoot ?k = r")
    case True
    then have "p = [lRoot ?k]" using Layer.prems(3) by (simp add: find_path_alt)
    then show ?thesis using True by (simp add: ends_in_def)
  next
    case False
    then obtain p' where p': "first_some (map (find_path h r) kids) = Some p'" "p = lRoot ?k # p'"
      using Layer.prems(3) unfolding find_path_alt [of h r ?k] if_not_P [OF False] by auto
    from first_some_mem [OF p'(1)] obtain c where c: "c \<in> set kids" "find_path h r c = Some p'" ..
    have hc: "\<forall>c\<in>set kids. heights_ok (hk + 1) c" using Layer.prems(1) by simp
    have dk: "distinct (kids_keys kids)" using Layer.prems(2) by (simp add: kids_keys_def)
    note dc = distinct_layer [OF dk c(1)]
    from Layer.IH [OF c(1) bspec [OF hc c(1)] dc c(2)] obtain q rt where
      q: "p' = lRoot c # q" "route_of (lKids c) q = Some rt" "ends_in h r c rt" by blast
    have "route_of kids p' = Some (rt @ [c])" using sibling_found [OF hc dk c(1)] q(1,2) by simp
    moreover have "ends_in h r ?k (rt @ [c])" using q(3) by (cases rt) (simp_all add: ends_in_def)
    ultimately show ?thesis using p'(2) by auto
  qed
qed

lemma find_path_ex: "(h, r) \<in> set (layer_keys k) \<Longrightarrow> find_path h r k \<noteq> None"
proof (induction k)
  case (Layer l ca cc cs kids)
  show ?case
  proof (cases "BlockNumber l = h \<and> RootHash l = r")
    case False
    then obtain c where c: "c \<in> set kids" "(h, r) \<in> set (layer_keys c)" using Layer.prems by auto
    have "first_some (map (find_path h r) kids) \<noteq> None" by (rule first_some_ex [where g = "find_path h r", OF c(1) Layer.IH [OF c]])
    then show ?thesis unfolding find_path.simps if_not_P [OF False] by simp
  qed simp
qed

lemma registered_found:
  assumes "world_ok view w" "Has height root (wStates w)"
  shows "\<exists>p. GetLayared height root w = Some p"
proof (cases "height = wHeight w \<and> root = wRoot w")
  case False
  then have "(height, root) \<in> set (kids_keys (wKids w))"
    using assms(2) unfolding world_okD(3) [OF assms(1)] by auto
  then obtain k where k: "k \<in> set (wKids w)" "(height, root) \<in> set (layer_keys k)" by (auto simp: kids_keys_def)
  have "first_some (map (find_path height root) (wKids w)) \<noteq> None"
    by (rule first_some_ex [where g = "find_path height root", OF k(1) find_path_ex [OF k(2)]])
  then show ?thesis using assms(2) unfolding GetLayared_def if_not_P [OF False] by simp
next
  case True
  then have "GetLayared height root w = Some []" using assms(2) by (simp add: GetLayared_def)
  then show ?thesis ..
qed

lemma found_registered: "GetLayared height root w = Some p \<Longrightarrow> Has height root (wStates w)"
  unfolding GetLayared_def by (rule ccontr) simp

lemma found_at:
  assumes "world_ok view w" and g: "GetLayared height root w = Some p"
  shows "(\<exists>kids. layer_at w p = Some (height, root, kids)) \<and>
      (\<exists>s. lGetMutable cfg env w p = Some s \<and> tnewHeight (sparent s) = height + 1)"
proof (cases "height = wHeight w \<and> root = wRoot w")
  case True
  then have "p = []" using g found_registered [OF g] by (simp add: GetLayared_def)
  then show ?thesis using True by (simp add: layer_at_def lGetMutable_def newMutableWorldState_def newTempCommittedState_def)
next
  case False
  then have "first_some (map (find_path height root) (wKids w)) = Some p"
    using g found_registered [OF g] unfolding GetLayared_def if_not_P [OF False] by simp
  from first_some_mem [OF this] obtain c where c: "c \<in> set (wKids w)" "find_path height root c = Some p" ..
  have hc: "\<forall>c\<in>set (wKids w). heights_ok (wHeight w + 1) c" using world_okD(2) [OF assms(1)] by blast
  have dk: "distinct (kids_keys (wKids w))" using world_okD(1) [OF assms(1)] by simp
  from find_path_ends [OF bspec [OF hc c(1)] distinct_layer [OF dk c(1)] c(2)] obtain q rt where
    q: "p = lRoot c # q" "route_of (lKids c) q = Some rt" "ends_in height root c rt" by blast
  have "route_of (wKids w) p = Some (rt @ [c])" using sibling_found [OF hc dk c(1)] q(1,2) by simp
  then show ?thesis using q(3)
    by (cases rt) (simp_all add: ends_in_def layer_at_def lGetMutable_def newMutableWorldState_def newTempCommittedState_def)
qed



end
