(* ===== verification/Processor.thy ===== *)
theory Processor
  imports Blockchain MutableState
begin

section \<open>Processing and validating a block\<close>

text \<open>
  The model of \<open>processor/processor.go\<close>, \<open>processor/helper.go\<close> and \<open>validator/validator.go\<close>.
  What go-ethereum computes is a parameter, a field of \<open>proc_env\<close>: the message of a
  transaction, \<open>core.ApplyMessage\<close> with the gas pool, the system calls, the consensus engine's
  \<open>Finalize\<close>, blooms and the receipt root, the rules of the chain configuration. The code
  around them is translated: the order of the steps, the receipts, the gas, the errors.
\<close>

record exec_result =
  erUsedGas :: u64
  erFailed :: bool
  erRefundedGas :: u64

datatype proc_err =
    PApplyTx nat hash
  | PDeposits
  | PWithdrawals
  | PPanic panic

record 'm proc_env =
  peHash :: "bytes \<Rightarrow> hash"
  peEmptyRoot :: hash
  peByzantium :: "u64 \<Rightarrow> bool"
  peEIP158 :: "u64 \<Rightarrow> bool"
  pePrague :: "u64 \<Rightarrow> u64 \<Rightarrow> bool"
  peVerkle :: "u64 \<Rightarrow> u64 \<Rightarrow> bool"
  peShanghai :: "u64 \<Rightarrow> u64 \<Rightarrow> bool"
  peDAOForkSupport :: bool
  peDAOForkBlock :: "u64 option"
  peDAORefund :: address
  peDAODrain :: "address list"
  peMessage :: "block \<Rightarrow> transaction \<Rightarrow> 'm option"
  peTo :: "'m \<Rightarrow> address option"
  peCreateAddress :: "'m \<Rightarrow> u64 \<Rightarrow> address"
  peApplyMessage :: "block \<Rightarrow> 'm \<Rightarrow> u64 \<Rightarrow> mutable_state \<Rightarrow> (exec_result \<times> u64 \<times> mutable_state) option"
  peBlobTxType :: u8
  peBlobGasPerBlob :: u64
  peBloom :: "receipt \<Rightarrow> bytes"
  peBeaconRoot :: "hash \<Rightarrow> mutable_state \<Rightarrow> mutable_state"
  peParentHash :: "hash \<Rightarrow> mutable_state \<Rightarrow> mutable_state"
  peDepositsOk :: "log_entry list \<Rightarrow> bool"
  peWithdrawalQueue :: "mutable_state \<Rightarrow> mutable_state"
  peConsolidationQueue :: "mutable_state \<Rightarrow> mutable_state"
  peEngineFinalize :: "block \<Rightarrow> mutable_state \<Rightarrow> mutable_state"
  peMergeBloom :: "receipt list \<Rightarrow> bytes"
  peDeriveSha :: "receipt list \<Rightarrow> hash"

definition lift_panic :: "panic + 'a \<Rightarrow> proc_err + 'a" where
  "lift_panic r = (case r of Inl p \<Rightarrow> Inl (PPanic p) | Inr x \<Rightarrow> Inr x)"

lemma lift_panic_Inr [simp]: "lift_panic r = Inr x \<longleftrightarrow> r = Inr x"
  by (cases r) (simp_all add: lift_panic_def)

subsection \<open>Chain headers for the EVM\<close>

text \<open>\<open>chainContext.GetHeader\<close>: by hash, and when that fails by number; \<open>None\<close> is nil.\<close>

definition ctxGetHeader :: "'db bc_api \<Rightarrow> 'db blockchain \<Rightarrow> hash \<Rightarrow> u64 \<Rightarrow> header option" where
  "ctxGetHeader api bc h height =
     (case GetHeaderByHash api bc h of
        Inr hdr \<Rightarrow> Some hdr
      | Inl e \<Rightarrow> (case GetHeaderByNumber api bc height of Inr hdr \<Rightarrow> Some hdr | Inl e \<Rightarrow> None))"

text \<open>
  \<open>BlockProcessor.GetHeader\<close>: the header of that hash if its number is as expected, else the
  empty header (\<open>None\<close> here). On a failed read the number of the empty header is nil, and
  reading it panics.
\<close>

definition procGetHeader :: "'db bc_api \<Rightarrow> 'db blockchain \<Rightarrow> hash \<Rightarrow> u64 \<Rightarrow> panic + header option" where
  "procGetHeader api bc h number =
     (case GetHeaderByHash api bc h of
        Inl e \<Rightarrow> Inl NilHook
      | Inr hdr \<Rightarrow> Inr (if hNumber hdr \<noteq> number then None else Some hdr))"

definition procGetHeaderByHash :: "'db bc_api \<Rightarrow> 'db blockchain \<Rightarrow> hash \<Rightarrow> header option" where
  "procGetHeaderByHash api bc h = (case GetHeaderByHash api bc h of Inl e \<Rightarrow> None | Inr hdr \<Rightarrow> Some hdr)"

definition procGetHeaderByNumber :: "'db bc_api \<Rightarrow> 'db blockchain \<Rightarrow> u64 \<Rightarrow> header option" where
  "procGetHeaderByNumber api bc n = (case GetHeaderByNumber api bc n of Inl e \<Rightarrow> None | Inr hdr \<Rightarrow> Some hdr)"

definition procCurrentHeader :: "'db bc_api \<Rightarrow> 'db blockchain \<Rightarrow> header option" where
  "procCurrentHeader api bc = (case GetHead api bc of Inl e \<Rightarrow> None | Inr b \<Rightarrow> Some (bHeader b))"

subsection \<open>The DAO fork\<close>

definition drain :: "address \<Rightarrow> address \<Rightarrow> mutable_state \<Rightarrow> mutable_state" where
  "drain refund ad s = SetBalance ad 0 (snd (AddBalance refund (GetBalance ad s) s))"

definition applyDAOHardFork :: "'m proc_env \<Rightarrow> mutable_state \<Rightarrow> proc_err + mutable_state" where
  "applyDAOHardFork env s =
     rbind (if \<not> Exist (peHash env) (peDAORefund env) s
            then lift_panic (CreateAccount (peHash env) (peDAORefund env) s) else Inr s)
       (\<lambda>s1. Inr (fold (drain (peDAORefund env)) (peDAODrain env) s1))"

subsection \<open>One transaction\<close>

text \<open>
  \<open>ApplyTransaction\<close>: the state, the gas pool and the used gas of the block are threaded
  through. A failed message is an error without a receipt.
\<close>

text \<open>The state with the pending changes, and the root of the receipt before Byzantium.\<close>

definition settle :: "'m proc_env \<Rightarrow> block \<Rightarrow> mutable_state \<Rightarrow> proc_err + (hash option \<times> mutable_state)" where
  "settle env blk s =
     (if peByzantium env (NumberU64 blk)
      then rbind (lift_panic (Finalise (peHash env) True s)) (\<lambda>s2. Inr (None, s2))
      else rbind (lift_panic (IntermediateRoot (peHash env) (peEmptyRoot env) (peEIP158 env (NumberU64 blk)) s))
             (\<lambda>(root, s2). Inr (Some root, s2)))"

definition make_receipt ::
  "'m proc_env \<Rightarrow> block \<Rightarrow> 'm \<Rightarrow> transaction \<Rightarrow> exec_result \<Rightarrow> u64 \<Rightarrow> hash option \<Rightarrow> log_entry list \<Rightarrow> int \<Rightarrow> receipt"
where
  "make_receipt env blk msg tx result used root logs txIndex =
     (let r = \<lparr> rTxHash = txHash tx, rType = txType tx, rPostState = root, rStatus = \<not> erFailed result,
                rCumulativeGasUsed = used, rGasUsed = erUsedGas result,
                rBlobGasUsed = (if txType tx = peBlobTxType env
                                then of_nat (length (txBlobHashes tx)) * peBlobGasPerBlob env else 0),
                rContractAddress = (if peTo env msg = None then Some (peCreateAddress env msg (txNonce tx)) else None),
                rLogs = logs, rBloom = [], rBlockHash = 0, rBlockNumber = 0, rTransactionIndex = 0 \<rparr>
      in r\<lparr>rBloom := peBloom env r, rBlockHash := bHash blk, rBlockNumber := NumberU64 blk,
            rTransactionIndex := txIndex\<rparr>)"

definition ApplyTransaction ::
  "'m proc_env \<Rightarrow> block \<Rightarrow> 'm \<Rightarrow> nat \<Rightarrow> transaction \<Rightarrow> u64 \<times> u64 \<times> mutable_state \<Rightarrow>
   proc_err + (receipt \<times> u64 \<times> u64 \<times> mutable_state)"
where
  "ApplyTransaction env blk msg i tx = (\<lambda>(gp, usedGas, s).
     case peApplyMessage env blk msg gp s of
       None \<Rightarrow> Inl (PApplyTx i (txHash tx))
     | Some (result, gp1, s1) \<Rightarrow>
         rbind (settle env blk s1) (\<lambda>(root, s2).
           let used = usedGas + erUsedGas result;
               (logs, s3) = GetLogs (txHash tx) (NumberU64 blk) (bHash blk) s2
           in Inr (make_receipt env blk msg tx result used root logs (TxIndex s3), gp1, used, s3)))"

fun applyAll ::
  "'m proc_env \<Rightarrow> block \<Rightarrow> nat \<Rightarrow> transaction list \<Rightarrow> u64 \<times> u64 \<times> mutable_state \<Rightarrow>
   proc_err + (receipt list \<times> u64 \<times> u64 \<times> mutable_state)"
where
  "applyAll env blk i [] = (\<lambda>(gp, used, s). Inr ([], gp, used, s))"
| "applyAll env blk i (tx # txs) = (\<lambda>(gp, used, s).
     case peMessage env blk tx of
       None \<Rightarrow> Inl (PApplyTx i (txHash tx))
     | Some msg \<Rightarrow>
         rbind (ApplyTransaction env blk msg i tx (gp, used, SetTxContext (txHash tx) (int i) s))
           (\<lambda>(r, gp1, used1, s1).
              rbind (applyAll env blk (Suc i) txs (gp1, used1, s1))
                (\<lambda>(rs, gp2, used2, s2). Inr (r # rs, gp2, used2, s2))))"

subsection \<open>The block\<close>

text \<open>What runs before the transactions: the DAO fork and the system calls of the header.\<close>

definition preamble :: "'m proc_env \<Rightarrow> block \<Rightarrow> mutable_state \<Rightarrow> proc_err + mutable_state" where
  "preamble env blk s =
     rbind (if peDAOForkSupport env \<and> peDAOForkBlock env = Some (NumberU64 blk)
            then applyDAOHardFork env s else Inr s)
      (\<lambda>s1. let h = bHeader blk;
               s2 = (case bBeaconRoot blk of Some r \<Rightarrow> peBeaconRoot env r s1 | None \<Rightarrow> s1)
           in Inr (if pePrague env (hNumber h) (hTime h) \<or> peVerkle env (hNumber h) (hTime h)
                   then peParentHash env (hParentHash h) s2 else s2))"

text \<open>And after them: the requests, the withdrawals, the engine.\<close>

definition epilogue :: "'m proc_env \<Rightarrow> block \<Rightarrow> log_entry list \<Rightarrow> mutable_state \<Rightarrow> proc_err + mutable_state" where
  "epilogue env blk allLogs s =
     (let h = bHeader blk in
      rbind (if pePrague env (hNumber h) (hTime h)
             then (if \<not> peDepositsOk env allLogs then Inl PDeposits
                   else Inr (peConsolidationQueue env (peWithdrawalQueue env s)))
             else Inr s)
        (\<lambda>s1. if bWithdrawals blk \<noteq> [] \<and> \<not> peShanghai env (hNumber h) (hTime h) then Inl PWithdrawals
              else Inr (peEngineFinalize env blk s1)))"

definition Process :: "'m proc_env \<Rightarrow> block \<Rightarrow> mutable_state \<Rightarrow>
  proc_err + (receipt list \<times> log_entry list \<times> u64 \<times> mutable_state)"
where
  "Process env blk s =
     rbind (preamble env blk s) (\<lambda>s1.
     rbind (applyAll env blk 0 (bTransactions blk) (hGasLimit (bHeader blk), 0, s1)) (\<lambda>(receipts, gp, usedGas, s2).
       let allLogs = concat (map rLogs receipts)
       in rbind (epilogue env blk allLogs s2) (\<lambda>s3. Inr (receipts, allLogs, usedGas, s3))))"

subsection \<open>Validation\<close>

datatype val_err =
    VGasUsed u64 u64
  | VBloom
  | VReceiptRoot hash hash

definition Validate :: "'m proc_env \<Rightarrow> block \<Rightarrow> receipt list \<Rightarrow> u64 \<Rightarrow> val_err + unit" where
  "Validate env blk receipts usedGas =
     (let h = bHeader blk in
      if hGasUsed h \<noteq> usedGas then Inl (VGasUsed (hGasUsed h) usedGas)
      else if peMergeBloom env receipts \<noteq> hBloom h then Inl VBloom
      else if \<not> peByzantium env (hNumber h) then Inr ()
      else if peDeriveSha env receipts \<noteq> hReceiptHash h then Inl (VReceiptRoot (hReceiptHash h) (peDeriveSha env receipts))
      else Inr ())"

end
