(* ===== verification/ProcessorLaws.thy ===== *)
theory ProcessorLaws
  imports Processor MutableLaws
begin

section \<open>Laws of block processing\<close>

text \<open>
  The receipts of a processed block fit its transactions, so that the block store accepts
  them; their gas adds up; a processed and validated block has the gas of its header. The DAO
  fork empties every drained account into the refund contract.
\<close>

lemma GetLogs_TxIndex: "GetLogs h n b s = (logs, s') \<Longrightarrow> TxIndex s' = TxIndex s"
  by (auto simp: GetLogs_def TxIndex_def Let_def split: if_splits prod.splits)

text \<open>What each receipt says of its transaction.\<close>

definition receipt_of :: "block \<Rightarrow> transaction \<Rightarrow> receipt \<Rightarrow> bool" where
  "receipt_of blk tx r =
     (rTxHash r = txHash tx \<and> rType r = txType tx \<and> rBlockHash r = bHash blk \<and> rBlockNumber r = NumberU64 blk)"

lemma ApplyTransaction_receipt:
  assumes "ApplyTransaction env blk msg i tx (gp, used, s) = Inr (r, gp1, used1, s1)"
  shows "receipt_of blk tx r" "used1 = used + rGasUsed r" "rCumulativeGasUsed r = used1"
proof -
  obtain res gpx sx where am: "peApplyMessage env blk msg gp s = Some (res, gpx, sx)"
    using assms by (cases "peApplyMessage env blk msg gp s") (auto simp: ApplyTransaction_def)
  obtain root s2 where s2: "settle env blk sx = Inr (root, s2)"
    using assms unfolding ApplyTransaction_def prod.case am option.case by (auto elim!: rbind_InrE)
  obtain logs s3 where g: "GetLogs (txHash tx) (NumberU64 blk) (bHash blk) s2 = (logs, s3)" by (rule prod.exhaust)
  have "r = make_receipt env blk msg tx res (used + erUsedGas res) root logs (TxIndex s3)" "used1 = used + erUsedGas res"
    using assms by (auto simp: ApplyTransaction_def am s2 g Let_def)
  then show "receipt_of blk tx r" "used1 = used + rGasUsed r" "rCumulativeGasUsed r = used1"
    by (simp_all add: receipt_of_def make_receipt_def Let_def)
qed

lemma applyAll_receipts:
  "applyAll env blk i txs (gp, used, s) = Inr (rs, gp', used', s') \<Longrightarrow>
   list_all2 (receipt_of blk) txs rs \<and> used' = used + sum_list (map rGasUsed rs) \<and>
   (\<forall>k < length rs. rCumulativeGasUsed (rs ! k) = used + sum_list (map rGasUsed (take (Suc k) rs)))"
proof (induction txs arbitrary: i gp used s rs)
  case Nil
  then show ?case by simp
next
  case (Cons tx txs)
  obtain msg where m: "peMessage env blk tx = Some msg"
    using Cons.prems by (cases "peMessage env blk tx") auto
  from Cons.prems m obtain r gp1 used1 s1 rs1 where
    a: "ApplyTransaction env blk msg i tx (gp, used, SetTxContext (txHash tx) (int i) s) = Inr (r, gp1, used1, s1)"
    and b: "applyAll env blk (Suc i) txs (gp1, used1, s1) = Inr (rs1, gp', used', s')" and rs: "rs = r # rs1"
    by (auto elim!: rbind_InrE)
  note R = ApplyTransaction_receipt [OF a] and IH = Cons.IH [OF b]
  have "rCumulativeGasUsed (rs ! k) = used + sum_list (map rGasUsed (take (Suc k) rs))" if "k < length rs" for k
    using that IH R(2,3) by (cases k) (auto simp: rs)
  then show ?case using IH R(1,2) by (auto simp: rs)
qed

lemma receipts_match:
  "list_all2 (receipt_of blk) txs rs \<Longrightarrow> match_receipts txs rs = Inr ()"
  by (induction txs rs rule: list_all2_induct) (simp_all add: receipt_of_def)

text \<open>(C22)
  The receipts of a processed block are the ones the block store asks for: as many as there are
  transactions, in their order, each with the hash of its transaction and of the block; their
  gas adds up to the gas used, and the cumulative gas of each is the sum up to it (in 64 bits).
\<close>

theorem process_receipts:
  assumes "Process env blk s = Inr (receipts, logs, usedGas, s')"
  shows "length receipts = length (bTransactions blk) \<and> match_receipts (bTransactions blk) receipts = Inr () \<and>
    list_all2 (receipt_of blk) (bTransactions blk) receipts \<and>
    usedGas = sum_list (map rGasUsed receipts) \<and>
    (\<forall>k < length receipts. rCumulativeGasUsed (receipts ! k) = sum_list (map rGasUsed (take (Suc k) receipts))) \<and>
    logs = concat (map rLogs receipts)"
proof -
  from assms obtain s1 gp s2 where
    a: "applyAll env blk 0 (bTransactions blk) (hGasLimit (bHeader blk), 0, s1) = Inr (receipts, gp, usedGas, s2)"
    and l: "logs = concat (map rLogs receipts)"
    unfolding Process_def Let_def by (auto elim!: rbind_InrE)
  note applyAll_receipts [OF a]
  with receipts_match [of blk "bTransactions blk" receipts] l show ?thesis
    by (auto dest: list_all2_lengthD)
qed

subsection \<open>The DAO fork\<close>

lemma GetBalance_acct: "GetBalance ad s = balance (acct_at s ad)"
  by (simp add: GetBalance_def acct_at_def)

lemma acct_at_load: "acct_at (snd (loadAccount ad True s)) x = acct_at s x"
  by (auto simp: loadAccount_def acct_at_alt Let_def recordJournal_def split: option.split)

lemma load_dirty: "map_of (DirtyAccounts (snd (loadAccount ad True s))) ad = Some (acct_at s ad)"
  by (auto simp: loadAccount_def acct_at_alt Let_def recordJournal_def split: option.split)

lemma balance_hook_balance: "GetBalance x (balance_hook ad o1 n1 s) = GetBalance x s"
  by (simp add: balance_hook_def GetBalance_acct emit_def)

lemma journal_balance:
  "GetBalance x (journalAccount ad (a, us) (snd (loadAccount ad True s))) = (if x = ad then balance a else GetBalance x s)"
  by (simp add: journalAccount_def recordJournal_def GetBalance_acct acct_at_store [OF load_dirty] acct_at_load)

lemma setBalance_balance: "balance (fst (acctSetBalance n a)) = n"
  by (simp add: acctSetBalance_def bump_version_def Let_def split: prod.split)

lemma AddBalance_balance: "GetBalance x (snd (AddBalance ad amt s)) = (if x = ad then GetBalance ad s + amt else GetBalance x s)"
proof -
  obtain s1 where l: "loadAccount ad True s = (acct_at s ad, s1)" using loadAccount_eq by blast
  obtain a us where a: "acctSetBalance (balance (acct_at s ad) + amt) (acct_at s ad) = (a, us)" by (rule prod.exhaust)
  have "balance a = balance (acct_at s ad) + amt" using setBalance_balance [of "balance (acct_at s ad) + amt" "acct_at s ad"] a by simp
  moreover have "GetBalance x (journalAccount ad (a, us) s1) = (if x = ad then balance a else GetBalance x s)"
    using journal_balance [of x ad a us s] l by simp
  ultimately show ?thesis by (simp add: AddBalance_def l Let_def a balance_hook_balance GetBalance_acct [of ad s])
qed

lemma SetBalance_balance: "GetBalance x (SetBalance ad amt s) = (if x = ad then amt else GetBalance x s)"
proof -
  obtain s1 where l: "loadAccount ad True s = (acct_at s ad, s1)" using loadAccount_eq by blast
  obtain a us where a: "acctSetBalance amt (acct_at s ad) = (a, us)" by (rule prod.exhaust)
  have "balance a = amt" using setBalance_balance [of amt "acct_at s ad"] a by simp
  moreover have "GetBalance x (journalAccount ad (a, us) s1) = (if x = ad then balance a else GetBalance x s)"
    using journal_balance [of x ad a us s] l by simp
  ultimately show ?thesis by (simp add: SetBalance_def l Let_def a balance_hook_balance)
qed

lemma CreateAccount_balance: "CreateAccount kc ad s = Inr s' \<Longrightarrow> GetBalance x s' = GetBalance x s"
proof -
  assume r: "CreateAccount kc ad s = Inr s'"
  obtain s1 where l: "loadAccount ad True s = (acct_at s ad, s1)" using loadAccount_eq by blast
  from r obtain a us where a: "acctCreate kc (acct_at s ad) = Inr (a, us)" "s' = journalAccount ad (a, us) s1"
    unfolding CreateAccount_def l by (auto simp: rbind_Inr_iff)
  have "balance a = balance (acct_at s ad)" using a(1) by (auto simp: acctCreate_def split: if_splits)
  then show ?thesis using journal_balance [of x ad a us s] l a(2) by (simp add: GetBalance_acct [of ad s])
qed

lemma drain_balance:
  assumes "refund \<noteq> ad"
  shows "GetBalance x (drain refund ad s) =
    (if x = refund then GetBalance refund s + GetBalance ad s else if x = ad then 0 else GetBalance x s)"
  using assms by (simp add: drain_def SetBalance_balance AddBalance_balance)

lemma drains_balance:
  "distinct ads \<Longrightarrow> refund \<notin> set ads \<Longrightarrow>
   GetBalance x (fold (drain refund) ads s) =
     (if x = refund then GetBalance refund s + sum_list (map (\<lambda>ad. GetBalance ad s) ads)
      else if x \<in> set ads then 0 else GetBalance x s)"
proof (induction ads arbitrary: s)
  case Nil
  then show ?case by simp
next
  case (Cons ad ads)
  then have ne: "refund \<noteq> ad" by auto
  have m: "map (\<lambda>y. GetBalance y (drain refund ad s)) ads = map (\<lambda>y. GetBalance y s) ads"
    by (rule map_cong) (use Cons.prems in \<open>auto simp: drain_balance [OF ne]\<close>)
  show ?case using Cons.prems by (simp add: Cons.IH m) (auto simp: drain_balance [OF ne] add.assoc)
qed

text \<open>The DAO fork moves every drained balance into the refund contract and changes no other: each
  account of the list ends with balance 0, the refund contract with its balance plus the sum of
  theirs (in 256 bits), so nothing is created or lost.
\<close>

theorem dao_fork_moves_balances:
  assumes "applyDAOHardFork env s = Inr s'" and "distinct (peDAODrain env)" and "peDAORefund env \<notin> set (peDAODrain env)"
  shows "GetBalance x s' =
    (if x = peDAORefund env then GetBalance x s + sum_list (map (\<lambda>ad. GetBalance ad s) (peDAODrain env))
     else if x \<in> set (peDAODrain env) then 0 else GetBalance x s)"
proof -
  from assms(1) obtain s1 where s1: "(if \<not> Exist (peHash env) (peDAORefund env) s
            then lift_panic (CreateAccount (peHash env) (peDAORefund env) s) else Inr s) = Inr s1"
    and s': "s' = fold (drain (peDAORefund env)) (peDAODrain env) s1"
    unfolding applyDAOHardFork_def by (auto elim!: rbind_InrE)
  have "GetBalance y s1 = GetBalance y s" for y using s1 CreateAccount_balance by (auto split: if_splits)
  then show ?thesis unfolding s' by (simp add: drains_balance [OF assms(2,3)])
qed

subsection \<open>An example\<close>

definition call_env :: "unit proc_env" where
  "call_env = \<lparr> peHash = (\<lambda>bs. if bs = [] then 7 else 1), peEmptyRoot = 5, peByzantium = (\<lambda>n. n \<ge> 4), peEIP158 = (\<lambda>n. True),
     pePrague = (\<lambda>n t. False), peVerkle = (\<lambda>n t. False), peShanghai = (\<lambda>n t. False),
     peDAOForkSupport = True, peDAOForkBlock = Some 3, peDAORefund = 9, peDAODrain = [1, 2],
     peMessage = (\<lambda>b t. Some ()), peTo = (\<lambda>m. None), peCreateAddress = (\<lambda>m n. 77),
     peApplyMessage = (\<lambda>b m gp s. if gp < 21000 then None
       else Some (\<lparr> erUsedGas = 21000, erFailed = False, erRefundedGas = 0 \<rparr>, gp - 21000, snd (AddBalance 3 1 s))),
     peBlobTxType = 3, peBlobGasPerBlob = 131072, peBloom = (\<lambda>r. []), peBeaconRoot = (\<lambda>r s. s), peParentHash = (\<lambda>r s. s),
     peDepositsOk = (\<lambda>ls. True), peWithdrawalQueue = id, peConsolidationQueue = id, peEngineFinalize = (\<lambda>b s. s),
     peMergeBloom = (\<lambda>rs. []), peDeriveSha = (\<lambda>rs. 0) \<rparr>"

definition call_parent :: parent_view where
  "call_parent = \<lparr> pvAccount = (\<lambda>ad. \<lparr> Nonce = 0, Balance = ucast ad, CodeHash = 7, DirtyStorage = False,
       Version = (if ad = 9 then 0 else 1) \<rparr>),
     pvCode = (\<lambda>h. []), pvStorage = (\<lambda>ad v k. 0) \<rparr>"

definition call_state :: mutable_state where
  "call_state = newMutableWorldState (\<lambda>n. True) call_parent 3 None"

definition call_block :: block where
  "call_block = \<lparr> bHash = 203, bHeader = \<lparr> hParentHash = 202, hNumber = 3, hRoot = 1203, hGasUsed = 42000,
     hGasLimit = 50000, hBloom = [], hReceiptHash = 0, hTime = 0 \<rparr>,
     bTransactions = [\<lparr> txHash = 7, txType = 0, txNonce = 0, txBlobHashes = [], txData = [1] \<rparr>,
        \<lparr> txHash = 8, txType = 0, txNonce = 1, txBlobHashes = [], txData = [] \<rparr>],
     bWithdrawals = [], bBeaconRoot = None \<rparr>"

lemma call_ok: "\<not> isl (Process call_env call_block call_state)"
  by code_simp

lemma call_gas: "fst (snd (snd (projr (Process call_env call_block call_state)))) = 42000"
  by code_simp

theorem process_receipts_witness:
  "\<exists>receipts logs s'. Process call_env call_block call_state = Inr (receipts, logs, 42000, s') \<and>
     length receipts = 2 \<and> match_receipts (bTransactions call_block) receipts = Inr ()"
proof -
  obtain receipts logs g s' where r: "Process call_env call_block call_state = Inr (receipts, logs, g, s')"
    using call_ok by (cases "Process call_env call_block call_state") auto
  have "g = 42000" using call_gas r by simp
  then show ?thesis using process_receipts [OF r] r by (simp add: call_block_def)
qed

lemma call_fork_ok: "\<not> isl (applyDAOHardFork call_env call_state)"
  by code_simp

theorem dao_fork_moves_balances_witness:
  "\<exists>s'. applyDAOHardFork call_env call_state = Inr s' \<and> GetBalance 9 s' = 12 \<and> GetBalance 1 s' = 0 \<and> GetBalance 3 s' = 3"
proof -
  obtain s' where r: "applyDAOHardFork call_env call_state = Inr s'"
    using call_fork_ok by (cases "applyDAOHardFork call_env call_state") auto
  have d: "distinct (peDAODrain call_env)" "peDAORefund call_env \<notin> set (peDAODrain call_env)"
    "peDAODrain call_env = [1, 2]" "peDAORefund call_env = 9" by (simp_all add: call_env_def)
  have b: "GetBalance 9 call_state = 9" "GetBalance 1 call_state = 1" "GetBalance 2 call_state = 2" "GetBalance 3 call_state = 3"
    by code_simp+
  from dao_fork_moves_balances [OF r d(1,2)] have e: "GetBalance x s' =
    (if x = 9 then GetBalance x call_state + sum_list (map (\<lambda>ad. GetBalance ad call_state) [1, 2])
     else if x \<in> set [1, 2] then 0 else GetBalance x call_state)" for x unfolding d(3,4) .
  show ?thesis using r by (simp add: e b)
qed

end
