(* ===== verification/Backend.thy ===== *)
theory Backend
  imports Processor Layers
begin

section \<open>Importing blocks\<close>

text \<open>
  The model of \<open>backend/backend_impl.go\<close>, of \<open>mutableStateImpl.Commit\<close> and of
  \<open>sync.BackwardSync\<close>. The backend holds the block store and the archive of world states;
  importing a block reads both, processes and validates the block, and writes first the block
  store, then the world state, then the head. An error in between leaves what was written, so
  the state is part of every result. The speed report is reduced to the counters that decide
  when it is made; the event feed is the list of headers sent.
\<close>

subsection \<open>Commit of a mutable state\<close>

definition msCommit ::
  "'db lenv \<Rightarrow> nat \<Rightarrow> hash \<Rightarrow> mutable_state \<Rightarrow> path \<Rightarrow> u64 \<Rightarrow> hash \<Rightarrow> bool \<Rightarrow> 'db world \<Rightarrow>
   (store_err + hash) \<times> 'db world"
where
  "msCommit env fuel emptyRoot s p block rootHash deleteEmptyObjects w =
     (case IntermediateRoot (leHash env) emptyRoot deleteEmptyObjects s of
        Inl e \<Rightarrow> (Inl (PanicStore e), w)
      | Inr (root, s1) \<Rightarrow> wCommit env fuel (sparent s1) p block rootHash w)"

subsection \<open>The backend\<close>

record ('db, 'ws) node_state =
  nsChain :: "'db blockchain"
  nsWorld :: "'ws world"
  blkProcessed :: u64
  txnProcessed :: u64
  gasProcessed :: u64
  chainHeadFeed :: "header list"

record ('db, 'ws, 'm) node_env =
  neChain :: "'db bc_api"
  neLayers :: "'ws lenv"
  neProc :: "'m proc_env"
  neFuel :: nat

datatype imp_err =
    IChain bc_err
  | INoState u64 hash
  | IProcess proc_err
  | IValidate val_err
  | ICommit store_err
  | ISource
  | ITooFar hash u64

text \<open>A nil previous block is \<open>None\<close>: then it is the stored parent.\<close>

definition prev_block ::
  "('db, 'ws, 'm) node_env \<Rightarrow> block \<Rightarrow> block option \<Rightarrow> ('db, 'ws) node_state \<Rightarrow> imp_err + block"
where
  "prev_block env blk prv s =
     (case prv of
        Some b \<Rightarrow> Inr b
      | None \<Rightarrow> (case GetBlockByHash (neChain env) (nsChain s) (ParentHash blk) of
                  Inl e \<Rightarrow> Inl (IChain e) | Inr b \<Rightarrow> Inr b))"

text \<open>\<open>GetMutable\<close>, \<open>Process\<close> and \<open>Validate\<close>: nothing is written yet.\<close>

definition process_on ::
  "('db, 'ws, 'm) node_env \<Rightarrow> block \<Rightarrow> block \<Rightarrow> ('db, 'ws) node_state \<Rightarrow>
   imp_err + (receipt list \<times> u64 \<times> mutable_state \<times> path)"
where
  "process_on env blk prv s =
     (case GetLayared (NumberU64 prv) (hRoot (bHeader prv)) (nsWorld s) of
        None \<Rightarrow> Inl (INoState (NumberU64 prv) (hRoot (bHeader prv)))
      | Some p \<Rightarrow>
          (case lGetMutable (peEIP158 (neProc env)) (neLayers env) (nsWorld s) p of
             None \<Rightarrow> Inl (INoState (NumberU64 prv) (hRoot (bHeader prv)))
           | Some ms \<Rightarrow>
               (case Process (neProc env) blk ms of
                  Inl e \<Rightarrow> Inl (IProcess e)
                | Inr (receipts, logs, gasUsed, ms1) \<Rightarrow>
                    (case Validate (neProc env) blk receipts gasUsed of
                       Inl e \<Rightarrow> Inl (IValidate e)
                     | Inr u \<Rightarrow> Inr (receipts, gasUsed, ms1, p)))))"

definition commit_state ::
  "('db, 'ws, 'm) node_env \<Rightarrow> block \<Rightarrow> mutable_state \<Rightarrow> path \<Rightarrow> ('db, 'ws) node_state \<Rightarrow>
   (imp_err + unit) \<times> ('db, 'ws) node_state"
where
  "commit_state env blk ms p s =
     (case msCommit (neLayers env) (neFuel env) (peEmptyRoot (neProc env)) ms p (NumberU64 blk) (hRoot (bHeader blk))
             (peEIP158 (neProc env) (NumberU64 blk)) (nsWorld s) of
        (Inr h, w) \<Rightarrow> (Inr (), s\<lparr>nsWorld := w\<rparr>)
      | (Inl ErrAlready, w) \<Rightarrow> (Inr (), s\<lparr>nsWorld := w\<rparr>)
      | (Inl e, w) \<Rightarrow> (Inl (ICommit e), s\<lparr>nsWorld := w\<rparr>))"

text \<open>The end of \<open>ImportBlock\<close>: a failing \<open>SetHead\<close> is logged only; counters and event.\<close>

definition set_head_logged :: "('db, 'ws, 'm) node_env \<Rightarrow> block \<Rightarrow> ('db, 'ws) node_state \<Rightarrow> ('db, 'ws) node_state" where
  "set_head_logged env blk s =
     (case SetHead (neChain env) (neFuel env) (bHash blk) (nsChain s) of
        Inl e \<Rightarrow> s
      | Inr bc \<Rightarrow> s\<lparr>nsChain := bc\<rparr>)"

definition report :: "block \<Rightarrow> nat \<Rightarrow> u64 \<Rightarrow> ('db, 'ws) node_state \<Rightarrow> ('db, 'ws) node_state" where
  "report blk receipts gasUsed s =
     (let s1 = s\<lparr>blkProcessed := blkProcessed s + 1, txnProcessed := txnProcessed s + of_nat receipts,
                 gasProcessed := gasProcessed s + gasUsed\<rparr>;
          s2 = (if gasProcessed s1 \<ge> 1000000000
                then s1\<lparr>blkProcessed := 0, txnProcessed := 0, gasProcessed := 0\<rparr> else s1)
      in s2\<lparr>chainHeadFeed := chainHeadFeed s2 @ [bHeader blk]\<rparr>)"

definition ImportBlock ::
  "('db, 'ws, 'm) node_env \<Rightarrow> block \<Rightarrow> block option \<Rightarrow> ('db, 'ws) node_state \<Rightarrow>
   (imp_err + unit) \<times> ('db, 'ws) node_state"
where
  "ImportBlock env blk prv s =
     (case HasBlock (neChain env) (nsChain s) (bHash blk) of
        Inl e \<Rightarrow> (Inl (IChain e), s)
      | Inr exists \<Rightarrow>
          if exists then (Inr (), s)
          else (case rbind (prev_block env blk prv s) (\<lambda>p. process_on env blk p s) of
             Inl e \<Rightarrow> (Inl e, s)
           | Inr (receipts, gasUsed, ms, p) \<Rightarrow>
               (case AddBlock (neChain env) blk receipts (nsChain s) of
                  Inl e \<Rightarrow> (Inl (IChain e), s)
                | Inr bc \<Rightarrow>
                    (case commit_state env blk ms p (s\<lparr>nsChain := bc\<rparr>) of
                       (Inl e, s1) \<Rightarrow> (Inl e, s1)
                     | (Inr u, s1) \<Rightarrow> (Inr (), report blk (length receipts) gasUsed (set_head_logged env blk s1))))))"

fun import_from ::
  "('db, 'ws, 'm) node_env \<Rightarrow> block option \<Rightarrow> block list \<Rightarrow> ('db, 'ws) node_state \<Rightarrow>
   (imp_err + unit) \<times> ('db, 'ws) node_state"
where
  "import_from env prv [] s = (Inr (), s)"
| "import_from env prv (blk # blks) s =
     (case ImportBlock env blk prv s of
        (Inl e, s1) \<Rightarrow> (Inl e, s1)
      | (Inr u, s1) \<Rightarrow> import_from env (Some blk) blks s1)"

definition ImportBlocks ::
  "('db, 'ws, 'm) node_env \<Rightarrow> block list \<Rightarrow> ('db, 'ws) node_state \<Rightarrow> (imp_err + unit) \<times> ('db, 'ws) node_state"
where
  "ImportBlocks env blks s = import_from env None blks s"

definition SetSafeTag :: "('db, 'ws, 'm) node_env \<Rightarrow> hash \<Rightarrow> ('db, 'ws) node_state \<Rightarrow> ('db, 'ws) node_state" where
  "SetSafeTag env h s =
     (case SetSafe (neChain env) h (nsChain s) of Inl e \<Rightarrow> s | Inr bc \<Rightarrow> s\<lparr>nsChain := bc\<rparr>)"

definition SetFinalizedTag :: "('db, 'ws, 'm) node_env \<Rightarrow> hash \<Rightarrow> ('db, 'ws) node_state \<Rightarrow> ('db, 'ws) node_state" where
  "SetFinalizedTag env h s =
     (case SetFinalized (neChain env) h (nsChain s) of Inl e \<Rightarrow> s | Inr bc \<Rightarrow> s\<lparr>nsChain := bc\<rparr>)"

definition DebugDestructStateChild ::
  "('db, 'ws, 'm) node_env \<Rightarrow> u64 \<Rightarrow> hash \<Rightarrow> hash \<Rightarrow> ('db, 'ws) node_state \<Rightarrow> (imp_err + unit) \<times> ('db, 'ws) node_state"
where
  "DebugDestructStateChild env height root child s =
     (case GetLayared height root (nsWorld s) of
        None \<Rightarrow> (Inl (INoState height root), s)
      | Some p \<Rightarrow> (Inr (), s\<lparr>nsWorld := DestructChild (neLayers env) p child (nsWorld s)\<rparr>))"

definition DebugForceProcessBlock ::
  "('db, 'ws, 'm) node_env \<Rightarrow> block \<Rightarrow> ('db, 'ws) node_state \<Rightarrow> (imp_err + unit) \<times> ('db, 'ws) node_state"
where
  "DebugForceProcessBlock env blk s =
     (case rbind (prev_block env blk None s) (\<lambda>p. process_on env blk p s) of
        Inl e \<Rightarrow> (Inl e, s)
      | Inr (receipts, gasUsed, ms, p) \<Rightarrow> commit_state env blk ms p s)"

subsection \<open>Backward sync\<close>

text \<open>
  \<open>BackwardSync\<close> asks the block source for the parents of the target until one is known
  locally, at most \<open>maxBlksToQuery\<close> times, and imports them oldest first. The source is a
  parameter; the number of queries left is the recursion's argument, so the loop ends.
\<close>

fun collect ::
  "('db, 'ws, 'm) node_env \<Rightarrow> ('db, 'ws) node_state \<Rightarrow> (hash \<Rightarrow> block option) \<Rightarrow> hash \<Rightarrow> u64 \<Rightarrow> nat \<Rightarrow> hash \<Rightarrow> block list \<Rightarrow>
   imp_err + block list"
where
  "collect env s src target maxBlks left parent blocks =
     (case HasBlock (neChain env) (nsChain s) parent of
        Inl e \<Rightarrow> Inl (IChain e)
      | Inr exists \<Rightarrow>
          if exists then Inr blocks
          else (case left of
             0 \<Rightarrow> Inl (ITooFar target maxBlks)
           | Suc left' \<Rightarrow>
               (case src parent of
                  None \<Rightarrow> Inl ISource
                | Some blk \<Rightarrow> collect env s src target maxBlks left' (ParentHash blk) (blk # blocks))))"

declare collect.simps [simp del]

definition BackwardSync ::
  "('db, 'ws, 'm) node_env \<Rightarrow> (hash \<Rightarrow> block option) \<Rightarrow> block \<Rightarrow> u64 \<Rightarrow> ('db, 'ws) node_state \<Rightarrow>
   (imp_err + unit) \<times> ('db, 'ws) node_state"
where
  "BackwardSync env src target maxBlksToQuery s =
     (case collect env s src (bHash target) maxBlksToQuery (unat maxBlksToQuery) (ParentHash target) [target] of
        Inl e \<Rightarrow> (Inl e, s)
      | Inr blocks \<Rightarrow> ImportBlocks env blocks s)"

end
