(* ===== verification/BackendLaws.thy ===== *)
theory BackendLaws
  imports CommitState ArchiveLaws ChainReads ProcessorLaws Backend
begin

section \<open>Laws of the backend\<close>

text \<open>
  The node as a whole: importing a block keeps both the block store and the world state
  consistent, whatever step fails, and a block that was imported has its state. Backward sync
  imports a chain of parents that starts at a block known locally and ends in its target.
\<close>

subsection \<open>The steps of an import\<close>

definition node_ok :: "('db \<Rightarrow> bview) \<Rightarrow> ('ws \<Rightarrow> dsview) \<Rightarrow> ('db, 'ws) node_state \<Rightarrow> bool" where
  "node_ok cv wv s =
     ((\<exists>hh n. chain_ok (cv (bcDb (nsChain s))) (tail (nsChain s)) hh n) \<and>
      PruningFrequency (nsChain s) \<le> MaxBlockToRetain (nsChain s) \<and>
      world_ok wv (nsWorld s) \<and> (\<forall>k\<in>set (wKids (nsWorld s)). logs_distinct k))"

lemma node_okD:
  assumes "node_ok cv wv s"
  obtains hh n where "chain_ok (cv (bcDb (nsChain s))) (tail (nsChain s)) hh n"
    "PruningFrequency (nsChain s) \<le> MaxBlockToRetain (nsChain s)"
    "world_ok wv (nsWorld s)" "\<forall>k\<in>set (wKids (nsWorld s)). logs_distinct k"
  using assms unfolding node_ok_def by blast

lemma node_okI:
  "chain_ok (cv (bcDb (nsChain s))) (tail (nsChain s)) hh n \<Longrightarrow> PruningFrequency (nsChain s) \<le> MaxBlockToRetain (nsChain s) \<Longrightarrow>
   world_ok wv (nsWorld s) \<Longrightarrow> \<forall>k\<in>set (wKids (nsWorld s)). logs_distinct k \<Longrightarrow> node_ok cv wv s"
  unfolding node_ok_def by blast

text \<open>What the parameters of a node promise, and what a block brings.\<close>

definition node_law :: "('db, 'ws, 'm) node_env \<Rightarrow> ('db \<Rightarrow> bview) \<Rightarrow> ('ws \<Rightarrow> dsview) \<Rightarrow> bool" where
  "node_law env cv wv =
     (bc_law (neChain env) cv \<and> tail_writable (neChain env) \<and> ds_reliable (leApi (neLayers env)) wv \<and> 0 < neFuel env)"

lemma node_lawD:
  assumes "node_law env cv wv"
  shows "bc_law (neChain env) cv" "tail_writable (neChain env)" "ds_reliable (leApi (neLayers env)) wv" "0 < neFuel env"
  using assms by (simp_all add: node_law_def)

definition block_fits ::
  "('db, 'ws, 'm) node_env \<Rightarrow> ('db \<Rightarrow> bview) \<Rightarrow> block \<Rightarrow> block option \<Rightarrow> ('db, 'ws) node_state \<Rightarrow> bool"
where
  "block_fits env cv blk prv s =
     (numbered (cv (bcDb (nsChain s))) blk \<and>
      (\<forall>b. prv = Some b \<longrightarrow> has_block (cv (bcDb (nsChain s))) (ParentHash blk) b) \<and>
      (\<forall>b receipts gasUsed ms p root s1. prev_block env blk prv s = Inr b \<longrightarrow>
         process_on env blk b s = Inr (receipts, gasUsed, ms, p) \<longrightarrow>
         IntermediateRoot (leHash (neLayers env)) (peEmptyRoot (neProc env)) (peEIP158 (neProc env) (NumberU64 blk)) ms =
           Inr (root, s1) \<longrightarrow>
         commit_fits (neLayers env) (nsWorld s) p (sparent s1) (NumberU64 blk) (hRoot (bHeader blk))))"

lemma process_on_path:
  assumes "world_ok wv (nsWorld s)" and "process_on env blk prv s = Inr (receipts, gasUsed, ms, p)"
  shows "\<exists>rt. route_of (wKids (nsWorld s)) p = Some rt \<and> NumberU64 prv = route_height (nsWorld s) rt"
proof -
  from assms(2) have "GetLayared (NumberU64 prv) (hRoot (bHeader prv)) (nsWorld s) = Some p"
    unfolding process_on_def by (auto split: option.splits sum.splits)
  with found_at [OF assms(1) this] obtain kids where
    k: "layer_at (nsWorld s) p = Some (NumberU64 prv, hRoot (bHeader prv), kids)" by blast
  then obtain rt where rt: "route_of (wKids (nsWorld s)) p = Some rt"
    by (cases "route_of (wKids (nsWorld s)) p") (simp_all add: layer_at_def)
  show ?thesis using k rt layer_at_route [OF rt] by auto
qed

lemma prev_block_stored:
  assumes "bc_law (neChain env) cv" and "prev_block env blk prv s = Inr b"
    and "\<forall>b. prv = Some b \<longrightarrow> has_block (cv (bcDb (nsChain s))) (ParentHash blk) b"
  shows "has_block (cv (bcDb (nsChain s))) (ParentHash blk) b"
proof (cases prv)
  case None
  then have "GetBlockByHash (neChain env) (nsChain s) (ParentHash blk) = Inr b"
    using assms(2) by (simp add: prev_block_def split: sum.splits)
  then show ?thesis by (rule read_block [OF assms(1)])
next
  case (Some b')
  then show ?thesis using assms(2,3) by (simp add: prev_block_def)
qed

lemma commit_state_ok:
  assumes rel: "ds_reliable (leApi (neLayers env)) wv" and fuel: "0 < neFuel env"
    and ok: "world_ok wv (nsWorld s)" "\<forall>k\<in>set (wKids (nsWorld s)). logs_distinct k"
    and ready: "\<And>root s1. IntermediateRoot (leHash (neLayers env)) (peEmptyRoot (neProc env))
          (peEIP158 (neProc env) (NumberU64 blk)) ms = Inr (root, s1) \<Longrightarrow>
        commit_ready (neLayers env) (nsWorld s) p (sparent s1) (NumberU64 blk) (hRoot (bHeader blk))"
    and c: "commit_state env blk ms p s = (r, s')"
  shows "world_ok wv (nsWorld s') \<and> (\<forall>k\<in>set (wKids (nsWorld s')). logs_distinct k) \<and> nsChain s' = nsChain s \<and>
    (r = Inr () \<longrightarrow> Has (NumberU64 blk) (hRoot (bHeader blk)) (wStates (nsWorld s')))"
proof -
  let ?ir = "IntermediateRoot (leHash (neLayers env)) (peEmptyRoot (neProc env)) (peEIP158 (neProc env) (NumberU64 blk)) ms"
  show ?thesis
  proof (cases ?ir)
    case (Inl e)
    then have "s' = s" "r = Inl (ICommit (PanicStore e))" using c by (auto simp: commit_state_def msCommit_def)
    then show ?thesis using ok by simp
  next
    case (Inr x)
    obtain root s1 where x: "x = (root, s1)" by (rule prod.exhaust)
    obtain m where m: "neFuel env = Suc m" using fuel by (cases "neFuel env") auto
    obtain rc w where w: "wCommit (neLayers env) (Suc m) (sparent s1) p (NumberU64 blk) (hRoot (bHeader blk)) (nsWorld s) = (rc, w)"
      by (rule prod.exhaust)
    note C = commit_makes_available [OF rel ok ready [OF Inr [unfolded x]] w]
    have "s' = s\<lparr>nsWorld := w\<rparr>" "r = Inr () \<Longrightarrow> rc = Inl ErrAlready \<or> (\<exists>h. rc = Inr h)"
      using c Inr by (auto simp: commit_state_def msCommit_def x m w split: sum.splits store_err.splits)
    then show ?thesis using C by auto
  qed
qed

lemma set_head_node_ok:
  assumes "node_law env cv wv" and "node_ok cv wv s"
  shows "node_ok cv wv (set_head_logged env blk s)" "nsWorld (set_head_logged env blk s) = nsWorld s"
proof -
  note L = node_lawD [OF assms(1)]
  from assms(2) obtain hh n where N: "chain_ok (cv (bcDb (nsChain s))) (tail (nsChain s)) hh n"
    "PruningFrequency (nsChain s) \<le> MaxBlockToRetain (nsChain s)"
    "world_ok wv (nsWorld s)" "\<forall>k\<in>set (wKids (nsWorld s)). logs_distinct k" by (rule node_okD)
  show "node_ok cv wv (set_head_logged env blk s)"
  proof (cases "SetHead (neChain env) (neFuel env) (bHash blk) (nsChain s)")
    case (Inl e)
    then show ?thesis using assms(2) by (simp add: set_head_logged_def)
  next
    case (Inr bc)
    from set_head_chain [OF L(1,2) N(1,2) Inr] obtain b where
      "chain_ok (cv (bcDb bc)) (tail bc) (bHash blk) (NumberU64 b)" by blast
    moreover have "PruningFrequency bc \<le> MaxBlockToRetain bc" using N(2) SetHead_config [OF Inr] by simp
    ultimately show ?thesis using N(3,4) Inr unfolding node_ok_def by (auto simp: set_head_logged_def)
  qed
  show "nsWorld (set_head_logged env blk s) = nsWorld s" by (simp add: set_head_logged_def split: sum.split)
qed

lemma report_node_ok: "node_ok cv wv (report blk k g s) = node_ok cv wv s" "nsWorld (report blk k g s) = nsWorld s"
  by (simp_all add: report_def Let_def node_ok_def)

lemma import_known: "HasBlock (neChain env) (nsChain s) (bHash blk) = Inr True \<Longrightarrow> ImportBlock env blk prv s = (Inr (), s)"
  by (simp add: ImportBlock_def)

lemma import_cases:
  assumes law: "bc_law (neChain env) cv" and r: "ImportBlock env blk prv s = (r, s')"
  obtains "s' = s \<and> (r \<noteq> Inr () \<or> cv (bcDb (nsChain s)) (BlockK (bHash blk)) \<noteq> None)"
  | b receipts gasUsed ms p bc rc s1 where "prev_block env blk prv s = Inr b"
    "process_on env blk b s = Inr (receipts, gasUsed, ms, p)" "AddBlock (neChain env) blk receipts (nsChain s) = Inr bc"
    "commit_state env blk ms p (s\<lparr>nsChain := bc\<rparr>) = (rc, s1)"
    "(\<exists>e. rc = Inl e \<and> r = Inl e \<and> s' = s1) \<or>
     (rc = Inr () \<and> r = Inr () \<and> s' = report blk (length receipts) gasUsed (set_head_logged env blk s1))"
proof (cases "HasBlock (neChain env) (nsChain s) (bHash blk)")
  case (Inl e)
  then show thesis using that(1) r by (auto simp: ImportBlock_def)
next
  case (Inr ex)
  note exv = bc_lawD(3) [OF law Inr [unfolded HasBlock_def]]
  show thesis
  proof (cases ex)
    case True
    then show thesis using that(1) r Inr exv by (simp add: ImportBlock_def)
  next
    case False
    show thesis
    proof (cases "rbind (prev_block env blk prv s) (\<lambda>p. process_on env blk p s)")
      case (Inl e)
      then show thesis using that(1) r Inr False by (auto simp: ImportBlock_def)
    next
      case (Inr x)
      obtain receipts gasUsed ms p where x: "x = (receipts, gasUsed, ms, p)" by (rule prod_cases4)
      from Inr [unfolded x] obtain b where b: "prev_block env blk prv s = Inr b"
        "process_on env blk b s = Inr (receipts, gasUsed, ms, p)" by (rule rbind_InrE)
      note I = r [unfolded ImportBlock_def \<open>HasBlock _ _ _ = _\<close> sum.case if_not_P [OF False] Inr x prod.case]
      show thesis
      proof (cases "AddBlock (neChain env) blk receipts (nsChain s)")
        case (Inl e)
        then show thesis using that(1) I by auto
      next
        case (Inr bc)
        obtain rc s1 where c: "commit_state env blk ms p (s\<lparr>nsChain := bc\<rparr>) = (rc, s1)" by (rule prod.exhaust)
        show thesis by (rule that(2) [OF b Inr c]) (use I Inr c in \<open>auto split: sum.splits\<close>)
      qed
    qed
  qed
qed

subsection \<open>Importing a block\<close>

lemma import_node:
  assumes "node_law env cv wv" and "node_ok cv wv s" and "block_fits env cv blk prv s"
    and "ImportBlock env blk prv s = (r, s')"
  shows "node_ok cv wv s' \<and>
    (r = Inr () \<longrightarrow> cv (bcDb (nsChain s)) (BlockK (bHash blk)) = None \<longrightarrow>
       Has (NumberU64 blk) (hRoot (bHeader blk)) (wStates (nsWorld s')))"
proof -
  note L = node_lawD [OF assms(1)]
  from assms(2) obtain hh n where N: "chain_ok (cv (bcDb (nsChain s))) (tail (nsChain s)) hh n"
    "PruningFrequency (nsChain s) \<le> MaxBlockToRetain (nsChain s)"
    "world_ok wv (nsWorld s)" "\<forall>k\<in>set (wKids (nsWorld s)). logs_distinct k" by (rule node_okD)
  note F = assms(3) [unfolded block_fits_def]
  let ?same = "s' = s \<and> (r \<noteq> Inr () \<or> cv (bcDb (nsChain s)) (BlockK (bHash blk)) \<noteq> None)"
  consider (same) ?same
    | (steps) b receipts gasUsed ms p bc rc s1 where "prev_block env blk prv s = Inr b"
      "process_on env blk b s = Inr (receipts, gasUsed, ms, p)" "AddBlock (neChain env) blk receipts (nsChain s) = Inr bc"
      "commit_state env blk ms p (s\<lparr>nsChain := bc\<rparr>) = (rc, s1)"
      "(\<exists>e. rc = Inl e \<and> r = Inl e \<and> s' = s1) \<or>
       (rc = Inr () \<and> r = Inr () \<and> s' = report blk (length receipts) gasUsed (set_head_logged env blk s1))"
    by (rule import_cases [OF L(1) assms(4)])
  then show ?thesis
  proof cases
    case same
    then show ?thesis using assms(2) by auto
  next
    case steps
    have pb: "has_block (cv (bcDb (nsChain s))) (ParentHash blk) b"
      by (rule prev_block_stored [OF L(1) steps(1)]) (use F in blast)
    have num: "NumberU64 blk = NumberU64 b + 1" using F pb unfolding numbered_def by blast
    obtain rt where rt: "route_of (wKids (nsWorld s)) p = Some rt" "NumberU64 b = route_height (nsWorld s) rt"
      using process_on_path [OF N(3) steps(2)] by blast
    note A = add_block_chain [OF L(1) N(1) conjunct1 [OF F] steps(3)]
    have ready: "commit_ready (neLayers env) (nsWorld (s\<lparr>nsChain := bc\<rparr>)) p (sparent s2) (NumberU64 blk) (hRoot (bHeader blk))"
      if "IntermediateRoot (leHash (neLayers env)) (peEmptyRoot (neProc env)) (peEIP158 (neProc env) (NumberU64 blk)) ms = Inr (root, s2)"
      for root s2
      unfolding commit_ready_def using rt num F steps(1,2) that by auto
    have C: "world_ok wv (nsWorld s1) \<and> (\<forall>k\<in>set (wKids (nsWorld s1)). logs_distinct k) \<and> nsChain s1 = bc \<and>
        (rc = Inr () \<longrightarrow> Has (NumberU64 blk) (hRoot (bHeader blk)) (wStates (nsWorld s1)))"
      using commit_state_ok [OF L(3,4) _ _ ready steps(4)] N(3,4) by simp
    have ok1: "node_ok cv wv s1" by (rule node_okI [of cv s1 hh n]) (use C A N(2) in auto)
    from steps(5) show ?thesis
    proof
      assume "\<exists>e. rc = Inl e \<and> r = Inl e \<and> s' = s1"
      then show ?thesis using ok1 by auto
    next
      assume e: "rc = Inr () \<and> r = Inr () \<and> s' = report blk (length receipts) gasUsed (set_head_logged env blk s1)"
      have "node_ok cv wv (set_head_logged env blk s1)" by (rule set_head_node_ok [OF assms(1) ok1])
      then show ?thesis using C e by (simp add: report_node_ok set_head_node_ok(2) [OF assms(1) ok1])
    qed
  qed
qed


subsection \<open>Importing several blocks\<close>

fun blocks_fit ::
  "('db, 'ws, 'm) node_env \<Rightarrow> ('db \<Rightarrow> bview) \<Rightarrow> block option \<Rightarrow> block list \<Rightarrow> ('db, 'ws) node_state \<Rightarrow> bool"
where
  "blocks_fit env cv prv [] s = True"
| "blocks_fit env cv prv (b # bs) s =
     (block_fits env cv b prv s \<and>
      (case ImportBlock env b prv s of (Inl e, s1) \<Rightarrow> True | (Inr u, s1) \<Rightarrow> blocks_fit env cv (Some b) bs s1))"

lemma import_from_node:
  assumes law: "node_law env cv wv"
  shows "node_ok cv wv s \<Longrightarrow> blocks_fit env cv prv bs s \<Longrightarrow> import_from env prv bs s = (r, s') \<Longrightarrow> node_ok cv wv s'"
proof (induction bs arbitrary: prv s)
  case Nil
  then show ?case by simp
next
  case (Cons b bs)
  obtain rc s1 where i: "ImportBlock env b prv s = (rc, s1)" by (rule prod.exhaust)
  have f: "block_fits env cv b prv s" using Cons.prems(2) by simp
  have ok1: "node_ok cv wv s1" using import_node [OF law Cons.prems(1) f i] by simp
  show ?case
  proof (cases rc)
    case (Inl e)
    then show ?thesis using Cons.prems(3) i ok1 by simp
  next
    case (Inr u)
    then show ?thesis using Cons.IH [OF ok1, of "Some b"] Cons.prems(2,3) i by simp
  qed
qed

subsection \<open>Backward sync\<close>

text \<open>The branch above a block known locally, newest first, as the block source has it.\<close>

fun branch :: "bview \<Rightarrow> (hash \<Rightarrow> block option) \<Rightarrow> hash \<Rightarrow> block list \<Rightarrow> bool" where
  "branch f src h [] = (f (BlockK h) \<noteq> None)"
| "branch f src h (b # bs) = (f (BlockK h) = None \<and> src h = Some b \<and> branch f src (ParentHash b) bs)"

lemma collect_branch:
  assumes has: "\<And>h. HasBlock (neChain env) (nsChain s) h = Inr (f (BlockK h) \<noteq> None)"
  shows "collect env s src t m left h acc = Inr res \<longleftrightarrow> (\<exists>bs. res = rev bs @ acc \<and> branch f src h bs \<and> length bs \<le> left)"
proof (induction left arbitrary: h acc)
  case 0
  show ?case using has [of h] by (subst collect.simps) auto
next
  case (Suc left)
  show ?case
  proof (cases "f (BlockK h)")
    case (Some v)
    have "branch f src h bs \<longleftrightarrow> bs = []" for bs using Some by (cases bs) simp_all
    then show ?thesis using has [of h] Some by (subst collect.simps) auto
  next
    case None
    have b: "branch f src h bs \<longleftrightarrow> (\<exists>b bs'. bs = b # bs' \<and> src h = Some b \<and> branch f src (ParentHash b) bs')" for bs
      using None by (cases bs) simp_all
    show ?thesis
    proof (cases "src h")
      case (Some b)
      then have "collect env s src t m (Suc left) h acc = collect env s src t m left (ParentHash b) (b # acc)"
        using has [of h] None by (subst collect.simps) simp
      then have "collect env s src t m (Suc left) h acc = Inr res \<longleftrightarrow>
          (\<exists>bs'. res = rev bs' @ b # acc \<and> branch f src (ParentHash b) bs' \<and> length bs' \<le> left)"
        by (simp add: Suc.IH)
      also have "\<dots> \<longleftrightarrow> (\<exists>bs. res = rev bs @ acc \<and> branch f src h bs \<and> length bs \<le> Suc left)"
      proof
        assume "\<exists>bs'. res = rev bs' @ b # acc \<and> branch f src (ParentHash b) bs' \<and> length bs' \<le> left"
        then obtain bs' where "res = rev bs' @ b # acc" "branch f src (ParentHash b) bs'" "length bs' \<le> left" by blast
        then show "\<exists>bs. res = rev bs @ acc \<and> branch f src h bs \<and> length bs \<le> Suc left"
          by (intro exI [of _ "b # bs'"]) (simp add: None Some)
      qed (auto simp: b Some)
      finally show ?thesis .
    next
      case none: None
      then show ?thesis unfolding b using has [of h] None by (subst collect.simps) simp
    qed
  qed
qed

text \<open>(C15)
  Backward sync collects exactly the branch that links the target to a block known locally:
  the collection succeeds if and only if the source has, for each unknown parent in turn, its
  block, and a known one is reached within the number of queries allowed; its result is that
  branch, oldest first, with the target at the end, and nothing is imported otherwise.
\<close>

theorem backward_sync_branch:
  assumes "\<And>h. HasBlock (neChain env) (nsChain s) h = Inr (f (BlockK h) \<noteq> None)"
  shows "(\<forall>bs. branch f src (ParentHash target) bs \<and> length bs \<le> unat m \<longrightarrow>
      BackwardSync env src target m s = ImportBlocks env (rev bs @ [target]) s) \<and>
    ((\<nexists>bs. branch f src (ParentHash target) bs \<and> length bs \<le> unat m) \<longrightarrow>
      (\<exists>e. BackwardSync env src target m s = (Inl e, s)))"
proof -
  note C = collect_branch [where f = f, OF assms, of src "bHash target" m "unat m" "ParentHash target" "[target]"]
  have "BackwardSync env src target m s = ImportBlocks env (rev bs @ [target]) s"
    if "branch f src (ParentHash target) bs" "length bs \<le> unat m" for bs
  proof -
    have "collect env s src (bHash target) m (unat m) (ParentHash target) [target] = Inr (rev bs @ [target])"
      unfolding C using that by blast
    then show ?thesis by (simp add: BackwardSync_def)
  qed
  moreover have "\<exists>e. BackwardSync env src target m s = (Inl e, s)"
    if "\<nexists>bs. branch f src (ParentHash target) bs \<and> length bs \<le> unat m"
  proof (cases "collect env s src (bHash target) m (unat m) (ParentHash target) [target]")
    case (Inl e)
    then show ?thesis by (simp add: BackwardSync_def)
  next
    case (Inr res)
    then show ?thesis using C that by auto
  qed
  ultimately show ?thesis by blast
qed


end
