(* ===== verification/ForwardSync.thy ===== *)
theory ForwardSync
  imports BackendLaws
begin

section \<open>Forward sync\<close>

text \<open>
  The model of \<open>sync.ForwardSync\<close>: a goroutine fetches the blocks from the head to the target
  into a channel of 100 blocks while the caller imports them. The two run interleaved, so the
  model is a step relation over the shared state: the channels, the position of the fetching
  goroutine, and what the importing loop holds. A \<open>select\<close> with several ready cases takes any
  of them; the context can be cancelled at any time.
\<close>

datatype fs_err = FSource | FImport imp_err | FCancelled

datatype fetcher = Fetching u64 | Sending block u64 | CloseErrs | CloseBlks | FetchDone

record ('db, 'ws) fsync =
  fsFetch :: fetcher
  fsBlks :: "block list"
  fsBlksClosed :: bool
  fsErrs :: "fs_err list"
  fsErrsClosed :: bool
  fsPrv :: block
  fsNode :: "('db, 'ws) node_state"
  fsCancelled :: bool
  fsResult :: "(fs_err + unit) option"

definition fsStart :: "('db, 'ws, 'm) node_env \<Rightarrow> ('db, 'ws) node_state \<Rightarrow> imp_err + ('db, 'ws) fsync" where
  "fsStart env n =
     (case GetHead (neChain env) (nsChain n) of
        Inl e \<Rightarrow> Inl (IChain e)
      | Inr b \<Rightarrow> Inr \<lparr> fsFetch = Fetching (NumberU64 b + 1), fsBlks = [], fsBlksClosed = False, fsErrs = [],
          fsErrsClosed = False, fsPrv = b, fsNode = n, fsCancelled = False, fsResult = None \<rparr>)"

text \<open>
  The source is asked for \<open>int64(i)\<close>. The buffers are those of the code: 100 blocks and one
  error, which is the only one that is ever sent. The deferred closes run in reverse order.
\<close>

inductive fstep ::
  "('db, 'ws, 'm) node_env \<Rightarrow> (int \<Rightarrow> block option) \<Rightarrow> u64 \<Rightarrow> ('db, 'ws) fsync \<Rightarrow> ('db, 'ws) fsync \<Rightarrow> bool"
  for env src target
where
  fetch_end: "fsFetch s = Fetching i \<Longrightarrow> \<not> i \<le> target \<Longrightarrow> fstep env src target s (s\<lparr>fsFetch := CloseErrs\<rparr>)"
| fetch_cancelled: "fsFetch s = Fetching i \<Longrightarrow> i \<le> target \<Longrightarrow> fsCancelled s \<Longrightarrow> fstep env src target s (s\<lparr>fsFetch := CloseErrs\<rparr>)"
| fetch_block: "fsFetch s = Fetching i \<Longrightarrow> i \<le> target \<Longrightarrow> \<not> fsCancelled s \<Longrightarrow> src (sint i) = Some b \<Longrightarrow>
    fstep env src target s (s\<lparr>fsFetch := Sending b i\<rparr>)"
| fetch_error: "fsFetch s = Fetching i \<Longrightarrow> i \<le> target \<Longrightarrow> \<not> fsCancelled s \<Longrightarrow> src (sint i) = None \<Longrightarrow>
    fstep env src target s (s\<lparr>fsFetch := CloseErrs, fsErrs := fsErrs s @ [FSource]\<rparr>)"
| send: "fsFetch s = Sending b i \<Longrightarrow> length (fsBlks s) < 100 \<Longrightarrow>
    fstep env src target s (s\<lparr>fsFetch := Fetching (i + 1), fsBlks := fsBlks s @ [b]\<rparr>)"
| send_cancelled: "fsFetch s = Sending b i \<Longrightarrow> fsCancelled s \<Longrightarrow> fstep env src target s (s\<lparr>fsFetch := CloseErrs\<rparr>)"
| close_errs: "fsFetch s = CloseErrs \<Longrightarrow> fstep env src target s (s\<lparr>fsFetch := CloseBlks, fsErrsClosed := True\<rparr>)"
| close_blks: "fsFetch s = CloseBlks \<Longrightarrow> fstep env src target s (s\<lparr>fsFetch := FetchDone, fsBlksClosed := True\<rparr>)"
| reached: "fsResult s = None \<Longrightarrow> \<not> NumberU64 (fsPrv s) < target \<Longrightarrow> fstep env src target s (s\<lparr>fsResult := Some (Inr ())\<rparr>)"
| take_error: "fsResult s = None \<Longrightarrow> NumberU64 (fsPrv s) < target \<Longrightarrow> fsErrs s = e # es \<Longrightarrow>
    fstep env src target s (s\<lparr>fsErrs := es, fsResult := Some (Inl e)\<rparr>)"
| errors_closed: "fsResult s = None \<Longrightarrow> NumberU64 (fsPrv s) < target \<Longrightarrow> fsErrs s = [] \<Longrightarrow> fsErrsClosed s \<Longrightarrow>
    fstep env src target s s"
| import_cancelled: "fsResult s = None \<Longrightarrow> NumberU64 (fsPrv s) < target \<Longrightarrow> fsCancelled s \<Longrightarrow>
    fstep env src target s (s\<lparr>fsResult := Some (Inl FCancelled)\<rparr>)"
| import_block: "fsResult s = None \<Longrightarrow> NumberU64 (fsPrv s) < target \<Longrightarrow> fsBlks s = b # bs \<Longrightarrow>
    ImportBlock env b (Some (fsPrv s)) (fsNode s) = (Inr (), n) \<Longrightarrow>
    fstep env src target s (s\<lparr>fsBlks := bs, fsPrv := b, fsNode := n\<rparr>)"
| import_error: "fsResult s = None \<Longrightarrow> NumberU64 (fsPrv s) < target \<Longrightarrow> fsBlks s = b # bs \<Longrightarrow>
    ImportBlock env b (Some (fsPrv s)) (fsNode s) = (Inl e, n) \<Longrightarrow>
    fstep env src target s (s\<lparr>fsBlks := bs, fsNode := n, fsResult := Some (Inl (FImport e))\<rparr>)"
| blocks_closed: "fsResult s = None \<Longrightarrow> NumberU64 (fsPrv s) < target \<Longrightarrow> fsBlks s = [] \<Longrightarrow> fsBlksClosed s \<Longrightarrow>
    fstep env src target s (s\<lparr>fsResult := Some (Inr ())\<rparr>)"
| cancel: "\<not> fsCancelled s \<Longrightarrow> fstep env src target s (s\<lparr>fsCancelled := True\<rparr>)"

inductive fsreach ::
  "('db, 'ws, 'm) node_env \<Rightarrow> (int \<Rightarrow> block option) \<Rightarrow> u64 \<Rightarrow> ('db, 'ws) fsync \<Rightarrow> ('db, 'ws) fsync \<Rightarrow> bool"
  for env src target s0
where
  start: "fsreach env src target s0 s0"
| step: "fsreach env src target s0 s \<Longrightarrow> fstep env src target s s' \<Longrightarrow> fsreach env src target s0 s'"

subsection \<open>It returns\<close>

text \<open>
  The work left: three steps for each block still to be fetched (fetch, send, import), one for
  each block in the channel, the closes, the return, and the cancellation.
\<close>

definition fetch_work :: "u64 \<Rightarrow> fetcher \<Rightarrow> nat" where
  "fetch_work target f =
     (case f of
        Fetching i \<Rightarrow> 3 * (unat target + 1 - unat i) + 3
      | Sending b i \<Rightarrow> 3 * (unat target + 1 - unat i) + 2
      | CloseErrs \<Rightarrow> 2
      | CloseBlks \<Rightarrow> 1
      | FetchDone \<Rightarrow> 0)"

definition work :: "u64 \<Rightarrow> ('db, 'ws) fsync \<Rightarrow> nat" where
  "work target s =
     fetch_work target (fsFetch s) + length (fsBlks s) + (if fsResult s = None then 1 else 0) + (if fsCancelled s then 0 else 1)"

definition sending_ok :: "u64 \<Rightarrow> ('db, 'ws) fsync \<Rightarrow> bool" where
  "sending_ok target s =
     ((\<forall>b i. fsFetch s = Sending b i \<longrightarrow> i \<le> target) \<and>
      (fsFetch s = FetchDone \<longrightarrow> fsBlksClosed s))"

lemma sending_step: "fstep env src target s s' \<Longrightarrow> sending_ok target s \<Longrightarrow> sending_ok target s'"
  by (induction rule: fstep.induct) (simp_all add: sending_ok_def)

lemma work_step:
  assumes "target \<noteq> - 1"
  shows "fstep env src target s s' \<Longrightarrow> sending_ok target s \<Longrightarrow> s' = s \<or> work target s' < work target s"
proof (induction rule: fstep.induct)
  case (send s b i)
  then have i: "i \<le> target" by (simp add: sending_ok_def)
  then have "i \<noteq> - 1" using assms word_order.extremum_unique by blast
  then have "unat (i + 1) = Suc (unat i)" by (rule word_Suc_unat)
  moreover have "unat i \<le> unat target" using i by (simp add: word_le_nat_alt)
  ultimately have "3 * (unat target + 1 - unat (i + 1)) + 4 \<le> 3 * (unat target + 1 - unat i) + 1" by linarith
  then show ?case using send by (simp add: work_def fetch_work_def)
qed (auto simp: work_def fetch_work_def sending_ok_def word_le_nat_alt)

lemma reach_sending: "fsreach env src target s0 s \<Longrightarrow> sending_ok target s0 \<Longrightarrow> sending_ok target s"
  by (induction rule: fsreach.induct) (auto intro: sending_step)

text \<open>Until there is a result, some step changes the state: nothing waits for ever.\<close>

lemma moves: "fstep env src target s s' \<Longrightarrow> f s' \<noteq> f s \<Longrightarrow> \<exists>s'. fstep env src target s s' \<and> s' \<noteq> s"
  by auto

lemma import_moves:
  assumes "fsResult s = None" "NumberU64 (fsPrv s) < target" "fsBlks s = b # bs"
  shows "\<exists>s'. fstep env src target s s' \<and> s' \<noteq> s"
proof -
  obtain r n where r: "ImportBlock env b (Some (fsPrv s)) (fsNode s) = (r, n)" by (rule prod.exhaust)
  show ?thesis
  proof (cases r)
    case (Inl e)
    with r show ?thesis by (intro moves [where f = fsResult, OF fstep.import_error [OF assms]]) (simp_all add: assms)
  next
    case (Inr u)
    with r show ?thesis by (intro moves [where f = fsBlks, OF fstep.import_block [OF assms]]) (simp_all add: assms)
  qed
qed

lemma fetch_moves:
  assumes "fsFetch s = Fetching i"
  shows "\<exists>s'. fstep env src target s s' \<and> s' \<noteq> s"
proof -
  consider "\<not> i \<le> target" | "i \<le> target" "fsCancelled s" | "i \<le> target" "\<not> fsCancelled s" "src (sint i) = None"
    | b where "i \<le> target" "\<not> fsCancelled s" "src (sint i) = Some b" by blast
  then show ?thesis
  proof cases
    case 1
    then show ?thesis by (intro moves [where f = fsFetch, OF fstep.fetch_end [OF assms]]) (simp_all add: assms)
  next
    case 2
    then show ?thesis by (intro moves [where f = fsFetch, OF fstep.fetch_cancelled [OF assms]]) (simp_all add: assms)
  next
    case 3
    then show ?thesis by (intro moves [where f = fsFetch, OF fstep.fetch_error [OF assms]]) (simp_all add: assms)
  next
    case 4
    then show ?thesis by (intro moves [where f = fsFetch, OF fstep.fetch_block [OF assms]]) (simp_all add: assms)
  qed
qed

lemma progress:
  assumes "sending_ok target s" "fsResult s = None"
  shows "\<exists>s'. fstep env src target s s' \<and> s' \<noteq> s"
proof -
  consider "\<not> NumberU64 (fsPrv s) < target" | e es where "NumberU64 (fsPrv s) < target" "fsErrs s = e # es"
    | b bs where "NumberU64 (fsPrv s) < target" "fsBlks s = b # bs"
    | "NumberU64 (fsPrv s) < target" "fsBlks s = []" by (meson list.exhaust)
  then show ?thesis
  proof cases
    case 1
    then show ?thesis by (intro moves [where f = fsResult, OF fstep.reached]) (simp_all add: assms)
  next
    case 2
    then show ?thesis by (intro moves [where f = fsResult, OF fstep.take_error]) (simp_all add: assms)
  next
    case 3
    then show ?thesis by (rule import_moves [OF assms(2)])
  next
    case 4
    show ?thesis
    proof (cases "fsFetch s")
      case (Fetching i)
      then show ?thesis by (rule fetch_moves)
    next
      case (Sending b i)
      then show ?thesis by (intro moves [where f = fsFetch, OF fstep.send [OF Sending]]) (simp_all add: 4)
    next
      case CloseErrs
      then show ?thesis by (intro moves [where f = fsFetch, OF fstep.close_errs]) simp_all
    next
      case CloseBlks
      then show ?thesis by (intro moves [where f = fsFetch, OF fstep.close_blks]) simp_all
    next
      case FetchDone
      then have "fsBlksClosed s" using assms(1) by (simp add: sending_ok_def)
      then show ?thesis by (intro moves [where f = fsResult, OF fstep.blocks_closed]) (simp_all add: 4 assms)
    qed
  qed
qed

lemma start_ok: "fsStart env n = Inr s0 \<Longrightarrow> sending_ok target s0"
  by (auto simp: fsStart_def sending_ok_def split: sum.splits)


subsection \<open>What it imports\<close>

text \<open>The \<open>i\<close>-th block after \<open>b0\<close>, as the source has it.\<close>

definition after :: "block \<Rightarrow> nat \<Rightarrow> u64" where
  "after b0 i = NumberU64 b0 + 1 + of_nat i"

definition nth_block :: "(int \<Rightarrow> block option) \<Rightarrow> block \<Rightarrow> nat \<Rightarrow> block" where
  "nth_block src b0 i = the (src (sint (after b0 i)))"

definition fetched :: "(int \<Rightarrow> block option) \<Rightarrow> block \<Rightarrow> nat \<Rightarrow> nat \<Rightarrow> block list" where
  "fetched src b0 k m = map (nth_block src b0) [k..<m]"

lemma fetched_Suc: "k \<le> m \<Longrightarrow> fetched src b0 k (Suc m) = fetched src b0 k m @ [nth_block src b0 m]"
  by (simp add: fetched_def)

lemma fetched_Cons: "fetched src b0 k m = b # bs \<Longrightarrow> k < m \<and> b = nth_block src b0 k \<and> bs = fetched src b0 (Suc k) m"
  by (cases "k < m") (auto simp: fetched_def upt_conv_Cons)

lemma fetched_Nil: "fetched src b0 k m = [] \<longleftrightarrow> m \<le> k"
  by (auto simp: fetched_def)

definition last_block :: "(int \<Rightarrow> block option) \<Rightarrow> block \<Rightarrow> nat \<Rightarrow> block" where
  "last_block src b0 k = (case k of 0 \<Rightarrow> b0 | Suc k' \<Rightarrow> nth_block src b0 k')"

lemma import_from_snoc:
  "import_from env prv xs n = (Inr (), n1) \<Longrightarrow>
   import_from env prv (xs @ [b]) n = ImportBlock env b (if xs = [] then prv else Some (last xs)) n1"
proof (induction xs arbitrary: prv n)
  case Nil
  then show ?case by (auto split: prod.split sum.split)
next
  case (Cons x xs)
  obtain r n2 where r: "ImportBlock env x prv n = (r, n2)" by (rule prod.exhaust)
  with Cons.prems obtain u where u: "r = Inr u" by (cases r) auto
  with r Cons show ?case by simp
qed

text \<open>
  After importing \<open>k\<close> of the \<open>m\<close> blocks fetched: the channel has those in between, and the
  node is the one that importing them one after the other gives.
\<close>

definition fs_at ::
  "('db, 'ws, 'm) node_env \<Rightarrow> (int \<Rightarrow> block option) \<Rightarrow> u64 \<Rightarrow> block \<Rightarrow> ('db, 'ws) node_state \<Rightarrow> nat \<Rightarrow> nat \<Rightarrow> ('db, 'ws) fsync \<Rightarrow> bool"
where
  "fs_at env src target b0 n0 k m s =
     (k \<le> m \<and> (\<forall>i<m. src (sint (after b0 i)) \<noteq> None \<and> after b0 i \<le> target) \<and>
      (case fsFetch s of
         Fetching i \<Rightarrow> i = after b0 m
       | Sending b i \<Rightarrow> i = after b0 m \<and> src (sint i) = Some b \<and> i \<le> target
       | _ \<Rightarrow> fsCancelled s \<or> src (sint (after b0 m)) = None \<or> \<not> after b0 m \<le> target) \<and>
      (fsBlksClosed s \<longrightarrow> fsFetch s = FetchDone) \<and> (\<forall>e\<in>set (fsErrs s). e = FSource) \<and>
      (fsResult s = Some (Inr ()) \<longrightarrow> \<not> NumberU64 (fsPrv s) < target \<or> fsBlks s = [] \<and> fsBlksClosed s) \<and>
      ((\<forall>e. fsResult s \<noteq> Some (Inl (FImport e))) \<and> fsBlks s = fetched src b0 k m \<and> fsPrv s = last_block src b0 k \<and>
         import_from env (Some b0) (fetched src b0 0 k) n0 = (Inr (), fsNode s) \<or>
       k < m \<and> (\<exists>e. fsResult s = Some (Inl (FImport e)) \<and> fsBlks s = fetched src b0 (Suc k) m \<and>
         import_from env (Some b0) (fetched src b0 0 (Suc k)) n0 = (Inl e, fsNode s))))"

lemma after_Suc: "after b0 (Suc i) = after b0 i + 1"
  by (simp add: after_def)

lemma last_block_Suc: "last_block src b0 (Suc k) = nth_block src b0 k"
  by (simp add: last_block_def)

lemma import_next:
  assumes "import_from env (Some b0) (fetched src b0 0 k) n0 = (Inr (), n)"
  shows "import_from env (Some b0) (fetched src b0 0 (Suc k)) n0 = ImportBlock env (nth_block src b0 k) (Some (last_block src b0 k)) n"
proof -
  have "(if fetched src b0 0 k = [] then Some b0 else Some (last (fetched src b0 0 k))) = Some (last_block src b0 k)"
    by (cases k) (simp_all add: fetched_def last_block_def)
  then show ?thesis using import_from_snoc [OF assms, of "nth_block src b0 k"] by (simp add: fetched_Suc)
qed

lemma fs_at_step:
  "fstep env src target s s' \<Longrightarrow> fs_at env src target b0 n0 k m s \<Longrightarrow> \<exists>k' m'. fs_at env src target b0 n0 k' m' s'"
proof (induction rule: fstep.induct)
  case (send s b i)
  then have i: "i = after b0 m" "src (sint i) = Some b" "i \<le> target" by (auto simp: fs_at_def)
  have b: "b = nth_block src b0 m" using i by (simp add: nth_block_def)
  have i': "src (sint (after b0 m)) = Some (nth_block src b0 m)" "after b0 m \<le> target" using i b by simp_all
  have "fs_at env src target b0 n0 k (Suc m) (s\<lparr>fsFetch := Fetching (i + 1), fsBlks := fsBlks s @ [b]\<rparr>)"
    using send i' i(1) unfolding fs_at_def b by (auto simp: after_Suc fetched_Suc less_Suc_eq)
  then show ?case by blast
next
  case (import_block s b bs n)
  then have "k < m" "b = nth_block src b0 k" "bs = fetched src b0 (Suc k) m" "fsPrv s = last_block src b0 k"
    "import_from env (Some b0) (fetched src b0 0 k) n0 = (Inr (), fsNode s)"
    using fetched_Cons [of src b0 k m b bs] by (auto simp: fs_at_def)
  with import_block import_next [OF this(5)]
  have "fs_at env src target b0 n0 (Suc k) m (s\<lparr>fsBlks := bs, fsPrv := b, fsNode := n\<rparr>)"
    by (simp add: fs_at_def last_block_Suc split: fetcher.splits)
  then show ?case by blast
next
  case (import_error s b bs e n)
  then have "k < m" "b = nth_block src b0 k" "bs = fetched src b0 (Suc k) m" "fsPrv s = last_block src b0 k"
    "import_from env (Some b0) (fetched src b0 0 k) n0 = (Inr (), fsNode s)"
    using fetched_Cons [of src b0 k m b bs] by (auto simp: fs_at_def)
  with import_error import_next [OF this(5)]
  have "fs_at env src target b0 n0 k m (s\<lparr>fsBlks := bs, fsNode := n, fsResult := Some (Inl (FImport e))\<rparr>)"
    by (simp add: fs_at_def split: fetcher.splits)
  then show ?case by blast
qed (auto simp: fs_at_def split: fetcher.splits; blast)+

lemma fs_at_start: "fsStart env n0 = Inr s0 \<Longrightarrow> fs_at env src target (fsPrv s0) n0 0 0 s0"
  by (auto simp: fsStart_def fs_at_def after_def fetched_def last_block_def split: sum.splits)

lemma fs_at_reach:
  assumes "fsStart env n0 = Inr s0"
  shows "fsreach env src target s0 s \<Longrightarrow> \<exists>k m. fs_at env src target (fsPrv s0) n0 k m s"
proof (induction rule: fsreach.induct)
  case start
  then show ?case using fs_at_start [OF assms] by blast
next
  case (step s s')
  then show ?case using fs_at_step by blast
qed

text \<open>(C12)
  Forward sync imports the blocks of the source in order, without a gap and without repeating
  one, however fetching and importing interleave: at every moment the node is the one that
  importing the first \<open>k\<close> blocks after the head one after the other gives, the channel holds
  the blocks from the \<open>k\<close>-th to the \<open>m\<close>-th, and no block above the target was fetched; after a
  failed import, its error is the result, and the node is the one that import left.
\<close>

theorem forward_sync_in_order:
  assumes "fsStart env n0 = Inr s0" and "fsreach env src target s0 s"
  shows "\<exists>k m. k \<le> m \<and> (\<forall>i<m. src (sint (after (fsPrv s0) i)) \<noteq> None \<and> after (fsPrv s0) i \<le> target) \<and>
    (fsBlks s = fetched src (fsPrv s0) k m \<and>
       import_from env (Some (fsPrv s0)) (fetched src (fsPrv s0) 0 k) n0 = (Inr (), fsNode s) \<or>
     (\<exists>e. fsResult s = Some (Inl (FImport e)) \<and>
       import_from env (Some (fsPrv s0)) (fetched src (fsPrv s0) 0 (Suc k)) n0 = (Inl e, fsNode s)))"
proof -
  obtain k m where "fs_at env src target (fsPrv s0) n0 k m s" using fs_at_reach [OF assms] by blast
  note at = this [unfolded fs_at_def]
  show ?thesis by (rule exI [of _ k], rule exI [of _ m]) (use at in blast)
qed

text \<open>(C13)
  When the context is not cancelled, the source has every block and numbers it rightly, and
  forward sync returns without an error, it has reached the target: the node is the one that
  importing all the blocks after the head up to the target gives.
\<close>

theorem forward_sync_complete:
  assumes "fsStart env n0 = Inr s0" and "fsreach env src target s0 s" and "fsResult s = Some (Inr ())" and "\<not> fsCancelled s"
    and "\<And>i. i \<le> target \<Longrightarrow> \<exists>b. src (sint i) = Some b \<and> NumberU64 b = i" and "NumberU64 (fsPrv s0) < target"
  shows "NumberU64 (fsPrv s) = target \<and>
    (\<exists>k. after (fsPrv s0) k = target \<and>
      import_from env (Some (fsPrv s0)) (fetched src (fsPrv s0) 0 (Suc k)) n0 = (Inr (), fsNode s))"
proof -
  let ?b0 = "fsPrv s0"
  obtain k m where "fs_at env src target ?b0 n0 k m s" using fs_at_reach [OF assms(1,2)] by blast
  then have at: "k \<le> m" "\<And>i. i < m \<Longrightarrow> after ?b0 i \<le> target" "fsBlksClosed s \<Longrightarrow> fsFetch s = FetchDone"
    "fsFetch s = FetchDone \<Longrightarrow> src (sint (after ?b0 m)) = None \<or> \<not> after ?b0 m \<le> target"
    "\<not> NumberU64 (fsPrv s) < target \<or> fsBlks s = [] \<and> fsBlksClosed s"
    "fsBlks s = fetched src ?b0 k m" "fsPrv s = last_block src ?b0 k"
    "import_from env (Some ?b0) (fetched src ?b0 0 k) n0 = (Inr (), fsNode s)"
    using assms(3,4) by (auto simp: fs_at_def)
  have num: "NumberU64 (nth_block src ?b0 i) = after ?b0 i" if "i < m" for i
    using assms(5) [OF at(2) [OF that]] by (auto simp: nth_block_def)
  have "\<exists>k'. k = Suc k' \<and> after ?b0 k' = target"
  proof (cases k)
    case 0
    then have "fsBlks s = []" "fsBlksClosed s" using at(5,7) assms(6) by (simp_all add: last_block_def)
    then have "m = 0" "\<not> after ?b0 0 \<le> target" using at(1,3,4,6) assms(5) 0 by (fastforce simp: fetched_Nil)+
    then show ?thesis using inc_le [OF assms(6)] by (simp add: after_def)
  next
    case (Suc k')
    have le: "after ?b0 k' \<le> target" using at(1,2) Suc by simp
    have n: "NumberU64 (fsPrv s) = after ?b0 k'" using at(1,7) num Suc by (simp add: last_block_Suc)
    have "\<not> after ?b0 k' < target"
    proof
      assume lt: "after ?b0 k' < target"
      then have "fsBlks s = []" "fsBlksClosed s" using at(5) n by simp_all
      then have "m = k" "\<not> after ?b0 m \<le> target" using at(1,3,4,6) assms(5) by (fastforce simp: fetched_Nil)+
      then show False using inc_le [OF lt] Suc by (simp add: after_Suc)
    qed
    then show ?thesis using le Suc by auto
  qed
  then obtain k' where k': "k = Suc k'" "after ?b0 k' = target" by blast
  then have "NumberU64 (fsPrv s) = target" using at(1,7) num by (simp add: last_block_Suc)
  then show ?thesis using at(8) k' by blast
qed

subsection \<open>A lost error\<close>

text \<open>
  The result may be success although a block could not be fetched: the error is in its channel
  when the channel of blocks is closed, and the \<open>select\<close> may take the closed channel first.
\<close>

lemma forward_sync_loses_error:
  assumes "fsStart env n0 = Inr s0" "NumberU64 (fsPrv s0) < target" "src (sint (NumberU64 (fsPrv s0) + 1)) = None"
  shows "\<exists>s. fsreach env src target s0 s \<and> fsErrs s = [FSource] \<and> fsResult s = Some (Inr ())"
proof -
  have s0: "fsFetch s0 = Fetching (NumberU64 (fsPrv s0) + 1)" "fsBlks s0 = []" "fsErrs s0 = []" "\<not> fsCancelled s0" "fsResult s0 = None"
    using assms(1) by (auto simp: fsStart_def split: sum.splits)
  let ?s1 = "s0\<lparr>fsFetch := CloseErrs, fsErrs := fsErrs s0 @ [FSource]\<rparr>"
  let ?s2 = "?s1\<lparr>fsFetch := CloseBlks, fsErrsClosed := True\<rparr>"
  let ?s3 = "?s2\<lparr>fsFetch := FetchDone, fsBlksClosed := True\<rparr>"
  have "fsreach env src target s0 ?s1"
    by (rule fsreach.step [OF fsreach.start]) (rule fetch_error [where src = src, OF s0(1) inc_le [OF assms(2)] s0(4) assms(3)])
  then have "fsreach env src target s0 ?s2" by (rule fsreach.step) (rule close_errs, simp)
  then have "fsreach env src target s0 ?s3" by (rule fsreach.step) (rule close_blks, simp)
  then have "fsreach env src target s0 (?s3\<lparr>fsResult := Some (Inr ())\<rparr>)"
    by (rule fsreach.step) (rule blocks_closed, simp_all add: s0 assms(2))
  moreover have "fsErrs (?s3\<lparr>fsResult := Some (Inr ())\<rparr>) = [FSource]" "fsResult (?s3\<lparr>fsResult := Some (Inr ())\<rparr>) = Some (Inr ())"
    by (simp_all add: s0)
  ultimately show ?thesis by blast
qed

end
