(* ===== verification/GoStrings.thy ===== *)
theory GoStrings
  imports Prelude
begin

section \<open>Strings and bytes of the Go library\<close>

text \<open>
  What the keys and codecs use of Go's standard library: \<open>strconv.FormatUint\<close> and
  \<open>ParseUint\<close> in base 10, \<open>strings.Split\<close> at a separator of one character, the
  \<open>base64.URLEncoding\<close> of a byte slice and its decoding, and the little-endian bytes of a
  number (\<open>binary.LittleEndian\<close>). Each pair of them is an interpretation of the locale
  \<open>roundtrip\<close>.
\<close>

locale roundtrip =
  fixes enc :: "'a \<Rightarrow> 'b" and dec :: "'b \<Rightarrow> 'a"
  assumes dec_enc: "dec (enc x) = x"
begin

lemma enc_eq: "enc x = enc y \<longleftrightarrow> x = y"
  by (metis dec_enc)

lemma enc_inj: "inj enc"
  by (rule injI) (simp add: enc_eq)

end

subsection \<open>Decimal numbers\<close>

definition digit :: "nat \<Rightarrow> char" where
  "digit d = char_of (48 + d)"

definition digit_value :: "char \<Rightarrow> nat option" where
  "digit_value c = (if 48 \<le> (of_char c :: nat) \<and> (of_char c :: nat) < 58 then Some (of_char c - 48) else None)"

lemma digit_value_digit [simp]: "d < 10 \<Longrightarrow> digit_value (digit d) = Some d"
  by (simp add: digit_value_def digit_def)

fun digits :: "nat \<Rightarrow> string" where
  "digits n = (if n < 10 then [digit n] else digits (n div 10) @ [digit (n mod 10)])"

declare digits.simps [simp del]

definition FormatUint :: "u64 \<Rightarrow> string" where
  "FormatUint n = digits (unat n)"

text \<open>\<open>ParseUint\<close> with its error ignored: 0 on a bad character, the largest value on overflow.\<close>

fun parse_from :: "nat \<Rightarrow> string \<Rightarrow> u64" where
  "parse_from n [] = of_nat n"
| "parse_from n (c # cs) =
     (case digit_value c of
        None \<Rightarrow> 0
      | Some d \<Rightarrow> if 2 ^ 64 \<le> 10 * n + d then - 1 else parse_from (10 * n + d) cs)"

definition ParseUint :: "string \<Rightarrow> u64" where
  "ParseUint s = (if s = [] then 0 else parse_from 0 s)"

lemma digits_not_Nil [simp]: "digits n \<noteq> []"
  by (simp add: digits.simps)

lemma digits_ok: "c \<in> set (digits n) \<Longrightarrow> digit_value c \<noteq> None"
proof (induction n rule: digits.induct)
  case (1 n)
  show ?case
  proof (cases "n < 10")
    case True
    then show ?thesis using "1.prems" by (simp add: digits.simps [of n])
  next
    case False
    then have "c \<in> set (digits (n div 10)) \<or> c = digit (n mod 10)" using "1.prems" by (auto simp: digits.simps [of n])
    then show ?thesis using "1.IH" [OF False] by auto
  qed
qed

lemma parse_digits: "n < 2 ^ 64 \<Longrightarrow> parse_from 0 (digits n @ cs) = parse_from n cs"
proof (induction n arbitrary: cs rule: digits.induct)
  case (1 n)
  show ?case
  proof (cases "n < 10")
    case True
    then show ?thesis using "1.prems" by (simp add: digits.simps [of n])
  next
    case False
    have n: "10 * (n div 10) + n mod 10 = n" by simp
    have "n div 10 < 2 ^ 64" using "1.prems" by linarith
    then have "parse_from 0 (digits n @ cs) = parse_from (n div 10) (digit (n mod 10) # cs)"
      using "1.IH" [OF False] False by (simp add: digits.simps [of n])
    also have "\<dots> = parse_from n cs" using n "1.prems" by simp
    finally show ?thesis .
  qed
qed

interpretation decimal: roundtrip FormatUint ParseUint
proof
  fix x :: u64
  have "unat x < 2 ^ 64" using unsigned_less [of x] by simp
  from parse_digits [OF this, of "[]"] show "ParseUint (FormatUint x) = x"
    by (simp add: ParseUint_def FormatUint_def)
qed

subsection \<open>Splitting\<close>

fun split_at :: "char \<Rightarrow> string \<Rightarrow> string list" where
  "split_at c [] = [[]]"
| "split_at c (x # xs) =
     (if x = c then [] # split_at c xs
      else (case split_at c xs of [] \<Rightarrow> [[x]] | p # ps \<Rightarrow> (x # p) # ps))"

lemma split_at_last [simp]: "c \<notin> set a \<Longrightarrow> split_at c a = [a]"
  by (induction a) auto

lemma split_at_sep [simp]: "c \<notin> set a \<Longrightarrow> split_at c (a @ c # b) = a # split_at c b"
  by (induction a) auto

lemma split_at_inj: "c \<notin> set a \<Longrightarrow> c \<notin> set a' \<Longrightarrow> a @ c # b = a' @ c # b' \<longleftrightarrow> a = a' \<and> b = b'"
  by (induction a arbitrary: a') (case_tac a'; auto)+

subsection \<open>Bytes of a number\<close>

fun le_bytes :: "nat \<Rightarrow> nat \<Rightarrow> bytes" where
  "le_bytes 0 k = []"
| "le_bytes (Suc n) k = of_nat (k mod 256) # le_bytes n (k div 256)"

fun le_nat :: "bytes \<Rightarrow> nat" where
  "le_nat [] = 0"
| "le_nat (b # bs) = unat b + 256 * le_nat bs"

lemma length_le_bytes [simp]: "length (le_bytes n k) = n"
  by (induction n arbitrary: k) simp_all

lemma byte_of_nat [simp]: "k < 256 \<Longrightarrow> unat (of_nat k :: u8) = k"
  by (simp add: unat_of_nat)

lemma le_nat_bytes: "le_nat (le_bytes n k) = k mod 256 ^ n"
proof (induction n arbitrary: k)
  case 0
  then show ?case by simp
next
  case (Suc n)
  have "k mod 256 ^ Suc n = k mod 256 + 256 * (k div 256 mod 256 ^ n)"
    by (simp add: mod_mult2_eq add.commute)
  then show ?case by (simp add: Suc.IH)
qed

lemma le_nat_less: "le_nat bs < 256 ^ length bs"
proof (induction bs)
  case Nil
  then show ?case by simp
next
  case (Cons b bs)
  have "unat b < 256" using unsigned_less [of b] by simp
  then show ?case using Cons.IH by simp
qed

definition PutUint64 :: "u64 \<Rightarrow> bytes" where
  "PutUint64 v = le_bytes 8 (unat v)"

definition Uint64 :: "bytes \<Rightarrow> u64" where
  "Uint64 bs = of_nat (le_nat (take 8 bs))"

interpretation little_endian: roundtrip PutUint64 Uint64
proof
  fix x :: u64
  have "unat x < 256 ^ 8" using unsigned_less [of x] by simp
  then show "Uint64 (PutUint64 x) = x" by (simp add: Uint64_def PutUint64_def le_nat_bytes)
qed

subsection \<open>Base 64\<close>

definition alphabet :: string where
  "alphabet = ''ABCDEFGHIJKLMNOPQRSTUVWXYZabcdefghijklmnopqrstuvwxyz0123456789-_''"

definition b64_char :: "nat \<Rightarrow> char" where
  "b64_char i = alphabet ! i"

definition b64_value :: "char \<Rightarrow> nat option" where
  "b64_value c = map_of (zip alphabet [0..<64]) c"

abbreviation pad :: char where
  "pad \<equiv> CHR ''=''"

definition group :: "nat \<Rightarrow> nat \<Rightarrow> nat \<Rightarrow> nat" where
  "group a b c = a * 65536 + b * 256 + c"

definition digit6 :: "nat \<Rightarrow> nat \<Rightarrow> nat" where
  "digit6 i v = v div 64 ^ i mod 64"

definition sextet :: "nat \<Rightarrow> nat \<Rightarrow> char" where
  "sextet i v = b64_char (digit6 i v)"

fun EncodeToString :: "bytes \<Rightarrow> string" where
  "EncodeToString [] = []"
| "EncodeToString [a] = (let v = group (unat a) 0 0 in [sextet 3 v, sextet 2 v, pad, pad])"
| "EncodeToString [a, b] = (let v = group (unat a) (unat b) 0 in [sextet 3 v, sextet 2 v, sextet 1 v, pad])"
| "EncodeToString (a # b # c # bs) =
     (let v = group (unat a) (unat b) (unat c)
      in [sextet 3 v, sextet 2 v, sextet 1 v, sextet 0 v] @ EncodeToString bs)"

definition bytes3 :: "nat \<Rightarrow> bytes" where
  "bytes3 v = [of_nat (v div 65536 mod 256), of_nat (v div 256 mod 256), of_nat (v mod 256)]"

text \<open>\<open>DecodeString\<close> with its error ignored: what was decoded before the corrupt group.\<close>

fun decode_groups :: "string \<Rightarrow> bytes" where
  "decode_groups (w # x # y # z # cs) =
     (case (b64_value w, b64_value x) of
        (Some p, Some q) \<Rightarrow>
          (if y = pad then (if z = pad then take 1 (bytes3 (p * 262144 + q * 4096)) else [])
           else (case b64_value y of
                   None \<Rightarrow> []
                 | Some r \<Rightarrow>
                     (if z = pad then take 2 (bytes3 (p * 262144 + q * 4096 + r * 64))
                      else (case b64_value z of
                              None \<Rightarrow> []
                            | Some s \<Rightarrow> bytes3 (p * 262144 + q * 4096 + r * 64 + s) @ decode_groups cs))))
      | _ \<Rightarrow> [])"
| "decode_groups cs = []"

definition DecodeString :: "string \<Rightarrow> bytes" where
  "DecodeString s = decode_groups (filter (\<lambda>c. c \<noteq> CHR 0x0A \<and> c \<noteq> CHR 0x0D) s)"

lemma alphabet_all: "\<forall>i\<in>set [0..<64]. b64_value (alphabet ! i) = Some i \<and> alphabet ! i \<noteq> pad \<and>
    alphabet ! i \<noteq> CHR ''/'' \<and> alphabet ! i \<noteq> CHR ''.'' \<and> alphabet ! i \<noteq> CHR 0x0A \<and> alphabet ! i \<noteq> CHR 0x0D"
  by code_simp

lemma byte_less [simp]: "unat (b :: u8) < 256"
  using unsigned_less [of b] by simp

lemma digit6_mem: "digit6 i v \<in> set [0..<64]"
  by (simp add: digit6_def)

lemma b64_value_sextet [simp]: "b64_value (sextet i v) = Some (digit6 i v)"
  using bspec [OF alphabet_all digit6_mem] by (simp add: sextet_def b64_char_def)

lemma sextet_ne [simp]: "sextet i v \<noteq> pad" "sextet i v \<noteq> CHR ''/''" "sextet i v \<noteq> CHR ''.''"
  "sextet i v \<noteq> CHR 0x0A" "sextet i v \<noteq> CHR 0x0D"
  using bspec [OF alphabet_all digit6_mem] by (simp_all add: sextet_def b64_char_def)

lemma EncodeToString_chars: "c \<in> set (EncodeToString bs) \<Longrightarrow>
    c \<noteq> CHR ''/'' \<and> c \<noteq> CHR ''.'' \<and> c \<noteq> CHR 0x0A \<and> c \<noteq> CHR 0x0D"
  by (induction bs rule: EncodeToString.induct) (auto simp: Let_def)

lemma sextets_group:
  fixes v :: nat
  assumes "v < 16777216"
  shows "digit6 3 v * 262144 + digit6 2 v * 4096 + digit6 (Suc 0) v * 64 + digit6 0 v = v"
proof -
  define x where "x = v div 64"
  define y where "y = x div 64"
  define z where "z = y div 64"
  have e: "digit6 3 v = z mod 64" "digit6 2 v = y mod 64" "digit6 (Suc 0) v = x mod 64" "digit6 0 v = v mod 64"
    by (simp_all add: digit6_def x_def y_def z_def div_mult2_eq [symmetric])
  have d: "v = 64 * x + v mod 64" "x = 64 * y + x mod 64" "y = 64 * z + y mod 64"
    by (simp_all add: x_def y_def z_def)
  have "z < 64" using d assms by linarith
  then have "z mod 64 = z" by simp
  then show ?thesis unfolding e using d by linarith
qed

lemma digit6_low: "digit6 0 (group a b 0) = 0" "digit6 (Suc 0) (group a 0 0) = 0" "digit6 0 (group a 0 0) = 0"
proof -
  have "group a b 0 = 64 * (a * 1024 + b * 4)" "group a 0 0 = 64 * (64 * (a * 16))" by (simp_all add: group_def)
  then show "digit6 0 (group a b 0) = 0" "digit6 (Suc 0) (group a 0 0) = 0" "digit6 0 (group a 0 0) = 0"
    by (simp_all add: digit6_def)
qed

lemma group_bytes:
  assumes "a < 256" "b < 256" "c < 256"
  shows "bytes3 (group a b c) = [of_nat a, of_nat b, of_nat c]" "group a b c < 16777216"
proof -
  let ?v = "group a b c"
  have v: "?v = 256 * (256 * a + b) + c" by (simp add: group_def)
  have "?v mod 256 = c" unfolding v using assms(3) by (simp only: mod_mult_self4 mod_less)
  moreover have "?v div 256 = 256 * a + b" unfolding v using assms(3) by simp
  moreover have "?v div 65536 = ?v div 256 div 256" by (simp add: div_mult2_eq [symmetric])
  ultimately show "bytes3 ?v = [of_nat a, of_nat b, of_nat c]" using assms by (simp add: bytes3_def)
  have "a * 65536 \<le> 255 * 65536" "b * 256 \<le> 255 * 256" "c \<le> 255" using assms by simp_all
  then show "?v < 16777216" unfolding group_def by linarith
qed

lemma decode_encode: "decode_groups (EncodeToString bs) = bs"
proof (induction bs rule: EncodeToString.induct)
  case 1
  then show ?case by simp
next
  case (2 a)
  note g = group_bytes [of "unat a" 0 0, simplified]
  show ?case using sextets_group [OF g(2)] g(1) by (simp add: Let_def digit6_low)
next
  case (3 a b)
  note g = group_bytes [of "unat a" "unat b" 0, simplified]
  show ?case using sextets_group [OF g(2)] g(1) by (simp add: Let_def digit6_low)
next
  case (4 a b c bs)
  note g = group_bytes [of "unat a" "unat b" "unat c", simplified]
  show ?case using sextets_group [OF g(2)] g(1) 4 by (simp add: Let_def)
qed

interpretation base64: roundtrip EncodeToString DecodeString
proof
  fix bs :: bytes
  have "filter (\<lambda>c. c \<noteq> CHR 0x0A \<and> c \<noteq> CHR 0x0D) (EncodeToString bs) = EncodeToString bs"
    by (rule filter_True) (use EncodeToString_chars in blast)
  then show "DecodeString (EncodeToString bs) = bs" by (simp add: DecodeString_def decode_encode)
qed

end
