(* ===== verification/Config.thy ===== *)
theory Config
  imports Blockchain Layers GoStrings
begin

section \<open>Configuration\<close>

text \<open>
  \<open>config.NewConfig\<close>: the values of the configuration file and the environment, checked and
  replaced by defaults, and what \<open>cli.runNode\<close> makes of them for the block store, the archive
  of world states and the node. The getters of viper and the home directory are parameters; a
  duration is its number of nanoseconds. Log output and \<open>SetAllLoggers\<close> are not modelled.
\<close>

subsection \<open>File paths\<close>

text \<open>\<open>filepath.Clean\<close> and \<open>filepath.Join\<close> of two elements, on Unix.\<close>

fun clean_parts :: "bool \<Rightarrow> string list \<Rightarrow> string list \<Rightarrow> string list" where
  "clean_parts rooted out [] = rev out"
| "clean_parts rooted out (p # ps) =
     (if p = [] \<or> p = ''.'' then clean_parts rooted out ps
      else if p = ''..'' then
        (case out of
           [] \<Rightarrow> clean_parts rooted (if rooted then [] else [p]) ps
         | q # qs \<Rightarrow> clean_parts rooted (if q = ''..'' then p # out else qs) ps)
      else clean_parts rooted (p # out) ps)"

fun join_slash :: "string list \<Rightarrow> string" where
  "join_slash [] = []"
| "join_slash [p] = p"
| "join_slash (p # q # ps) = p @ CHR ''/'' # join_slash (q # ps)"

definition Clean :: "string \<Rightarrow> string" where
  "Clean path =
     (let rooted = take 1 path = ''/'';
          body = join_slash (clean_parts rooted [] (split_at (CHR ''/'') path))
      in if rooted then CHR ''/'' # body else if body = [] then ''.'' else body)"

definition Join :: "string \<Rightarrow> string \<Rightarrow> string" where
  "Join a b = (if a \<noteq> [] then Clean (a @ CHR ''/'' # b) else if b \<noteq> [] then Clean b else [])"

subsection \<open>The configuration\<close>

record config =
  GlobalLoggingLevel :: string
  Path :: string
  BlockSourceURL :: string
  DSTimeout :: int
  StateStoreGCPeriod :: int
  BlockchainMaxBlockToRetain :: u64
  BlockchainPruningFrequency :: u64
  WorldStateMaxLayerToRetain :: u64
  WorldStatePruningFrequency :: u64
  RPCHost :: string
  RPCPort :: u64
  RPCGasCap :: u64
  RPCEVMTimeout :: int
  NodeCheckFrequency :: int
  NodeMaxAllowedLeadBlocks :: u64
  NodeForwardSyncMinDistanceToStart :: u64
  NodeForwardSyncTargetGap :: u64
  NodeBackwardSyncMaxBlocksToQuery :: u64
  NodeBackwardSyncMaxBlocksToQueryReorg :: u64

definition Second :: int where "Second = 1000000000"

definition Minute :: int where "Minute = 60 * Second"

definition DefaultConfig :: config where
  "DefaultConfig = \<lparr>
     GlobalLoggingLevel = ''INFO'',
     Path = ''$HOME/.teler'',
     BlockSourceURL = ''http://localhost:8545'',
     DSTimeout = 5 * Second,
     StateStoreGCPeriod = 30 * Minute,
     BlockchainMaxBlockToRetain = 512,
     BlockchainPruningFrequency = 257,
     WorldStateMaxLayerToRetain = 256,
     WorldStatePruningFrequency = 127,
     RPCHost = ''localhost'',
     RPCPort = 9424,
     RPCGasCap = 50000000,
     RPCEVMTimeout = 5 * Second,
     NodeCheckFrequency = 10 * Second,
     NodeMaxAllowedLeadBlocks = 64,
     NodeForwardSyncMinDistanceToStart = 256,
     NodeForwardSyncTargetGap = 64,
     NodeBackwardSyncMaxBlocksToQuery = 260,
     NodeBackwardSyncMaxBlocksToQueryReorg = 64 \<rparr>"

text \<open>
  What the code asks: \<open>viper.GetString\<close>, \<open>GetInt64\<close>, \<open>GetDuration\<close>, the check of the
  log level and the home directory, which can fail.
\<close>

record config_src =
  GetString :: "string \<Rightarrow> string"
  GetInt64 :: "string \<Rightarrow> int"
  GetDuration :: "string \<Rightarrow> int"
  LevelFromString :: "string \<Rightarrow> bool"
  UserHomeDir :: "string option"

datatype conf_err = ErrLogLevel | ErrNoHome

text \<open>\<open>uint64(viper.GetInt64(key))\<close>: a negative number wraps around.\<close>

definition GetUint64 :: "config_src \<Rightarrow> string \<Rightarrow> u64" where
  "GetUint64 src key = word_of_int (GetInt64 src key)"

definition config_path :: "config_src \<Rightarrow> conf_err + string" where
  "config_path src =
     (if GetString src ''DATA_DIR'' = [] then
        (case UserHomeDir src of
           None \<Rightarrow> Inl ErrNoHome
         | Some home \<Rightarrow> Inr (Join home (Path DefaultConfig)))
      else Inr (GetString src ''DATA_DIR''))"

definition string_or :: "string \<Rightarrow> string \<Rightarrow> string" where
  "string_or s d = (if s = [] then d else s)"

definition word_or :: "u64 \<Rightarrow> u64 \<Rightarrow> u64" where
  "word_or n d = (if n = 0 then d else n)"

definition within_or :: "u64 \<Rightarrow> u64 \<Rightarrow> u64 \<Rightarrow> u64 \<Rightarrow> u64" where
  "within_or lo hi n d = (if n < lo \<or> hi < n then d else n)"

definition duration_or :: "int \<Rightarrow> int \<Rightarrow> int" where
  "duration_or t d = (if t \<le> 0 then d else t)"

definition checked :: "config_src \<Rightarrow> string \<Rightarrow> string \<Rightarrow> config" where
  "checked src level path =
     (let gcPeriod = GetDuration src ''STATESTORE_GC_PERIOD'';
            maxBlock = within_or 128 7200 (GetUint64 src ''BLOCKCHAIN_MAX_BLOCK_TO_RETAIN'')
              (BlockchainMaxBlockToRetain DefaultConfig);
            blockFreq = within_or 64 maxBlock (GetUint64 src ''BLOCKCHAIN_PRUNING_FREQUENCY'')
              (BlockchainPruningFrequency DefaultConfig);
            maxLayer = within_or 128 512 (GetUint64 src ''WORLDSTATE_MAX_LAYER_TO_RETAIN'')
              (WorldStateMaxLayerToRetain DefaultConfig);
            layerFreq = within_or 64 maxLayer (GetUint64 src ''WORLDSTATE_PRUNING_FREQUENCY'')
              (WorldStatePruningFrequency DefaultConfig)
        in \<lparr>
          GlobalLoggingLevel = level,
          Path = path,
          BlockSourceURL = string_or (GetString src ''BLOCK_SOURCE_URL'') (BlockSourceURL DefaultConfig),
          DSTimeout = duration_or (GetDuration src ''DS_TIMEOUT'') (DSTimeout DefaultConfig),
          StateStoreGCPeriod =
            (if gcPeriod < 10 * Minute then StateStoreGCPeriod DefaultConfig else gcPeriod),
          BlockchainMaxBlockToRetain = maxBlock,
          BlockchainPruningFrequency = blockFreq,
          WorldStateMaxLayerToRetain = maxLayer,
          WorldStatePruningFrequency = layerFreq,
          RPCHost = string_or (GetString src ''RPC_HOST'') (RPCHost DefaultConfig),
          RPCPort = word_or (GetUint64 src ''RPC_PORT'') (RPCPort DefaultConfig),
          RPCGasCap = word_or (GetUint64 src ''RPC_GAS_CAP'') (RPCGasCap DefaultConfig),
          RPCEVMTimeout = duration_or (GetDuration src ''RPC_EVM_TIMEOUT'') (RPCEVMTimeout DefaultConfig),
          NodeCheckFrequency = NodeCheckFrequency DefaultConfig,
          NodeMaxAllowedLeadBlocks = NodeMaxAllowedLeadBlocks DefaultConfig,
          NodeForwardSyncMinDistanceToStart = NodeForwardSyncMinDistanceToStart DefaultConfig,
          NodeForwardSyncTargetGap = NodeForwardSyncTargetGap DefaultConfig,
          NodeBackwardSyncMaxBlocksToQuery = NodeBackwardSyncMaxBlocksToQuery DefaultConfig,
          NodeBackwardSyncMaxBlocksToQueryReorg = NodeBackwardSyncMaxBlocksToQueryReorg DefaultConfig \<rparr>)"

definition NewConfig :: "config_src \<Rightarrow> conf_err + config" where
  "NewConfig src =
     (let level = string_or (GetString src ''LOGGING'') (GlobalLoggingLevel DefaultConfig)
      in if \<not> LevelFromString src level then Inl ErrLogLevel
      else rbind (config_path src) (\<lambda>path. Inr (checked src level path)))"

subsection \<open>Bounds\<close>

lemma within_or_cases: "within_or lo hi n d = d \<or> lo \<le> within_or lo hi n d \<and> within_or lo hi n d \<le> hi"
  by (auto simp: within_or_def not_less)

lemma within_or_bounds:
  assumes "lo \<le> d" "d \<le> hi"
  shows "lo \<le> within_or lo hi n d \<and> within_or lo hi n d \<le> hi"
  using within_or_cases [of lo hi n d] assms by auto

lemma string_or_some: "d \<noteq> [] \<Longrightarrow> string_or s d \<noteq> []"
  by (simp add: string_or_def)

lemma word_or_some: "d \<noteq> 0 \<Longrightarrow> word_or n d \<noteq> 0"
  by (simp add: word_or_def)

lemma duration_or_some: "0 < d \<Longrightarrow> 0 < duration_or t d"
  by (simp add: duration_or_def)

lemma Clean_not_Nil: "Clean p \<noteq> []"
  by (simp add: Clean_def Let_def)

lemma config_path_some: "config_path src = Inr p \<Longrightarrow> p \<noteq> []"
  by (auto simp: config_path_def Join_def Clean_not_Nil DefaultConfig_def split: if_splits option.splits)

lemma new_config_checked: "NewConfig src = Inr c \<Longrightarrow> \<exists>level path. c = checked src level path"
  by (auto simp: NewConfig_def Let_def rbind_Inr_iff split: if_splits)

lemma new_config_cases:
  assumes "NewConfig src = Inr c"
  shows "LevelFromString src (GlobalLoggingLevel c)" "GlobalLoggingLevel c \<noteq> []" "Path c \<noteq> []" "BlockSourceURL c \<noteq> []"
    "RPCHost c \<noteq> []" "0 < DSTimeout c" "10 * Minute \<le> StateStoreGCPeriod c" "0 < RPCEVMTimeout c"
    "RPCPort c \<noteq> 0" "RPCGasCap c \<noteq> 0"
    "BlockchainMaxBlockToRetain c = within_or 128 7200 (GetUint64 src ''BLOCKCHAIN_MAX_BLOCK_TO_RETAIN'') 512"
    "BlockchainPruningFrequency c =
       within_or 64 (BlockchainMaxBlockToRetain c) (GetUint64 src ''BLOCKCHAIN_PRUNING_FREQUENCY'') 257"
    "WorldStateMaxLayerToRetain c = within_or 128 512 (GetUint64 src ''WORLDSTATE_MAX_LAYER_TO_RETAIN'') 256"
    "WorldStatePruningFrequency c =
       within_or 64 (WorldStateMaxLayerToRetain c) (GetUint64 src ''WORLDSTATE_PRUNING_FREQUENCY'') 127"
    "NodeForwardSyncMinDistanceToStart c = 256" "NodeForwardSyncTargetGap c = 64" "NodeMaxAllowedLeadBlocks c = 64"
    "NodeBackwardSyncMaxBlocksToQuery c = 260" "NodeBackwardSyncMaxBlocksToQueryReorg c = 64"
proof -
  obtain p where p: "config_path src = Inr p" and l: "LevelFromString src (string_or (GetString src ''LOGGING'') ''INFO'')"
    and c: "c = checked src (string_or (GetString src ''LOGGING'') ''INFO'') p"
    using assms by (auto simp: NewConfig_def Let_def rbind_Inr_iff DefaultConfig_def split: if_splits)
  note d = c checked_def Let_def DefaultConfig_def Second_def Minute_def
  show "LevelFromString src (GlobalLoggingLevel c)" using l by (simp add: d)
  show "GlobalLoggingLevel c \<noteq> []" by (simp add: d string_or_some)
  show "Path c \<noteq> []" using config_path_some [OF p] by (simp add: d)
  show "BlockSourceURL c \<noteq> []" by (simp add: d string_or_some)
  show "RPCHost c \<noteq> []" by (simp add: d string_or_some)
  show "0 < DSTimeout c" by (simp add: d duration_or_some)
  show "10 * Minute \<le> StateStoreGCPeriod c" by (simp add: d)
  show "0 < RPCEVMTimeout c" by (simp add: d duration_or_some)
  show "RPCPort c \<noteq> 0" by (simp add: d word_or_some)
  show "RPCGasCap c \<noteq> 0" by (simp add: d word_or_some)
qed (use new_config_checked [OF assms] in \<open>auto simp: checked_def Let_def DefaultConfig_def\<close>)

lemma layer_limits:
  assumes "NewConfig src = Inr c"
  shows "128 \<le> WorldStateMaxLayerToRetain c \<and> WorldStateMaxLayerToRetain c \<le> 512"
    and "64 \<le> WorldStatePruningFrequency c \<and> WorldStatePruningFrequency c \<le> WorldStateMaxLayerToRetain c"
proof -
  show m: "128 \<le> WorldStateMaxLayerToRetain c \<and> WorldStateMaxLayerToRetain c \<le> 512"
    unfolding new_config_cases(13) [OF assms] by (rule within_or_bounds) simp_all
  have "127 \<le> WorldStateMaxLayerToRetain c"
    by (rule order_trans [of _ 128]) (use m in simp_all)
  then show "64 \<le> WorldStatePruningFrequency c \<and> WorldStatePruningFrequency c \<le> WorldStateMaxLayerToRetain c"
    unfolding new_config_cases(14) [OF assms] by (intro within_or_bounds) simp_all
qed

lemma block_limits:
  assumes "NewConfig src = Inr c"
  shows "128 \<le> BlockchainMaxBlockToRetain c \<and> BlockchainMaxBlockToRetain c \<le> 7200"
    and "64 \<le> BlockchainPruningFrequency c \<and>
      (BlockchainPruningFrequency c \<le> BlockchainMaxBlockToRetain c \<or> BlockchainPruningFrequency c = 257)"
proof -
  show "128 \<le> BlockchainMaxBlockToRetain c \<and> BlockchainMaxBlockToRetain c \<le> 7200"
    unfolding new_config_cases(11) [OF assms] by (rule within_or_bounds) simp_all
  show "64 \<le> BlockchainPruningFrequency c \<and>
      (BlockchainPruningFrequency c \<le> BlockchainMaxBlockToRetain c \<or> BlockchainPruningFrequency c = 257)"
    using within_or_cases [of 64 "BlockchainMaxBlockToRetain c" "GetUint64 src ''BLOCKCHAIN_PRUNING_FREQUENCY''" 257]
    unfolding new_config_cases(12) [OF assms, symmetric] by auto
qed

text \<open>What the limits of the archive are for: a pruning route is never cut beyond its length.\<close>

lemma route_cut:
  assumes "maxLayerToRetain w \<le> 512" "1 \<le> pruningFrequency w" "pruningFrequency w \<le> maxLayerToRetain w"
  shows "\<exists>rs. getToBePruned w route = Inr rs \<and>
    (rs = [] \<or> rs = take (unat (pruningFrequency w)) route \<and> 0 < length rs \<and> length rs < length route)"
proof (cases "int (length route) \<le> sint (maxLayerToRetain w)")
  case True
  then show ?thesis by (simp add: getToBePruned_def)
next
  case False
  have "uint (maxLayerToRetain w) \<le> 512" using assms(1) by (simp add: word_le_def)
  then have "signed_take_bit 63 (uint (maxLayerToRetain w)) = uint (maxLayerToRetain w)"
    by (intro signed_take_bit_int_eq_self) (simp_all add: order_trans [of _ 0])
  then have "sint (maxLayerToRetain w) = uint (maxLayerToRetain w)" by (simp add: sint_uint)
  moreover have "int (unat (maxLayerToRetain w)) = uint (maxLayerToRetain w)" by simp
  ultimately have "int (unat (maxLayerToRetain w)) < int (length route)" using False by linarith
  then have l: "unat (maxLayerToRetain w) < length route" by (simp only: of_nat_less_iff)
  have f: "0 < unat (pruningFrequency w)" "unat (pruningFrequency w) \<le> unat (maxLayerToRetain w)"
    using assms(2,3) by (simp_all add: word_le_nat_alt)
  have "getToBePruned w route = Inr (take (unat (pruningFrequency w)) route)"
    using False f l by (simp add: getToBePruned_def)
  then show ?thesis using f l by auto
qed

text \<open>(C39)
  The bounds of a configuration. Whatever the file and the environment say, a configuration that
  is returned keeps between 128 and 7200 blocks and between 128 and 512 layers, prunes at least
  64 at a time, never more layers than it keeps, and more blocks than it keeps only with the
  default frequency 257; its timeouts are positive and its port and gas cap are not 0. So an
  archive with these limits never cuts a pruning route out of range, and never prunes all of it.
\<close>

theorem config_bounds:
  assumes "NewConfig src = Inr c"
  shows "128 \<le> BlockchainMaxBlockToRetain c \<and> BlockchainMaxBlockToRetain c \<le> 7200 \<and>
    64 \<le> BlockchainPruningFrequency c \<and>
    (BlockchainPruningFrequency c \<le> BlockchainMaxBlockToRetain c \<or> BlockchainPruningFrequency c = 257) \<and>
    128 \<le> WorldStateMaxLayerToRetain c \<and> WorldStateMaxLayerToRetain c \<le> 512 \<and>
    64 \<le> WorldStatePruningFrequency c \<and> WorldStatePruningFrequency c \<le> WorldStateMaxLayerToRetain c \<and>
    0 < DSTimeout c \<and> 0 < RPCEVMTimeout c \<and> 10 * Minute \<le> StateStoreGCPeriod c \<and>
    RPCPort c \<noteq> 0 \<and> RPCGasCap c \<noteq> 0 \<and> Path c \<noteq> [] \<and>
    (\<forall>w :: 'db world. \<forall>route.
       maxLayerToRetain w = WorldStateMaxLayerToRetain c \<longrightarrow> pruningFrequency w = WorldStatePruningFrequency c \<longrightarrow>
       (\<exists>rs. getToBePruned w route = Inr rs \<and> (rs = [] \<or> length rs < length route)))"
proof -
  have "1 \<le> WorldStatePruningFrequency c"
    by (rule order_trans [OF _ conjunct1 [OF layer_limits(2) [OF assms]]]) simp
  then have "\<exists>rs. getToBePruned w route = Inr rs \<and> (rs = [] \<or> length rs < length route)"
    if "maxLayerToRetain w = WorldStateMaxLayerToRetain c" "pruningFrequency w = WorldStatePruningFrequency c"
    for w :: "'db world" and route
    using route_cut [of w route] layer_limits [OF assms] that by auto
  then show ?thesis
    using block_limits [OF assms] layer_limits [OF assms] new_config_cases [OF assms] by blast
qed

text \<open>Nothing set: the defaults, in \<open>/root/$HOME/.teler\<close>.\<close>

definition empty_src :: config_src where
  "empty_src = \<lparr> GetString = (\<lambda>k. []), GetInt64 = (\<lambda>k. 0), GetDuration = (\<lambda>k. 0),
     LevelFromString = (\<lambda>s. s = ''INFO''), UserHomeDir = Some ''/root'' \<rparr>"

lemma default_path: "NewConfig empty_src = Inr (DefaultConfig\<lparr>Path := ''/root/$HOME/.teler''\<rparr>)"
  by code_simp

theorem config_bounds_witness:
  "128 \<le> BlockchainMaxBlockToRetain (DefaultConfig\<lparr>Path := ''/root/$HOME/.teler''\<rparr>) \<and>
   BlockchainMaxBlockToRetain (DefaultConfig\<lparr>Path := ''/root/$HOME/.teler''\<rparr>) \<le> 7200"
  using config_bounds [OF default_path] by blast

text \<open>
  With only the number of blocks set, to 200, the default frequency is more than the block
  store keeps.
\<close>

lemma default_frequency_exceeds:
  "map_sum id (\<lambda>c. (BlockchainMaxBlockToRetain c, BlockchainPruningFrequency c))
     (NewConfig (empty_src\<lparr>GetInt64 := (\<lambda>k. if k = ''BLOCKCHAIN_MAX_BLOCK_TO_RETAIN'' then 200 else 0)\<rparr>)) =
   Inr (200, 257)"
  by code_simp

end
