(* ===== verification/NodeLoop.thy ===== *)
theory NodeLoop
  imports ForwardSync Config
begin

section \<open>The main loop of the node\<close>

text \<open>
  \<open>node/node.go\<close>: in each turn \<open>Mainloop\<close> compares the local head with the one of the block
  source and syncs backward or forward. Forward sync keeps one layer only and prunes at every
  block; the archive's settings are put back afterwards. A turn is a relation, since forward sync
  runs two goroutines; \<open>Pause\<close>, \<open>Unpause\<close> and \<open>Shutdown\<close> happen between turns (what a pause
  does to a sync that is running is the step \<open>cancel\<close> of forward sync, and an error of the source
  in backward sync). The ticker and log output are not modelled.
\<close>

record node_opts =
  MaxAllowedLeadBlocks :: u64
  ForwardSyncMinDistanceToStart :: u64
  ForwardSyncTargetGap :: u64
  BackwardSyncMaxBlocksToQuery :: u64
  BackwardSyncMaxBlocksToQueryReorg :: u64

text \<open>What \<open>cli.runNode\<close> makes of a configuration.\<close>

definition opts_of :: "config \<Rightarrow> node_opts" where
  "opts_of conf = \<lparr>
     MaxAllowedLeadBlocks = NodeMaxAllowedLeadBlocks conf,
     ForwardSyncMinDistanceToStart = NodeForwardSyncMinDistanceToStart conf,
     ForwardSyncTargetGap = NodeForwardSyncTargetGap conf,
     BackwardSyncMaxBlocksToQuery = NodeBackwardSyncMaxBlocksToQuery conf,
     BackwardSyncMaxBlocksToQueryReorg = NodeBackwardSyncMaxBlocksToQueryReorg conf \<rparr>"

text \<open>
  The block source in a turn: the latest block, the hashes of the safe and the finalized header,
  blocks by hash and by number; \<open>None\<close> is an error.
\<close>

record block_source =
  srcLatest :: "block option"
  srcSafe :: "hash option"
  srcFinalized :: "hash option"
  srcByHash :: "hash \<Rightarrow> block option"
  srcByNumber :: "int \<Rightarrow> block option"

text \<open>The function \<open>node.pause\<close>: nil until the first sync, a cancel function, or the empty one.\<close>

datatype pause_fn = NilFunc | CancelFunc | EmptyFunc

record ('db, 'ws) node_loop =
  nlNode :: "('db, 'ws) node_state"
  nlPaused :: bool
  nlPause :: pause_fn
  nlCancelled :: bool
  nlExited :: bool

definition NewNode :: "('db, 'ws) node_state \<Rightarrow> ('db, 'ws) node_loop" where
  "NewNode n = \<lparr> nlNode = n, nlPaused = False, nlPause = NilFunc, nlCancelled = False, nlExited = False \<rparr>"

datatype action =
    Wait
  | Reorg block hash hash
  | Forward u64
  | Backward block

definition decide ::
  "node_opts \<Rightarrow> ('db, 'ws, 'm) node_env \<Rightarrow> block_source \<Rightarrow> ('db, 'ws) node_state \<Rightarrow> action"
where
  "decide opts env src n =
     (case GetHead (neChain env) (nsChain n) of
        Inl e \<Rightarrow> Wait
      | Inr localHead \<Rightarrow>
          (case (srcLatest src, srcSafe src, srcFinalized src) of
             (Some remoteHead, Some remoteSafe, Some remoteFinalized) \<Rightarrow>
               (let local = NumberU64 localHead; remote = NumberU64 remoteHead
                in if remote \<le> local then
                     (if local - remote > MaxAllowedLeadBlocks opts then Wait
                      else (case HasBlock (neChain env) (nsChain n) (bHash remoteHead) of
                              Inr False \<Rightarrow> Reorg remoteHead remoteSafe remoteFinalized
                            | _ \<Rightarrow> Wait))
                   else if remote - local > ForwardSyncMinDistanceToStart opts
                     then Forward (remote - ForwardSyncTargetGap opts)
                   else Backward remoteHead)
           | _ \<Rightarrow> Wait))"

definition set_limits :: "u64 \<Rightarrow> u64 \<Rightarrow> ('db, 'ws) node_state \<Rightarrow> ('db, 'ws) node_state" where
  "set_limits maxLayer frequency n =
     n\<lparr>nsWorld := SetPruningFrequency frequency (SetMaxLayerToRetain maxLayer (nsWorld n))\<rparr>"

definition reset_limits :: "('db, 'ws) node_state \<Rightarrow> ('db, 'ws) node_state \<Rightarrow> ('db, 'ws) node_state" where
  "reset_limits n0 n = set_limits (maxLayerToRetain (nsWorld n0)) (pruningFrequency (nsWorld n0)) n"

inductive turn ::
  "node_opts \<Rightarrow> ('db, 'ws, 'm) node_env \<Rightarrow> block_source \<Rightarrow> ('db, 'ws) node_loop \<Rightarrow> ('db, 'ws) node_loop \<Rightarrow> bool"
  for opts env src
where
  turn_exit: "nlCancelled l \<Longrightarrow> turn opts env src l (l\<lparr>nlExited := True\<rparr>)"
| turn_paused: "\<not> nlCancelled l \<Longrightarrow> nlPaused l \<Longrightarrow> turn opts env src l l"
| turn_wait: "\<not> nlCancelled l \<Longrightarrow> \<not> nlPaused l \<Longrightarrow> decide opts env src (nlNode l) = Wait \<Longrightarrow> turn opts env src l l"
| turn_reorg: "\<not> nlCancelled l \<Longrightarrow> \<not> nlPaused l \<Longrightarrow> decide opts env src (nlNode l) = Reorg b safe final \<Longrightarrow>
    BackwardSync env (srcByHash src) b (BackwardSyncMaxBlocksToQueryReorg opts) (nlNode l) = (r, n) \<Longrightarrow>
    turn opts env src l (l\<lparr>nlPause := CancelFunc,
      nlNode := (if isl r then n else SetFinalizedTag env final (SetSafeTag env safe n))\<rparr>)"
| turn_backward: "\<not> nlCancelled l \<Longrightarrow> \<not> nlPaused l \<Longrightarrow> decide opts env src (nlNode l) = Backward b \<Longrightarrow>
    BackwardSync env (srcByHash src) b (BackwardSyncMaxBlocksToQuery opts) (nlNode l) = (r, n) \<Longrightarrow>
    turn opts env src l (l\<lparr>nlPause := CancelFunc, nlNode := n\<rparr>)"
| turn_no_start: "\<not> nlCancelled l \<Longrightarrow> \<not> nlPaused l \<Longrightarrow> decide opts env src (nlNode l) = Forward target \<Longrightarrow>
    fsStart env (set_limits 1 1 (nlNode l)) = Inl e \<Longrightarrow>
    turn opts env src l (l\<lparr>nlPause := CancelFunc, nlNode := reset_limits (nlNode l) (set_limits 1 1 (nlNode l))\<rparr>)"
| turn_forward: "\<not> nlCancelled l \<Longrightarrow> \<not> nlPaused l \<Longrightarrow> decide opts env src (nlNode l) = Forward target \<Longrightarrow>
    fsStart env (set_limits 1 1 (nlNode l)) = Inr s0 \<Longrightarrow>
    fsreach env (srcByNumber src) target s0 s \<Longrightarrow> fsResult s = Some r \<Longrightarrow>
    turn opts env src l (l\<lparr>nlPause := CancelFunc, nlNode := reset_limits (nlNode l) (fsNode s)\<rparr>)"

text \<open>\<open>Pause\<close> calls \<open>node.pause\<close>, which panics before the first sync.\<close>

definition Pause :: "('db, 'ws) node_loop \<Rightarrow> panic option \<times> ('db, 'ws) node_loop" where
  "Pause l =
     (let l1 = l\<lparr>nlPaused := True\<rparr>
      in case nlPause l1 of
           NilFunc \<Rightarrow> (Some NilHook, l1)
         | _ \<Rightarrow> (None, l1\<lparr>nlPause := EmptyFunc\<rparr>))"

definition Unpause :: "('db, 'ws) node_loop \<Rightarrow> ('db, 'ws) node_loop" where
  "Unpause l = l\<lparr>nlPaused := False\<rparr>"

definition ShutdownNode :: "('db, 'ws) node_loop \<Rightarrow> ('db, 'ws) node_loop" where
  "ShutdownNode l = l\<lparr>nlCancelled := True\<rparr>"

inductive node_reach ::
  "node_opts \<Rightarrow> ('db, 'ws, 'm) node_env \<Rightarrow> ('db, 'ws) node_loop \<Rightarrow> ('db, 'ws) node_loop \<Rightarrow> bool"
  for opts env l0
where
  node_start: "node_reach opts env l0 l0"
| node_turn: "node_reach opts env l0 l \<Longrightarrow> \<not> nlExited l \<Longrightarrow> turn opts env src l l' \<Longrightarrow> node_reach opts env l0 l'"
| node_pause: "node_reach opts env l0 l \<Longrightarrow> node_reach opts env l0 (snd (Pause l))"
| node_unpause: "node_reach opts env l0 l \<Longrightarrow> node_reach opts env l0 (Unpause l)"
| node_shutdown: "node_reach opts env l0 l \<Longrightarrow> node_reach opts env l0 (ShutdownNode l)"

subsection \<open>The settings of the archive\<close>

definition limits :: "'ws world \<Rightarrow> u64 \<times> u64" where
  "limits w = (maxLayerToRetain w, pruningFrequency w)"

lemma prune_limits:
  "limits (snd (pruneOne env h w)) = limits w"
  "pruneAll env rs w = Inr w' \<Longrightarrow> limits w' = limits w"
proof -
  show one: "limits (snd (pruneOne env h w)) = limits w" for h and w :: "'a world"
    by (auto simp: pruneOne_def limits_def Let_def split: option.split prod.split sum.split)
  show "pruneAll env rs w = Inr w' \<Longrightarrow> limits w' = limits w"
  proof (induction rs arbitrary: w)
    case Nil
    then show ?case by simp
  next
    case (Cons r rs)
    then show ?case using one [of r w] by (auto split: prod.splits sum.splits store_err.splits)
  qed
qed

lemma commit_limits: "limits (snd (wCommit env fuel tc p block root w)) = limits w"
proof -
  have c: "limits (AddChild env p l (w\<lparr>wDb := db, wStates := st\<rparr>)) = limits w" for l db st
    by (simp add: AddChild_def limits_def split: option.split prod.split)
  have h: "HandlePrune env q w1 = Inr w2 \<Longrightarrow> limits w2 = limits w1" for q w1 w2
    by (auto simp: HandlePrune_def rbind_Inr_iff dest: prune_limits(2))
  show ?thesis
    using c h by (auto simp: wCommit_def Let_def limits_def split: sum.split prod.split)
qed

lemma ms_commit_limits: "limits (snd (msCommit env fuel er s p block root del w)) = limits w"
  by (simp add: msCommit_def commit_limits split: sum.split prod.split)

lemma commit_state_limits:
  assumes "commit_state env b ms p n = (r, n')"
  shows "limits (nsWorld n') = limits (nsWorld n)"
proof -
  obtain x w where x: "msCommit (neLayers env) (neFuel env) (peEmptyRoot (neProc env)) ms p (NumberU64 b) (hRoot (bHeader b))
      (peEIP158 (neProc env) (NumberU64 b)) (nsWorld n) = (x, w)" by (rule prod.exhaust)
  have "limits w = limits (nsWorld n)"
    using ms_commit_limits [of "neLayers env" "neFuel env" "peEmptyRoot (neProc env)" ms p "NumberU64 b" "hRoot (bHeader b)"
      "peEIP158 (neProc env) (NumberU64 b)" "nsWorld n"] unfolding x by simp
  moreover have "nsWorld n' = w"
    using assms unfolding commit_state_def x by (auto split: sum.splits store_err.splits)
  ultimately show ?thesis by simp
qed

lemma import_limits: "ImportBlock env b prv n = (r, n') \<Longrightarrow> limits (nsWorld n') = limits (nsWorld n)"
proof -
  assume i: "ImportBlock env b prv n = (r, n')"
  have c: "limits (nsWorld n1) = limits (nsWorld n)" if "commit_state env b ms p (n\<lparr>nsChain := bc\<rparr>) = (rc, n1)" for ms p bc rc n1
    using commit_state_limits [OF that] by simp
  have h: "nsWorld (set_head_logged env b n1) = nsWorld n1" "nsWorld (report b k g n1) = nsWorld n1" for n1 k g
    by (simp_all add: set_head_logged_def report_def Let_def split: sum.split)
  show ?thesis
    using i by (auto simp: ImportBlock_def h split: sum.splits if_splits prod.splits dest: c)
qed

lemma import_from_limits: "import_from env prv bs n = (r, n') \<Longrightarrow> limits (nsWorld n') = limits (nsWorld n)"
proof (induction bs arbitrary: prv n)
  case Nil
  then show ?case by simp
next
  case (Cons b bs)
  obtain r1 n1 where i: "ImportBlock env b prv n = (r1, n1)" by (rule prod.exhaust)
  show ?case using Cons i import_limits [OF i] by (cases r1) auto
qed

lemma backward_limits: "BackwardSync env src b m n = (r, n') \<Longrightarrow> limits (nsWorld n') = limits (nsWorld n)"
  by (auto simp: BackwardSync_def ImportBlocks_def import_from_limits split: sum.splits)

lemma tag_limits [simp]:
  "nsWorld (SetSafeTag env h n) = nsWorld n" "nsWorld (SetFinalizedTag env h n) = nsWorld n"
  by (simp_all add: SetSafeTag_def SetFinalizedTag_def split: sum.split)

lemma reset_limits [simp]: "limits (nsWorld (reset_limits n0 n)) = limits (nsWorld n0)"
  by (simp add: reset_limits_def set_limits_def limits_def SetMaxLayerToRetain_def SetPruningFrequency_def)

lemma turn_limits: "turn opts env src l l' \<Longrightarrow> limits (nsWorld (nlNode l')) = limits (nsWorld (nlNode l))"
  by (induction rule: turn.induct) (auto dest: backward_limits)

lemma reach_limits: "node_reach opts env l0 l \<Longrightarrow> limits (nsWorld (nlNode l)) = limits (nsWorld (nlNode l0))"
  by (induction rule: node_reach.induct)
    (auto dest: turn_limits simp: Pause_def Unpause_def ShutdownNode_def Let_def split: pause_fn.split)

text \<open>During forward sync the archive keeps one layer and prunes at every block.\<close>

lemma forward_limits:
  "fsreach env src target s0 s \<Longrightarrow> limits (nsWorld (fsNode s)) = limits (nsWorld (fsNode s0))"
proof (induction rule: fsreach.induct)
  case start
  show ?case by simp
next
  case (step s s')
  from step(2) have "limits (nsWorld (fsNode s')) = limits (nsWorld (fsNode s))"
    by (induction rule: fstep.induct) (auto dest: import_limits)
  then show ?case using step by simp
qed

subsection \<open>Where a sync goes\<close>

lemma forward_target:
  assumes "decide opts env src n = Forward target" and "ForwardSyncTargetGap opts \<le> ForwardSyncMinDistanceToStart opts"
    and "ForwardSyncTargetGap opts \<noteq> 0"
  shows "\<exists>localHead remoteHead. GetHead (neChain env) (nsChain n) = Inr localHead \<and> srcLatest src = Some remoteHead \<and>
    NumberU64 localHead < target \<and> target < NumberU64 remoteHead"
proof -
  obtain l r where h: "GetHead (neChain env) (nsChain n) = Inr l" "srcLatest src = Some r"
    "NumberU64 l < NumberU64 r" "ForwardSyncMinDistanceToStart opts < NumberU64 r - NumberU64 l"
    "target = NumberU64 r - ForwardSyncTargetGap opts"
    using assms(1) by (auto simp: decide_def Let_def not_le split: sum.splits option.splits if_splits bool.splits)
  define x y g d where d: "x = unat (NumberU64 l)" "y = unat (NumberU64 r)" "g = unat (ForwardSyncTargetGap opts)"
    "d = unat (ForwardSyncMinDistanceToStart opts)"
  have "x < y" "g \<le> d" "0 < g" using h(3) assms(2,3) by (simp_all add: d word_less_nat_alt word_le_nat_alt unat_gt_0)
  moreover have "d < y - x" using h(3,4) by (simp add: d word_less_nat_alt unat_sub word_le_nat_alt)
  ultimately have n: "g \<le> y" "x < y - g" "y - g < y" by linarith+
  then have "unat target = y - g" using h(5) by (simp add: d unat_sub word_le_nat_alt)
  then have "NumberU64 l < target" "target < NumberU64 r" using n by (simp_all add: d word_less_nat_alt)
  then show ?thesis using h by blast
qed

text \<open>(C28)
  The main loop with the options of a configuration: in every state that turns, pauses and
  resumptions can reach, with any block source and whatever syncs did or failed to do, the
  archive's limits are those it started with, although every forward sync sets them to 1; and
  a forward sync the loop starts there goes to a height above the local head and below the
  remote one, never to the largest 64-bit number.
\<close>

theorem node_loop_safe:
  assumes "NewConfig conf = Inr c" and "node_reach (opts_of c) env (NewNode n0) l"
  shows "maxLayerToRetain (nsWorld (nlNode l)) = maxLayerToRetain (nsWorld n0) \<and>
    pruningFrequency (nsWorld (nlNode l)) = pruningFrequency (nsWorld n0) \<and>
    (\<forall>src target. decide (opts_of c) env src (nlNode l) = Forward target \<longrightarrow> target \<noteq> - 1 \<and>
       (\<exists>localHead remoteHead. GetHead (neChain env) (nsChain (nlNode l)) = Inr localHead \<and>
          srcLatest src = Some remoteHead \<and> NumberU64 localHead < target \<and> target < NumberU64 remoteHead))"
proof -
  have o: "ForwardSyncTargetGap (opts_of c) \<le> ForwardSyncMinDistanceToStart (opts_of c)" "ForwardSyncTargetGap (opts_of c) \<noteq> 0"
    using new_config_cases(15,16) [OF assms(1)] by (simp_all add: opts_of_def)
  have "target \<noteq> - 1" if "target < x" for target x :: u64
    using that word_order.extremum_strict by blast
  then show ?thesis
    using reach_limits [OF assms(2)] forward_target [OF _ o] unfolding limits_def NewNode_def by fastforce
qed

text \<open>\<open>Pause\<close> before the first sync panics, and leaves the node paused.\<close>

lemma pause_panics: "Pause (NewNode n) = (Some NilHook, (NewNode n)\<lparr>nlPaused := True\<rparr>)"
  by (simp add: Pause_def NewNode_def)

end
