(* ===== verification/NodeDemo.thy ===== *)
theory NodeDemo
  imports BackendLaws ChainDemo
begin

section \<open>An example of a node\<close>

text \<open>
  A node whose head is block 2 (hash 202, state root 21), and block 3 on it, which transfers 1
  in each of two transactions. Importing it adds the block, attaches the layer 31, prunes the
  layer 11 and sets the head.
\<close>

definition node_block :: "hash \<Rightarrow> hash \<Rightarrow> u64 \<Rightarrow> hash \<Rightarrow> transaction list \<Rightarrow> block" where
  "node_block h p n root ts = \<lparr> bHash = h, bHeader = \<lparr> hParentHash = p, hNumber = n, hRoot = root,
     hGasUsed = 21000 * of_nat (length ts), hGasLimit = 50000, hBloom = [], hReceiptHash = 0, hTime = 0 \<rparr>,
     bTransactions = ts, bWithdrawals = [], bBeaconRoot = None \<rparr>"

definition node_chain :: "(bkey, bval) gmap blockchain" where
  "node_chain = \<lparr> bcDb =
     [(TailK, VTail 0), (HeadK, VHead 202), (ForkK 0, VForks [100, 100]), (ForkK 1, VForks [101, 101]),
      (ForkK 2, VForks [202, 202]), (BlockK 100, VBlock (node_block 100 0 0 10 [])),
      (BlockK 101, VBlock (node_block 101 100 1 11 [])), (BlockK 202, VBlock (node_block 202 101 2 21 []))],
     tail = 0, MaxBlockToRetain = 4, PruningFrequency = 1 \<rparr>"

definition node_demo :: "((bkey, bval) gmap, (dskey, dsval) gmap) node_state" where
  "node_demo = \<lparr> nsChain = node_chain, nsWorld = demo_world, blkProcessed = 0, txnProcessed = 0, gasProcessed = 0,
     chainHeadFeed = [] \<rparr>"

definition node_demo_env :: "((bkey, bval) gmap, (dskey, dsval) gmap, unit) node_env" where
  "node_demo_env = \<lparr> neChain = mem_bc, neLayers = demo_env,
     neProc = call_env\<lparr>peHash := hash7, peDAOForkSupport := False\<rparr>, neFuel = 5 \<rparr>"

definition block3 :: block where
  "block3 = node_block 303 202 3 31 (bTransactions call_block)"

lemma node_has: "has_block (map_of (bcDb node_chain)) h b =
  (h = 100 \<and> b = node_block 100 0 0 10 [] \<or> h = 101 \<and> b = node_block 101 100 1 11 [] \<or>
   h = 202 \<and> b = node_block 202 101 2 21 [])"
  by (auto simp: has_block_def node_chain_def)

lemma node_canon: "canon (map_of (bcDb node_chain)) i =
  (if i = 0 then Some 100 else if i = 1 then Some 101 else if i = 2 then Some 202 else None)"
  by (simp add: canon_def node_chain_def)

lemma u64_le_2: "(i :: u64) \<le> 2 \<longleftrightarrow> i = 0 \<or> i = 1 \<or> i = 2"
proof
  assume "i \<le> 2"
  then have "unat i \<le> 2" by (simp add: word_le_nat_alt)
  then consider "unat i = 0" | "unat i = 1" | "unat i = 2" by linarith
  then show "i = 0 \<or> i = 1 \<or> i = 2" by cases (simp_all add: word_unat_eq_iff)
qed auto

lemma node_chain_ok: "chain_ok (map_of (bcDb node_chain)) 0 202 2"
proof -
  have "blocks_ok (map_of (bcDb node_chain))" unfolding blocks_ok_def node_has
    by (auto simp: node_block_def node_chain_def split: if_splits)
  moreover have "forks_ok (map_of (bcDb node_chain))" unfolding forks_ok_def node_has
    by (auto simp: node_block_def node_chain_def split: if_splits)
  moreover have "linked (map_of (bcDb node_chain)) (map_of (bcDb node_chain)) 0 2"
    unfolding linked_def node_has node_canon u64_le_2 by (auto simp: node_block_def)
  moreover have "canon (map_of (bcDb node_chain)) i = None \<or> canon (map_of (bcDb node_chain)) i = Some 0" if "2 < i" for i
    using that unfolding node_canon by auto
  ultimately show ?thesis unfolding chain_ok_def node_canon by (auto simp: node_chain_def)
qed

lemma node_demo_ok: "node_ok map_of map_of node_demo"
  by (rule node_okI [of _ _ 202 2])
    (use node_chain_ok demo_world_ok demo_logs in \<open>simp_all add: node_demo_def\<close>, simp_all add: node_chain_def)

lemma node_demo_law: "node_law node_demo_env map_of map_of"
  using mem_bc_law bc_reliableD(6) [OF mem_bc_reliable] mem_reliable
  by (simp add: node_law_def node_demo_env_def)

abbreviation node_import :: "(imp_err + unit) \<times> ((bkey, bval) gmap, (dskey, dsval) gmap) node_state" where
  "node_import \<equiv> ImportBlock node_demo_env block3 None node_demo"

lemma node_import_ok: "\<not> isl (fst node_import)"
  by code_simp

lemma node_process: "\<not> isl (process_on node_demo_env block3 (node_block 202 101 2 21 []) node_demo)"
  by code_simp

lemma node_prev: "prev_block node_demo_env block3 None node_demo = Inr (node_block 202 101 2 21 [])"
  by code_simp

text \<open>The state that is committed, and that its layer fits.\<close>

abbreviation node_ms :: mutable_state where
  "node_ms \<equiv> fst (snd (snd (projr (process_on node_demo_env block3 (node_block 202 101 2 21 []) node_demo))))"

abbreviation node_path :: path where
  "node_path \<equiv> snd (snd (snd (projr (process_on node_demo_env block3 (node_block 202 101 2 21 []) node_demo))))"

abbreviation node_tc :: temp_committed where
  "node_tc \<equiv> sparent (snd (projr (IntermediateRoot hash7 5 True node_ms)))"

lemma node_path_eq: "node_path = [11, 21]"
  by code_simp

lemma node_log_distinct: "log_distinct (commit_log hash7 node_tc 3 31)"
  by code_simp

lemma node_prunes:
  "prunes_ok demo_env [11] (attach_new demo_env (commit_log hash7 node_tc 3 31) [11, 21] demo_world
     (projr (txnCommit mem_api (wDb demo_world) (commit_ops (commit_log hash7 node_tc 3 31)))))"
  by code_simp

lemma node_fits: "commit_fits demo_env demo_world node_path node_tc 3 31"
  unfolding commit_fits_def node_path_eq demo_env_simps
proof (intro conjI allI impI)
  show "log_distinct (commit_log hash7 node_tc 3 31)" by (rule node_log_distinct)
  fix db rs
  assume "txnCommit mem_api (wDb demo_world) (commit_ops (commit_log hash7 node_tc 3 31)) = Inr db"
    and "getToBePruned demo_world ([11, 21] @ [31]) = Inr rs"
  then have "db = projr (txnCommit mem_api (wDb demo_world) (commit_ops (commit_log hash7 node_tc 3 31)))" "rs = [11]"
    using demo_pruned by simp_all
  then show "prunes_ok demo_env rs (attach_new demo_env (commit_log hash7 node_tc 3 31) [11, 21] demo_world db)"
    using node_prunes by simp
qed

lemma node_block_fits: "block_fits node_demo_env map_of block3 None node_demo"
proof -
  have n: "numbered (map_of (bcDb (nsChain node_demo))) block3"
    unfolding numbered_def node_demo_def node_state.simps node_has by (auto simp: block3_def node_block_def)
  have f: "commit_fits (neLayers node_demo_env) (nsWorld node_demo) p (sparent s1) (NumberU64 block3) (hRoot (bHeader block3))"
    if "prev_block node_demo_env block3 None node_demo = Inr b"
      "process_on node_demo_env block3 b node_demo = Inr (receipts, gasUsed, ms, p)"
      "IntermediateRoot (leHash (neLayers node_demo_env)) (peEmptyRoot (neProc node_demo_env))
         (peEIP158 (neProc node_demo_env) (NumberU64 block3)) ms = Inr (root, s1)" for b receipts gasUsed ms p root s1
  proof -
    have e: "neLayers node_demo_env = demo_env" "nsWorld node_demo = demo_world" "NumberU64 block3 = 3" "hRoot (bHeader block3) = 31"
      "peEmptyRoot (neProc node_demo_env) = 5" "peEIP158 (neProc node_demo_env) 3 = True"
      by (simp_all add: node_demo_env_def node_demo_def block3_def node_block_def call_env_def)
    have b: "b = node_block 202 101 2 21 []" using that(1) node_prev by simp
    have "ms = node_ms" "p = node_path" using that(2) unfolding b by simp_all
    moreover have "s1 = snd (projr (IntermediateRoot hash7 5 True ms))" using that(3) unfolding e by simp
    ultimately show ?thesis unfolding e using node_fits by simp
  qed
  show ?thesis unfolding block_fits_def using n f by blast
qed


subsection \<open>Backward sync to block 3\<close>

lemma node_has_block: "HasBlock (neChain node_demo_env) (nsChain node_demo) h = Inr (map_of node_db (BlockK h) \<noteq> None)"
  if "node_db = bcDb (nsChain node_demo)"
  using that by (simp add: HasBlock_def node_demo_env_def mem_bc_def mhas_def)

text \<open>A block 4 on block 3, which only the source has, on block 202, which is known.\<close>

theorem backward_sync_branch_witness:
  "BackwardSync node_demo_env [303 \<mapsto> block3] (node_block 404 303 4 41 []) 8 node_demo =
     ImportBlocks node_demo_env [block3, node_block 404 303 4 41 []] node_demo"
proof -
  have b: "branch (map_of (bcDb (nsChain node_demo))) [303 \<mapsto> block3] (ParentHash (node_block 404 303 4 41 [])) [block3]"
    "length [block3] \<le> unat (8 :: u64)"
    by (simp_all add: node_demo_def node_chain_def block3_def node_block_def)
  have r: "rev [block3] @ [node_block 404 303 4 41 []] = [block3, node_block 404 303 4 41 []]" by simp
  from backward_sync_branch [where f = "map_of (bcDb (nsChain node_demo))" and env = node_demo_env and s = node_demo,
      OF node_has_block [OF refl], of "[303 \<mapsto> block3]" "node_block 404 303 4 41 []" 8] b
  have "BackwardSync node_demo_env [303 \<mapsto> block3] (node_block 404 303 4 41 []) 8 node_demo =
     ImportBlocks node_demo_env (rev [block3] @ [node_block 404 303 4 41 []]) node_demo" by blast
  then show ?thesis unfolding r .
qed


subsection \<open>A failed commit\<close>

text \<open>
  The block store is written before the world state. When the state store fails in between,
  the import reports the error, but the block is stored: the same import is then reported as a
  success at once, although the state of the block is missing, and no child can be processed.
\<close>

definition failing_env :: "((bkey, bval) gmap, (dskey, dsval) gmap, unit) node_env" where
  "failing_env = node_demo_env\<lparr>neLayers := demo_env\<lparr>leApi := mem_api\<lparr>dsBatch := (\<lambda>db. Some ErrDatastore)\<rparr>\<rparr>\<rparr>"

abbreviation failed_import :: "((bkey, bval) gmap, (dskey, dsval) gmap) node_state" where
  "failed_import \<equiv> snd (ImportBlock failing_env block3 None node_demo)"

lemma failed_import_error: "fst (ImportBlock failing_env block3 None node_demo) = Inl (ICommit ErrDatastore)"
  by code_simp

lemma failed_import_known: "HasBlock (neChain node_demo_env) (nsChain failed_import) (bHash block3) = Inr True"
  by code_simp

lemma failed_import_state: "\<not> Has 3 31 (wStates (nsWorld failed_import))"
  by code_simp

lemma import_not_atomic:
  "fst (ImportBlock failing_env block3 None node_demo) = Inl (ICommit ErrDatastore) \<and>
   ImportBlock node_demo_env block3 None failed_import = (Inr (), failed_import) \<and>
   \<not> Has 3 31 (wStates (nsWorld failed_import))"
proof (intro conjI)
  show "ImportBlock node_demo_env block3 None failed_import = (Inr (), failed_import)"
    by (rule import_known [OF failed_import_known])
qed (fact failed_import_error failed_import_state)+

end
