(* ===== verification/ForwardDemo.thy ===== *)
theory ForwardDemo
  imports ForwardSync NodeDemo
begin

section \<open>An example of forward sync\<close>

text \<open>
  The node with head 2 syncs to height 3 from a source that has a block at every height: the
  one at height 3 is fetched, sent, imported, and the target is reached.
\<close>

definition demo_source :: "int \<Rightarrow> block option" where
  "demo_source j = Some (node_block 303 202 (word_of_int j) 31 (bTransactions call_block))"

lemma demo_source_honest: "\<exists>b. demo_source (sint i) = Some b \<and> NumberU64 b = i"
  by (simp add: demo_source_def node_block_def)

lemma demo_source_3: "demo_source 3 = Some block3"
  by (simp add: demo_source_def block3_def)

definition fwd_start :: "((bkey, bval) gmap, (dskey, dsval) gmap) fsync" where
  "fwd_start = projr (fsStart node_demo_env node_demo)"

lemma fwd_start_ok: "\<not> isl (fsStart node_demo_env node_demo)"
  by code_simp

lemma fwd_start: "fsStart node_demo_env node_demo = Inr fwd_start"
  unfolding fwd_start_def by (rule not_isl [OF fwd_start_ok])

lemma fwd_start_simps: "fsPrv fwd_start = node_block 202 101 2 21 []" "fsFetch fwd_start = Fetching 3" "fsBlks fwd_start = []"
  "fsCancelled fwd_start = False" "fsResult fwd_start = None" "fsNode fwd_start = node_demo"
  by code_simp+

abbreviation fwd_import :: "(imp_err + unit) \<times> ((bkey, bval) gmap, (dskey, dsval) gmap) node_state" where
  "fwd_import \<equiv> ImportBlock node_demo_env block3 (Some (node_block 202 101 2 21 [])) node_demo"

lemma fwd_import_ok: "\<not> isl (fst fwd_import)"
  by code_simp

lemma fwd_import: "fwd_import = (Inr (), snd fwd_import)"
  using not_isl [OF fwd_import_ok] by (simp add: prod_eq_iff)

text \<open>Fetch, send, import, return.\<close>

definition fwd_sent :: "((bkey, bval) gmap, (dskey, dsval) gmap) fsync" where
  "fwd_sent = fwd_start\<lparr>fsFetch := Fetching 4, fsBlks := [block3]\<rparr>"

definition fwd_end :: "((bkey, bval) gmap, (dskey, dsval) gmap) fsync" where
  "fwd_end = fwd_sent\<lparr>fsBlks := [], fsPrv := block3, fsNode := snd fwd_import, fsResult := Some (Inr ())\<rparr>"

lemma fwd_reach: "fsreach node_demo_env demo_source 3 fwd_start fwd_end"
proof -
  let ?s1 = "fwd_start\<lparr>fsFetch := Sending block3 3\<rparr>"
  let ?s2 = "?s1\<lparr>fsFetch := Fetching (3 + 1), fsBlks := fsBlks ?s1 @ [block3]\<rparr>"
  let ?s3 = "?s2\<lparr>fsBlks := [], fsPrv := block3, fsNode := snd fwd_import\<rparr>"
  have n: "NumberU64 (node_block 202 101 2 21 []) = 2" "NumberU64 block3 = 3" by (simp_all add: node_block_def block3_def)
  have "fsreach node_demo_env demo_source 3 fwd_start ?s1"
    by (rule fsreach.step [OF fsreach.start], rule fetch_block [OF fwd_start_simps(2)]) (simp_all add: fwd_start_simps demo_source_3)
  then have "fsreach node_demo_env demo_source 3 fwd_start ?s2"
    by (rule fsreach.step) (rule send, simp_all add: fwd_start_simps)
  then have "fsreach node_demo_env demo_source 3 fwd_start ?s3"
    by (rule fsreach.step) (rule import_block [where b = block3 and bs = "[]"], simp_all add: fwd_start_simps n fwd_import [symmetric])
  then have "fsreach node_demo_env demo_source 3 fwd_start (?s3\<lparr>fsResult := Some (Inr ())\<rparr>)"
    by (rule fsreach.step) (rule reached, simp_all add: fwd_start_simps n)
  moreover have "?s3\<lparr>fsResult := Some (Inr ())\<rparr> = fwd_end" by (simp add: fwd_end_def fwd_sent_def fwd_start_simps)
  ultimately show ?thesis by simp
qed


theorem forward_sync_in_order_witness:
  "\<exists>k m. k \<le> m \<and> fsBlks fwd_end = fetched demo_source (fsPrv fwd_start) k m \<and>
     import_from node_demo_env (Some (fsPrv fwd_start)) (fetched demo_source (fsPrv fwd_start) 0 k) node_demo = (Inr (), fsNode fwd_end)"
proof -
  have "fsResult fwd_end \<noteq> Some (Inl (FImport e))" for e by (simp add: fwd_end_def)
  with forward_sync_in_order [OF fwd_start fwd_reach] show ?thesis by blast
qed

theorem forward_sync_complete_witness: "NumberU64 (fsPrv fwd_end) = 3"
proof -
  have "fsResult fwd_end = Some (Inr ())" "\<not> fsCancelled fwd_end" "NumberU64 (fsPrv fwd_start) < 3"
    by (simp_all add: fwd_end_def fwd_sent_def fwd_start_simps node_block_def)
  with forward_sync_complete [OF fwd_start fwd_reach _ _ demo_source_honest] show ?thesis by blast
qed

end
