(* ===== verification/NodeLoopDemo.thy ===== *)
theory NodeLoopDemo
  imports NodeLoop ForwardDemo
begin

section \<open>An example of the main loop\<close>

text \<open>
  The node with head 2 and the default configuration sees block 3 and syncs backward; then it
  is paused.
\<close>

definition loop_conf :: config where
  "loop_conf = DefaultConfig\<lparr>Path := ''/root/$HOME/.teler''\<rparr>"

definition loop_source :: block_source where
  "loop_source = \<lparr> srcLatest = Some block3, srcSafe = Some 101, srcFinalized = Some 100,
     srcByHash = (\<lambda>h. None), srcByNumber = demo_source \<rparr>"

definition loop_next :: "((bkey, bval) gmap, (dskey, dsval) gmap) node_loop" where
  "loop_next = (NewNode node_demo)\<lparr>nlPause := CancelFunc,
     nlNode := snd (BackwardSync node_demo_env (srcByHash loop_source) block3 (BackwardSyncMaxBlocksToQuery (opts_of loop_conf)) node_demo)\<rparr>"

lemma loop_decide: "decide (opts_of loop_conf) node_demo_env loop_source node_demo = Backward block3"
  by code_simp

lemma loop_synced: "map_sum id bHash (GetHead (neChain node_demo_env) (nsChain (nlNode loop_next))) = Inr 303"
  by code_simp

lemma loop_turn: "turn (opts_of loop_conf) node_demo_env loop_source (NewNode node_demo) loop_next"
proof -
  obtain r n where x: "BackwardSync node_demo_env (srcByHash loop_source) block3
      (BackwardSyncMaxBlocksToQuery (opts_of loop_conf)) node_demo = (r, n)" by (rule prod.exhaust)
  have n: "nlNode (NewNode node_demo) = node_demo" "\<not> nlCancelled (NewNode node_demo)" "\<not> nlPaused (NewNode node_demo)"
    by (simp_all add: NewNode_def)
  show ?thesis unfolding loop_next_def x snd_conv
    by (rule turn_backward [where b = block3 and r = r]) (simp_all only: n loop_decide x not_False_eq_True)
qed

theorem node_loop_safe_witness:
  "maxLayerToRetain (nsWorld (nlNode (snd (Pause loop_next)))) = maxLayerToRetain (nsWorld node_demo) \<and>
   map_sum id bHash (GetHead (neChain node_demo_env) (nsChain (nlNode (snd (Pause loop_next))))) = Inr 303"
proof -
  have c: "NewConfig empty_src = Inr loop_conf" unfolding loop_conf_def by (rule default_path)
  have "node_reach (opts_of loop_conf) node_demo_env (NewNode node_demo) (snd (Pause loop_next))"
    by (rule node_pause, rule node_turn [OF node_start _ loop_turn]) (simp add: NewNode_def)
  note s = node_loop_safe [OF c this]
  have "nlNode (snd (Pause loop_next)) = nlNode loop_next" by (simp add: Pause_def Let_def split: pause_fn.split)
  then show ?thesis using s loop_synced by simp
qed

end
