(* ===== verification/Keys.thy ===== *)
theory Keys
  imports GoStrings StateStore Blockchain
begin

section \<open>The keys of the datastore\<close>

text \<open>
  The key functions of \<open>statestore/utils.go\<close>, \<open>blockchain/utils.go\<close> and \<open>types/utils.go\<close>,
  which build a string from a height, a hash or an address, and the functions that take one
  apart again. They justify the constructors \<open>dskey\<close> and \<open>bkey\<close> and the pair \<open>storage_key\<close>
  that the other theories use: different keys are different strings, and the split functions
  invert the functions that build. The conversions of go-ethereum's \<open>Hash\<close> and \<open>Address\<close> and
  \<open>datastore.NewKey\<close> are parameters.
\<close>

record go_lib =
  hashBytes :: "hash \<Rightarrow> bytes"
  hashOf :: "bytes \<Rightarrow> hash"
  hashHex :: "hash \<Rightarrow> string"
  addrBytes :: "address \<Rightarrow> bytes"
  addrOf :: "bytes \<Rightarrow> address"
  addrHex :: "address \<Rightarrow> string"
  hexToAddr :: "string \<Rightarrow> address"
  newKey :: "string \<Rightarrow> string"

definition hex_chars :: string where
  "hex_chars = ''0123456789abcdefABCDEFx''"

text \<open>\<open>NewKey\<close> cleans a path: one without dots and empty components just gets a slash in front.\<close>

definition clean :: "string \<Rightarrow> bool" where
  "clean s = (CHR ''.'' \<notin> set s \<and> [] \<notin> set (split_at (CHR ''/'') s))"

definition lib_law :: "go_lib \<Rightarrow> bool" where
  "lib_law L =
     ((\<forall>h. hashOf L (hashBytes L h) = h \<and> length (hashBytes L h) = 32) \<and>
      (\<forall>a. addrOf L (addrBytes L a) = a \<and> length (addrBytes L a) = 20) \<and>
      (\<forall>h. hashHex L h \<noteq> [] \<and> set (hashHex L h) \<subseteq> set hex_chars) \<and> inj (hashHex L) \<and>
      (\<forall>a. hexToAddr L (addrHex L a) = a \<and> set (addrHex L a) \<subseteq> set hex_chars) \<and>
      (\<forall>s. clean s \<longrightarrow> newKey L s = CHR ''/'' # s))"

lemma lib_lawD:
  assumes "lib_law L"
  shows "hashOf L (hashBytes L h) = h" "length (hashBytes L h) = 32" "addrOf L (addrBytes L a) = a"
    "length (addrBytes L a) = 20" "hashHex L h \<noteq> []" "set (hashHex L h) \<subseteq> set hex_chars" "inj (hashHex L)"
    "hexToAddr L (addrHex L a) = a" "set (addrHex L a) \<subseteq> set hex_chars" "clean s \<Longrightarrow> newKey L s = CHR ''/'' # s"
  using assms unfolding lib_law_def by blast+

subsection \<open>Key functions of the state store\<close>

definition persistedHeightKey :: "go_lib \<Rightarrow> string" where
  "persistedHeightKey L = newKey L ''p''"

definition getChildrenKey :: "go_lib \<Rightarrow> u64 \<Rightarrow> hash \<Rightarrow> string" where
  "getChildrenKey L height root =
     newKey L (''d'' @ ''/'' @ FormatUint height @ ''/'' @ EncodeToString (hashBytes L root))"

definition getLayerLogKey :: "go_lib \<Rightarrow> u64 \<Rightarrow> hash \<Rightarrow> string" where
  "getLayerLogKey L height root =
     newKey L (''l'' @ ''/'' @ FormatUint height @ ''/'' @ EncodeToString (hashBytes L root))"

definition getAccountValueKey :: "go_lib \<Rightarrow> address \<Rightarrow> string" where
  "getAccountValueKey L ad = newKey L (''a'' @ ''/'' @ EncodeToString (addrBytes L ad))"

definition getAccountVersionKey :: "go_lib \<Rightarrow> address \<Rightarrow> string" where
  "getAccountVersionKey L ad = newKey L (''v'' @ ''/'' @ EncodeToString (addrBytes L ad))"

definition getStorageKey :: "go_lib \<Rightarrow> address \<Rightarrow> u64 \<Rightarrow> hash \<Rightarrow> string" where
  "getStorageKey L ad ver key =
     newKey L (''s'' @ ''/'' @ EncodeToString (addrBytes L ad) @ ''/'' @ FormatUint ver @ ''/'' @
       EncodeToString (hashBytes L key))"

definition getCodeKey :: "go_lib \<Rightarrow> hash \<Rightarrow> string" where
  "getCodeKey L h = newKey L (''c'' @ ''/'' @ EncodeToString (hashBytes L h))"

definition getGCKey :: "go_lib \<Rightarrow> address \<Rightarrow> u64 \<Rightarrow> string" where
  "getGCKey L ad ver =
     newKey L (''g'' @ ''/'' @ EncodeToString (addrBytes L ad) @ ''/'' @ FormatUint ver)"

text \<open>Splitting; \<open>None\<close> is the index panic on a string with too few components.\<close>

definition splitStorageKey :: "go_lib \<Rightarrow> string \<Rightarrow> (address \<times> u64 \<times> hash) option" where
  "splitStorageKey L key =
     (case split_at (CHR ''/'') key of
        t0 # t1 # t2 # t3 # ts \<Rightarrow>
          Some (addrOf L (DecodeString t1), ParseUint t2, hashOf L (DecodeString t3))
      | _ \<Rightarrow> None)"

definition splitGCKey :: "go_lib \<Rightarrow> string \<Rightarrow> (address \<times> u64) option" where
  "splitGCKey L key =
     (case split_at (CHR ''/'') key of
        t0 # t1 # t2 # ts \<Rightarrow> Some (addrOf L (DecodeString t1), ParseUint t2)
      | _ \<Rightarrow> None)"

definition dskey_string :: "go_lib \<Rightarrow> dskey \<Rightarrow> string" where
  "dskey_string L k =
     (case k of
        KPersisted \<Rightarrow> persistedHeightKey L
      | KChildren h r \<Rightarrow> getChildrenKey L h r
      | KLayerLog h r \<Rightarrow> getLayerLogKey L h r
      | KAccount a \<Rightarrow> getAccountValueKey L a
      | KVersion a \<Rightarrow> getAccountVersionKey L a
      | KStorage a v s \<Rightarrow> getStorageKey L a v s
      | KCode h \<Rightarrow> getCodeKey L h
      | KGC a v \<Rightarrow> getGCKey L a v)"

subsection \<open>Key functions of the block store\<close>

definition getBlockKey :: "go_lib \<Rightarrow> hash \<Rightarrow> string" where
  "getBlockKey L h = newKey L (''block'' @ ''/'' @ hashHex L h)"

definition getTransactionKey :: "go_lib \<Rightarrow> hash \<Rightarrow> string" where
  "getTransactionKey L h = newKey L (''txn'' @ ''/'' @ hashHex L h)"

definition getReceiptKey :: "go_lib \<Rightarrow> hash \<Rightarrow> string" where
  "getReceiptKey L h = newKey L (''receipt'' @ ''/'' @ hashHex L h)"

definition getForkKey :: "go_lib \<Rightarrow> u64 \<Rightarrow> string" where
  "getForkKey L height = newKey L (''fork'' @ ''/'' @ FormatUint height)"

definition getTailKey :: "go_lib \<Rightarrow> string" where "getTailKey L = newKey L ''tail''"
definition getHeadKey :: "go_lib \<Rightarrow> string" where "getHeadKey L = newKey L ''head''"
definition getFinalizedKey :: "go_lib \<Rightarrow> string" where "getFinalizedKey L = newKey L ''finalized''"
definition getSafeKey :: "go_lib \<Rightarrow> string" where "getSafeKey L = newKey L ''safe''"

definition bkey_string :: "go_lib \<Rightarrow> bkey \<Rightarrow> string" where
  "bkey_string L k =
     (case k of
        BlockK h \<Rightarrow> getBlockKey L h
      | TxK h \<Rightarrow> getTransactionKey L h
      | ReceiptK h \<Rightarrow> getReceiptKey L h
      | ForkK i \<Rightarrow> getForkKey L i
      | TailK \<Rightarrow> getTailKey L
      | HeadK \<Rightarrow> getHeadKey L
      | FinalizedK \<Rightarrow> getFinalizedKey L
      | SafeK \<Rightarrow> getSafeKey L)"

subsection \<open>Storage keys of a layer log\<close>

definition GetAccountStorageKey :: "go_lib \<Rightarrow> address \<Rightarrow> u64 \<Rightarrow> string" where
  "GetAccountStorageKey L ad ver = addrHex L ad @ ''-'' @ FormatUint ver"

definition SplitAccountStorageKey :: "go_lib \<Rightarrow> string \<Rightarrow> (address \<times> u64) option" where
  "SplitAccountStorageKey L key =
     (case split_at (CHR ''-'') key of
        t0 # t1 # ts \<Rightarrow> Some (hexToAddr L t0, ParseUint t1)
      | _ \<Rightarrow> None)"

subsection \<open>Nothing is lost\<close>

lemma FormatUint_char: "digit_value c = None \<Longrightarrow> c \<notin> set (FormatUint n)"
  using digits_ok [of c "unat n"] by (auto simp: FormatUint_def)

lemma FormatUint_chars [simp]:
  "CHR ''/'' \<notin> set (FormatUint n)" "CHR ''.'' \<notin> set (FormatUint n)" "CHR ''-'' \<notin> set (FormatUint n)" "FormatUint n \<noteq> []"
  by (rule FormatUint_char; simp add: digit_value_def)+ (simp add: FormatUint_def)

lemma EncodeToString_clean [simp]: "CHR ''/'' \<notin> set (EncodeToString bs)" "CHR ''.'' \<notin> set (EncodeToString bs)"
  using EncodeToString_chars by blast+

lemma EncodeToString_Nil [simp]: "EncodeToString bs = [] \<longleftrightarrow> bs = []"
  by (cases bs rule: EncodeToString.cases) (simp_all add: Let_def)

lemma hex_clean: "CHR ''/'' \<notin> set hex_chars" "CHR ''.'' \<notin> set hex_chars" "CHR ''-'' \<notin> set hex_chars"
  by (simp_all add: hex_chars_def)

lemma lib_chars:
  assumes "lib_law L"
  shows "CHR ''/'' \<notin> set (hashHex L h)" "CHR ''.'' \<notin> set (hashHex L h)" "CHR ''-'' \<notin> set (addrHex L a)"
    "hashBytes L h \<noteq> []" "addrBytes L a \<noteq> []"
proof -
  show "CHR ''/'' \<notin> set (hashHex L h)" "CHR ''.'' \<notin> set (hashHex L h)" "CHR ''-'' \<notin> set (addrHex L a)"
    using lib_lawD(6,9) [OF assms] hex_clean by blast+
  have "length (hashBytes L h) > 0" "length (addrBytes L a) > 0" by (simp_all add: lib_lawD(2,4) [OF assms])
  then show "hashBytes L h \<noteq> []" "addrBytes L a \<noteq> []" by simp_all
qed

text \<open>A key is its components, joined with slashes.\<close>

fun join :: "string list \<Rightarrow> string" where
  "join [] = []"
| "join [x] = x"
| "join (x # xs) = x @ CHR ''/'' # join xs"

definition component :: "string \<Rightarrow> bool" where
  "component p = (p \<noteq> [] \<and> CHR ''/'' \<notin> set p \<and> CHR ''.'' \<notin> set p)"

lemma split_join: "ps \<noteq> [] \<Longrightarrow> \<forall>p\<in>set ps. component p \<Longrightarrow> split_at (CHR ''/'') (join ps) = ps"
  by (induction ps rule: join.induct) (simp_all add: component_def)

lemma join_dots: "\<forall>p\<in>set ps. component p \<Longrightarrow> CHR ''.'' \<notin> set (join ps)"
  by (induction ps rule: join.induct) (simp_all add: component_def)

lemma clean_join: "ps \<noteq> [] \<Longrightarrow> \<forall>p\<in>set ps. component p \<Longrightarrow> clean (join ps)"
  unfolding clean_def by (simp add: split_join join_dots) (auto simp: component_def)

definition dskey_parts :: "go_lib \<Rightarrow> dskey \<Rightarrow> string list" where
  "dskey_parts L k =
     (case k of
        KPersisted \<Rightarrow> [''p'']
      | KChildren h r \<Rightarrow> [''d'', FormatUint h, EncodeToString (hashBytes L r)]
      | KLayerLog h r \<Rightarrow> [''l'', FormatUint h, EncodeToString (hashBytes L r)]
      | KAccount a \<Rightarrow> [''a'', EncodeToString (addrBytes L a)]
      | KVersion a \<Rightarrow> [''v'', EncodeToString (addrBytes L a)]
      | KStorage a v s \<Rightarrow> [''s'', EncodeToString (addrBytes L a), FormatUint v, EncodeToString (hashBytes L s)]
      | KCode h \<Rightarrow> [''c'', EncodeToString (hashBytes L h)]
      | KGC a v \<Rightarrow> [''g'', EncodeToString (addrBytes L a), FormatUint v])"

lemmas key_defs = persistedHeightKey_def getChildrenKey_def getLayerLogKey_def getAccountValueKey_def
  getAccountVersionKey_def getStorageKey_def getCodeKey_def getGCKey_def
  getBlockKey_def getTransactionKey_def getReceiptKey_def getForkKey_def getTailKey_def getHeadKey_def
  getFinalizedKey_def getSafeKey_def

lemma component_simps [simp]:
  "component (FormatUint n)" "component (EncodeToString bs) = (bs \<noteq> [])"
  by (simp_all add: component_def)

lemma dskey_components: "lib_law L \<Longrightarrow> dskey_parts L k \<noteq> [] \<and> (\<forall>p\<in>set (dskey_parts L k). component p)"
  by (cases k) (simp_all add: dskey_parts_def lib_chars, simp_all add: component_def)

lemma dskey_join: "dskey_string L k = newKey L (join (dskey_parts L k))"
  by (cases k) (simp_all add: dskey_string_def dskey_parts_def key_defs)

lemma dskey_split:
  assumes "lib_law L"
  shows "dskey_string L k = CHR ''/'' # join (dskey_parts L k)" "split_at (CHR ''/'') (join (dskey_parts L k)) = dskey_parts L k"
  using dskey_components [OF assms, of k] lib_lawD(10) [OF assms clean_join] by (simp_all add: dskey_join split_join)

lemma dskey_parts_inj:
  assumes "lib_law L"
  shows "dskey_parts L k = dskey_parts L k' \<Longrightarrow> k = k'"
proof -
  have h: "hashBytes L x = hashBytes L y \<longleftrightarrow> x = y" for x y by (metis lib_lawD(1) [OF assms])
  have a: "addrBytes L x = addrBytes L y \<longleftrightarrow> x = y" for x y by (metis lib_lawD(3) [OF assms])
  assume "dskey_parts L k = dskey_parts L k'"
  then show "k = k'"
    by (cases k; cases k') (simp_all add: dskey_parts_def decimal.enc_eq base64.enc_eq h a)
qed

text \<open>(C33)
  The keys of the state store lose nothing: two different keys are different strings, and the
  functions that split the key of a slot or of an entry queued for collection give back the
  address, the version and the slot it was built from.
\<close>

theorem store_keys_roundtrip:
  assumes "lib_law L"
  shows "inj (dskey_string L) \<and>
    splitStorageKey L (tl (getStorageKey L ad ver key)) = Some (ad, ver, key) \<and>
    splitGCKey L (tl (getGCKey L ad ver)) = Some (ad, ver)"
proof (intro conjI)
  show "inj (dskey_string L)"
  proof (rule injI)
    fix k k' assume "dskey_string L k = dskey_string L k'"
    then have "join (dskey_parts L k) = join (dskey_parts L k')" by (simp add: dskey_split(1) [OF assms])
    then have "split_at (CHR ''/'') (join (dskey_parts L k)) = split_at (CHR ''/'') (join (dskey_parts L k'))" by (rule arg_cong)
    then have "dskey_parts L k = dskey_parts L k'" unfolding dskey_split(2) [OF assms] .
    then show "k = k'" by (rule dskey_parts_inj [OF assms])
  qed
  have "split_at (CHR ''/'') (tl (dskey_string L (KStorage ad ver key))) = dskey_parts L (KStorage ad ver key)"
    by (simp only: dskey_split [OF assms] list.sel)
  then show "splitStorageKey L (tl (getStorageKey L ad ver key)) = Some (ad, ver, key)"
    by (simp add: splitStorageKey_def dskey_string_def dskey_parts_def base64.dec_enc decimal.dec_enc lib_lawD(1,3) [OF assms])
  have "split_at (CHR ''/'') (tl (dskey_string L (KGC ad ver))) = dskey_parts L (KGC ad ver)"
    by (simp only: dskey_split [OF assms] list.sel)
  then show "splitGCKey L (tl (getGCKey L ad ver)) = Some (ad, ver)"
    by (simp add: splitGCKey_def dskey_string_def dskey_parts_def base64.dec_enc decimal.dec_enc lib_lawD(1,3) [OF assms])
qed

definition bkey_parts :: "go_lib \<Rightarrow> bkey \<Rightarrow> string list" where
  "bkey_parts L k =
     (case k of
        BlockK h \<Rightarrow> [''block'', hashHex L h]
      | TxK h \<Rightarrow> [''txn'', hashHex L h]
      | ReceiptK h \<Rightarrow> [''receipt'', hashHex L h]
      | ForkK i \<Rightarrow> [''fork'', FormatUint i]
      | TailK \<Rightarrow> [''tail'']
      | HeadK \<Rightarrow> [''head'']
      | FinalizedK \<Rightarrow> [''finalized'']
      | SafeK \<Rightarrow> [''safe''])"

lemma bkey_components: "lib_law L \<Longrightarrow> bkey_parts L k \<noteq> [] \<and> (\<forall>p\<in>set (bkey_parts L k). component p)"
  by (cases k) (simp_all add: bkey_parts_def, simp_all add: component_def lib_chars lib_lawD(5))

lemma bkey_join: "bkey_string L k = newKey L (join (bkey_parts L k))"
  by (cases k) (simp_all add: bkey_string_def bkey_parts_def key_defs)

lemma bkey_split:
  assumes "lib_law L"
  shows "bkey_string L k = CHR ''/'' # join (bkey_parts L k)" "split_at (CHR ''/'') (join (bkey_parts L k)) = bkey_parts L k"
  using bkey_components [OF assms, of k] lib_lawD(10) [OF assms clean_join] by (simp_all add: bkey_join split_join)

text \<open>The keys of the block store lose nothing: two different keys are different strings.
\<close>

theorem chain_keys_injective:
  assumes "lib_law L"
  shows "inj (bkey_string L)"
proof (rule injI)
  fix k k' assume "bkey_string L k = bkey_string L k'"
  then have "join (bkey_parts L k) = join (bkey_parts L k')" by (simp add: bkey_split(1) [OF assms])
  then have "split_at (CHR ''/'') (join (bkey_parts L k)) = split_at (CHR ''/'') (join (bkey_parts L k'))" by (rule arg_cong)
  then have e: "bkey_parts L k = bkey_parts L k'" unfolding bkey_split(2) [OF assms] .
  have h: "hashHex L x = hashHex L y \<longleftrightarrow> x = y" for x y using lib_lawD(7) [OF assms] by (rule inj_eq)
  from e show "k = k'" by (cases k; cases k') (simp_all add: bkey_parts_def decimal.enc_eq h)
qed

lemma account_storage_key:
  assumes "lib_law L"
  shows "SplitAccountStorageKey L (GetAccountStorageKey L ad ver) = Some (ad, ver) \<and>
    (GetAccountStorageKey L ad ver = GetAccountStorageKey L ad' ver' \<longrightarrow> ad = ad' \<and> ver = ver')"
proof -
  have s: "SplitAccountStorageKey L (GetAccountStorageKey L a v) = Some (a, v)" for a v
    by (simp add: SplitAccountStorageKey_def GetAccountStorageKey_def lib_chars(3) [OF assms] lib_lawD(8) [OF assms] decimal.dec_enc)
  have "Some (ad, ver) = Some (ad', ver')" if e: "GetAccountStorageKey L ad ver = GetAccountStorageKey L ad' ver'"
    unfolding s [symmetric] e ..
  with s [of ad ver] show ?thesis by simp
qed

text \<open>The storage key of an account in a layer log splits into the address and the version it was
  built from, so no two accounts or versions share an entry.
\<close>

theorem account_storage_key_roundtrip:
  assumes "lib_law L"
  shows "SplitAccountStorageKey L (GetAccountStorageKey L ad ver) = Some (ad, ver) \<and>
    (GetAccountStorageKey L ad ver = GetAccountStorageKey L ad' ver' \<longrightarrow> ad = ad' \<and> ver = ver')"
  by (rule account_storage_key [OF assms])

subsection \<open>A library that keeps its promises\<close>

text \<open>Big-endian bytes, lower-case hexadecimal digits, a slash in front.\<close>

fun hex_digits :: "nat \<Rightarrow> nat \<Rightarrow> string" where
  "hex_digits 0 k = []"
| "hex_digits (Suc n) k = hex_digits n (k div 16) @ [hex_chars ! (k mod 16)]"

fun hex_value :: "nat \<Rightarrow> string \<Rightarrow> nat" where
  "hex_value n [] = n"
| "hex_value n (c # cs) = hex_value (16 * n + (case map_of (zip (take 16 hex_chars) [0..<16]) c of Some d \<Rightarrow> d | None \<Rightarrow> 0)) cs"

definition demo_lib :: go_lib where
  "demo_lib = \<lparr> hashBytes = (\<lambda>h. rev (le_bytes 32 (unat h))), hashOf = (\<lambda>bs. of_nat (le_nat (rev bs))),
     hashHex = (\<lambda>h. ''0x'' @ hex_digits 64 (unat h)), addrBytes = (\<lambda>a. rev (le_bytes 20 (unat a))),
     addrOf = (\<lambda>bs. of_nat (le_nat (rev bs))), addrHex = (\<lambda>a. ''0x'' @ hex_digits 40 (unat a)),
     hexToAddr = (\<lambda>s. of_nat (hex_value 0 (drop 2 s))), newKey = (\<lambda>s. CHR ''/'' # s) \<rparr>"

lemma hex_all: "\<forall>i\<in>set [0..<16]. map_of (zip (take 16 hex_chars) [0..<16]) (hex_chars ! i) = Some i \<and>
    hex_chars ! i \<in> set hex_chars"
  by code_simp

lemma hex_char [simp]: "map_of (zip (take 16 hex_chars) [0..<16]) (hex_chars ! (k mod 16)) = Some (k mod 16)"
  "hex_chars ! (k mod 16) \<in> set hex_chars"
  using hex_all by simp_all

lemma hex_digits_set: "set (hex_digits n k) \<subseteq> set hex_chars"
  by (induction n arbitrary: k) simp_all

lemma hex_value_app: "hex_value m (cs @ [c]) =
    16 * hex_value m cs + (case map_of (zip (take 16 hex_chars) [0..<16]) c of Some d \<Rightarrow> d | None \<Rightarrow> 0)"
  by (induction cs arbitrary: m) simp_all

lemma hex_roundtrip: "hex_value 0 (hex_digits n k) = k mod 16 ^ n"
proof (induction n arbitrary: k)
  case 0
  then show ?case by simp
next
  case (Suc n)
  have "k mod 16 ^ Suc n = k mod 16 + 16 * (k div 16 mod 16 ^ n)" by (simp add: mod_mult2_eq add.commute)
  then show ?case by (simp add: hex_value_app Suc.IH)
qed

lemma demo_lib_law: "lib_law demo_lib"
proof -
  have u: "unat (h :: hash) mod 256 ^ 32 = unat h" "unat (a :: address) mod 256 ^ 20 = unat a"
    "unat h mod 16 ^ 64 = unat h" "unat a mod 16 ^ 40 = unat a" for h a
  proof -
    have "unat h < 2 ^ 256" "unat a < 2 ^ 160" using unsigned_less [of h] unsigned_less [of a] by simp_all
    then show "unat (h :: hash) mod 256 ^ 32 = unat h" "unat (a :: address) mod 256 ^ 20 = unat a"
      "unat h mod 16 ^ 64 = unat h" "unat a mod 16 ^ 40 = unat a" by simp_all
  qed
  have hx: "inj (\<lambda>h :: hash. ''0x'' @ hex_digits 64 (unat h))"
  proof (rule injI)
    fix h h' :: hash assume "''0x'' @ hex_digits 64 (unat h) = ''0x'' @ hex_digits 64 (unat h')"
    then have "hex_value 0 (hex_digits 64 (unat h)) = hex_value 0 (hex_digits 64 (unat h'))" by simp
    then show "h = h'" unfolding hex_roundtrip u by (simp add: word_unat_eq_iff)
  qed
  have z: "set ''0x'' \<subseteq> set hex_chars" by code_simp
  have x: "set (''0x'' @ hex_digits n k) \<subseteq> set hex_chars" for n k
    unfolding set_append using z hex_digits_set by (rule Un_least)
  have r: "(of_nat (le_nat (rev (rev (le_bytes 32 (unat h))))) :: hash) = h"
    "(of_nat (le_nat (rev (rev (le_bytes 20 (unat a))))) :: address) = a"
    "(of_nat (hex_value 0 (drop 2 (''0x'' @ hex_digits 40 (unat a)))) :: address) = a" for h a
    using hex_roundtrip [of 40 "unat a"] by (simp_all add: le_nat_bytes u [simplified] del: hex_digits.simps)
  show ?thesis unfolding lib_law_def demo_lib_def go_lib.simps
    by (intro conjI allI impI; (rule r | rule x | rule hx | simp))
qed

theorem store_keys_roundtrip_witness:
  "splitStorageKey demo_lib (tl (getStorageKey demo_lib 18 7 5)) = Some (18, 7, 5) \<and>
   dskey_string demo_lib (KVersion 18) \<noteq> dskey_string demo_lib (KAccount 18)"
  using store_keys_roundtrip [OF demo_lib_law, of 18 7 5] by (simp add: inj_eq)

theorem chain_keys_injective_witness: "bkey_string demo_lib (TxK 4) \<noteq> bkey_string demo_lib (ReceiptK 4)"
  using chain_keys_injective [OF demo_lib_law] by (simp add: inj_eq)

theorem account_storage_key_roundtrip_witness:
  "SplitAccountStorageKey demo_lib (GetAccountStorageKey demo_lib 18 7) = Some (18, 7)"
  using account_storage_key_roundtrip [OF demo_lib_law, of 18 7] by blast

end
