(* ===== verification/Codec.thy ===== *)
theory Codec
  imports Keys
begin

section \<open>Marshalling\<close>

text \<open>
  The codecs of \<open>types/utils.go\<close>, \<open>statestore/types.go\<close> and the encoders of
  \<open>statestore/utils.go\<close> and \<open>blockchain/utils.go\<close>. A codec is the triple of functions the code
  writes for a type: one that marshals a value into a buffer, one that reads it back and one
  that tells its size. The functions of the mus library (\<open>varint\<close>, \<open>ord\<close>) are parameters, one
  field of \<open>mus\<close> for each type they are used at; what is composed of them is translated.
\<close>

datatype mus_err = MusErr | MusPanic

text \<open>
  Marshalling writes from the start of the buffer and tells how much; \<open>None\<close> is the index panic
  of a buffer that is too short. Unmarshalling tells the value and how much it has read.
\<close>

record 'a codec =
  marshal :: "'a \<Rightarrow> bytes \<Rightarrow> (bytes \<times> nat) option"
  unmarshal :: "bytes \<Rightarrow> mus_err + ('a \<times> nat)"
  csize :: "'a \<Rightarrow> nat"

text \<open>\<open>n += Marshal(v, bs[n:])\<close> and \<open>v, n1, err = Unmarshal(bs[n:]); n += n1\<close>.\<close>

definition put_next :: "'a codec \<Rightarrow> 'a \<Rightarrow> bytes \<times> nat \<Rightarrow> (bytes \<times> nat) option" where
  "put_next c v = (\<lambda>(bs, n).
     if length bs < n then None
     else map_option (\<lambda>(bs', k). (take n bs @ bs', n + k)) (marshal c v (drop n bs)))"

definition get_next :: "'a codec \<Rightarrow> bytes \<Rightarrow> nat \<Rightarrow> mus_err + ('a \<times> nat)" where
  "get_next c bs n =
     (if length bs < n then Inl MusPanic
      else rbind (unmarshal c (drop n bs)) (\<lambda>(v, k). Inr (v, n + k)))"

type_synonym storage = "(hash, hash) gmap"

text \<open>A layer log as it is stored: storages under their string keys, counts as 64-bit numbers.\<close>

record wire_log =
  wBlockNumber :: u64
  wRootHash :: hash
  wAccounts :: "(address, account_value) gmap"
  wCodeCount :: "(hash, int) gmap"
  wCodePreimage :: "(hash, bytes) gmap"
  wStorage :: "(string, storage) gmap"

record mus =
  musUint64 :: "u64 codec"
  musInt64 :: "int codec"
  musBool :: "bool codec"
  musString :: "string codec"
  musBytes :: "bytes codec"
  musSlice :: "hash codec \<Rightarrow> hash list codec"
  musMapStorage :: "hash codec \<Rightarrow> hash codec \<Rightarrow> storage codec"
  musMapAccounts :: "address codec \<Rightarrow> account_value codec \<Rightarrow> (address, account_value) gmap codec"
  musMapCount :: "hash codec \<Rightarrow> int codec \<Rightarrow> (hash, int) gmap codec"
  musMapCode :: "hash codec \<Rightarrow> bytes codec \<Rightarrow> (hash, bytes) gmap codec"
  musMapLog :: "string codec \<Rightarrow> storage codec \<Rightarrow> (string, storage) gmap codec"
  u256Bytes :: "u256 \<Rightarrow> bytes"
  u256Of :: "bytes \<Rightarrow> u256"

subsection \<open>types/utils.go\<close>

definition MarshalAddress :: "go_lib \<Rightarrow> mus \<Rightarrow> address \<Rightarrow> bytes \<Rightarrow> (bytes \<times> nat) option" where
  "MarshalAddress L M v bs = (let sl = addrBytes L v in marshal (musBytes M) sl bs)"

definition UnmarshalAddress :: "go_lib \<Rightarrow> mus \<Rightarrow> bytes \<Rightarrow> mus_err + (address \<times> nat)" where
  "UnmarshalAddress L M bs = rbind (unmarshal (musBytes M) bs) (\<lambda>(sl, n). Inr (addrOf L sl, n))"

definition SizeAddress :: "go_lib \<Rightarrow> mus \<Rightarrow> address \<Rightarrow> nat" where
  "SizeAddress L M v = (let sl = addrBytes L v in csize (musBytes M) sl)"

definition addressCodec :: "go_lib \<Rightarrow> mus \<Rightarrow> address codec" where
  "addressCodec L M = \<lparr> marshal = MarshalAddress L M, unmarshal = UnmarshalAddress L M, csize = SizeAddress L M \<rparr>"

definition MarshalHash :: "go_lib \<Rightarrow> mus \<Rightarrow> hash \<Rightarrow> bytes \<Rightarrow> (bytes \<times> nat) option" where
  "MarshalHash L M v bs = (let sl = hashBytes L v in marshal (musBytes M) sl bs)"

definition UnmarshalHash :: "go_lib \<Rightarrow> mus \<Rightarrow> bytes \<Rightarrow> mus_err + (hash \<times> nat)" where
  "UnmarshalHash L M bs = rbind (unmarshal (musBytes M) bs) (\<lambda>(sl, n). Inr (hashOf L sl, n))"

definition SizeHash :: "go_lib \<Rightarrow> mus \<Rightarrow> hash \<Rightarrow> nat" where
  "SizeHash L M v = (let sl = hashBytes L v in csize (musBytes M) sl)"

definition hashCodec :: "go_lib \<Rightarrow> mus \<Rightarrow> hash codec" where
  "hashCodec L M = \<lparr> marshal = MarshalHash L M, unmarshal = UnmarshalHash L M, csize = SizeHash L M \<rparr>"

definition MarshalUint256 :: "mus \<Rightarrow> u256 \<Rightarrow> bytes \<Rightarrow> (bytes \<times> nat) option" where
  "MarshalUint256 M v bs = (let sl = u256Bytes M v in marshal (musBytes M) sl bs)"

definition UnmarshalUint256 :: "mus \<Rightarrow> bytes \<Rightarrow> mus_err + (u256 \<times> nat)" where
  "UnmarshalUint256 M bs = rbind (unmarshal (musBytes M) bs) (\<lambda>(sl, n). Inr (u256Of M sl, n))"

definition SizeUint256 :: "mus \<Rightarrow> u256 \<Rightarrow> nat" where
  "SizeUint256 M v = (let sl = u256Bytes M v in csize (musBytes M) sl)"

definition uint256Codec :: "mus \<Rightarrow> u256 codec" where
  "uint256Codec M = \<lparr> marshal = MarshalUint256 M, unmarshal = UnmarshalUint256 M, csize = SizeUint256 M \<rparr>"

definition MarshalBytes :: "mus \<Rightarrow> bytes \<Rightarrow> bytes \<Rightarrow> (bytes \<times> nat) option" where
  "MarshalBytes M v bs = marshal (musBytes M) v bs"

definition UnmarshalBytes :: "mus \<Rightarrow> bytes \<Rightarrow> mus_err + (bytes \<times> nat)" where
  "UnmarshalBytes M bs = unmarshal (musBytes M) bs"

definition SizeBytes :: "mus \<Rightarrow> bytes \<Rightarrow> nat" where
  "SizeBytes M v = csize (musBytes M) v"

definition bytesCodec :: "mus \<Rightarrow> bytes codec" where
  "bytesCodec M = \<lparr> marshal = MarshalBytes M, unmarshal = UnmarshalBytes M, csize = SizeBytes M \<rparr>"

definition MarshalStorage :: "go_lib \<Rightarrow> mus \<Rightarrow> storage \<Rightarrow> bytes \<Rightarrow> (bytes \<times> nat) option" where
  "MarshalStorage L M v bs = marshal (musMapStorage M (hashCodec L M) (hashCodec L M)) v bs"

definition UnmarshalStorage :: "go_lib \<Rightarrow> mus \<Rightarrow> bytes \<Rightarrow> mus_err + (storage \<times> nat)" where
  "UnmarshalStorage L M bs = unmarshal (musMapStorage M (hashCodec L M) (hashCodec L M)) bs"

definition SizeStorage :: "go_lib \<Rightarrow> mus \<Rightarrow> storage \<Rightarrow> nat" where
  "SizeStorage L M v = csize (musMapStorage M (hashCodec L M) (hashCodec L M)) v"

definition storageCodec :: "go_lib \<Rightarrow> mus \<Rightarrow> storage codec" where
  "storageCodec L M = \<lparr> marshal = MarshalStorage L M, unmarshal = UnmarshalStorage L M, csize = SizeStorage L M \<rparr>"

text \<open>The account value is written twice in the code, in \<open>types\<close> and, for pointers, in \<open>statestore\<close>.\<close>

definition MarshalAccountValue :: "go_lib \<Rightarrow> mus \<Rightarrow> account_value \<Rightarrow> bytes \<Rightarrow> (bytes \<times> nat) option" where
  "MarshalAccountValue L M v bs =
     Option.bind (put_next (musUint64 M) (Nonce v) (bs, 0)) (\<lambda>s.
     Option.bind (put_next (uint256Codec M) (Balance v) s) (\<lambda>s.
     Option.bind (put_next (hashCodec L M) (CodeHash v) s) (\<lambda>s.
     Option.bind (put_next (musBool M) (DirtyStorage v) s)
       (put_next (musUint64 M) (Version v)))))"

definition UnmarshalAccountValue :: "go_lib \<Rightarrow> mus \<Rightarrow> bytes \<Rightarrow> mus_err + (account_value \<times> nat)" where
  "UnmarshalAccountValue L M bs =
     rbind (get_next (musUint64 M) bs 0) (\<lambda>(nonce, n).
     rbind (get_next (uint256Codec M) bs n) (\<lambda>(bal, n).
     rbind (get_next (hashCodec L M) bs n) (\<lambda>(ch, n).
     rbind (get_next (musBool M) bs n) (\<lambda>(ds, n).
     rbind (get_next (musUint64 M) bs n) (\<lambda>(ver, n).
       Inr (\<lparr> Nonce = nonce, Balance = bal, CodeHash = ch, DirtyStorage = ds, Version = ver \<rparr>, n))))))"

definition SizeAccountValue :: "go_lib \<Rightarrow> mus \<Rightarrow> account_value \<Rightarrow> nat" where
  "SizeAccountValue L M v =
     csize (musUint64 M) (Nonce v) + SizeUint256 M (Balance v) + SizeHash L M (CodeHash v) +
     csize (musBool M) (DirtyStorage v) + csize (musUint64 M) (Version v)"

definition accountCodec :: "go_lib \<Rightarrow> mus \<Rightarrow> account_value codec" where
  "accountCodec L M = \<lparr> marshal = MarshalAccountValue L M, unmarshal = UnmarshalAccountValue L M, csize = SizeAccountValue L M \<rparr>"

definition MarshalLayerLog :: "go_lib \<Rightarrow> mus \<Rightarrow> wire_log \<Rightarrow> bytes \<Rightarrow> (bytes \<times> nat) option" where
  "MarshalLayerLog L M v bs =
     Option.bind (put_next (musUint64 M) (wBlockNumber v) (bs, 0)) (\<lambda>s.
     Option.bind (put_next (hashCodec L M) (wRootHash v) s) (\<lambda>s.
     Option.bind (put_next (musMapAccounts M (addressCodec L M) (accountCodec L M)) (wAccounts v) s) (\<lambda>s.
     Option.bind (put_next (musMapCount M (hashCodec L M) (musInt64 M)) (wCodeCount v) s) (\<lambda>s.
     Option.bind (put_next (musMapCode M (hashCodec L M) (bytesCodec M)) (wCodePreimage v) s)
       (put_next (musMapLog M (musString M) (storageCodec L M)) (wStorage v))))))"

definition UnmarshalLayerLog :: "go_lib \<Rightarrow> mus \<Rightarrow> bytes \<Rightarrow> mus_err + (wire_log \<times> nat)" where
  "UnmarshalLayerLog L M bs =
     rbind (get_next (musUint64 M) bs 0) (\<lambda>(bn, n).
     rbind (get_next (hashCodec L M) bs n) (\<lambda>(rh, n).
     rbind (get_next (musMapAccounts M (addressCodec L M) (accountCodec L M)) bs n) (\<lambda>(acs, n).
     rbind (get_next (musMapCount M (hashCodec L M) (musInt64 M)) bs n) (\<lambda>(cc, n).
     rbind (get_next (musMapCode M (hashCodec L M) (bytesCodec M)) bs n) (\<lambda>(cp, n).
     rbind (get_next (musMapLog M (musString M) (storageCodec L M)) bs n) (\<lambda>(st, n).
       Inr (\<lparr> wBlockNumber = bn, wRootHash = rh, wAccounts = acs, wCodeCount = cc, wCodePreimage = cp, wStorage = st \<rparr>, n)))))))"

definition SizeLayerLog :: "go_lib \<Rightarrow> mus \<Rightarrow> wire_log \<Rightarrow> nat" where
  "SizeLayerLog L M v =
     csize (musUint64 M) (wBlockNumber v) + SizeHash L M (wRootHash v) +
     csize (musMapAccounts M (addressCodec L M) (accountCodec L M)) (wAccounts v) +
     csize (musMapCount M (hashCodec L M) (musInt64 M)) (wCodeCount v) +
     csize (musMapCode M (hashCodec L M) (bytesCodec M)) (wCodePreimage v) +
     csize (musMapLog M (musString M) (storageCodec L M)) (wStorage v)"

definition layerLogCodec :: "go_lib \<Rightarrow> mus \<Rightarrow> wire_log codec" where
  "layerLogCodec L M = \<lparr> marshal = MarshalLayerLog L M, unmarshal = UnmarshalLayerLog L M, csize = SizeLayerLog L M \<rparr>"

subsection \<open>statestore/types.go\<close>

definition marshalRawCodeValue :: "mus \<Rightarrow> bytes \<times> int \<Rightarrow> bytes \<Rightarrow> (bytes \<times> nat) option" where
  "marshalRawCodeValue M v bs =
     Option.bind (put_next (bytesCodec M) (fst v) (bs, 0)) (put_next (musInt64 M) (snd v))"

definition unmarshalRawCodeValue :: "mus \<Rightarrow> bytes \<Rightarrow> mus_err + ((bytes \<times> int) \<times> nat)" where
  "unmarshalRawCodeValue M bs =
     rbind (get_next (bytesCodec M) bs 0) (\<lambda>(code, n).
     rbind (get_next (musInt64 M) bs n) (\<lambda>(cnt, n). Inr ((code, cnt), n)))"

definition sizeRawCodeValue :: "mus \<Rightarrow> bytes \<times> int \<Rightarrow> nat" where
  "sizeRawCodeValue M v = SizeBytes M (fst v) + csize (musInt64 M) (snd v)"

definition codeCodec :: "mus \<Rightarrow> (bytes \<times> int) codec" where
  "codeCodec M = \<lparr> marshal = marshalRawCodeValue M, unmarshal = unmarshalRawCodeValue M, csize = sizeRawCodeValue M \<rparr>"

definition marshalPersistedHeight :: "go_lib \<Rightarrow> mus \<Rightarrow> u64 \<times> hash \<Rightarrow> bytes \<Rightarrow> (bytes \<times> nat) option" where
  "marshalPersistedHeight L M v bs =
     Option.bind (put_next (musUint64 M) (fst v) (bs, 0)) (put_next (hashCodec L M) (snd v))"

definition unmarshalPersistedHeight :: "go_lib \<Rightarrow> mus \<Rightarrow> bytes \<Rightarrow> mus_err + ((u64 \<times> hash) \<times> nat)" where
  "unmarshalPersistedHeight L M bs =
     rbind (get_next (musUint64 M) bs 0) (\<lambda>(height, n).
     rbind (get_next (hashCodec L M) bs n) (\<lambda>(root, n). Inr ((height, root), n)))"

definition sizePersistedHeight :: "go_lib \<Rightarrow> mus \<Rightarrow> u64 \<times> hash \<Rightarrow> nat" where
  "sizePersistedHeight L M v = csize (musUint64 M) (fst v) + SizeHash L M (snd v)"

definition heightCodec :: "go_lib \<Rightarrow> mus \<Rightarrow> (u64 \<times> hash) codec" where
  "heightCodec L M = \<lparr> marshal = marshalPersistedHeight L M, unmarshal = unmarshalPersistedHeight L M,
     csize = sizePersistedHeight L M \<rparr>"

subsection \<open>Encoders\<close>

text \<open>\<open>size := Size(v); bs := make([]byte, size); Marshal(v, bs)\<close>, and reading from the start.\<close>

definition encode :: "'a codec \<Rightarrow> 'a \<Rightarrow> bytes option" where
  "encode c v = map_option fst (marshal c v (replicate (csize c v) 0))"

definition decode :: "'a codec \<Rightarrow> bytes \<Rightarrow> mus_err + 'a" where
  "decode c bs = rbind (unmarshal c bs) (\<lambda>(v, n). Inr v)"

definition encodePersistedHeight where "encodePersistedHeight L M height root = encode (heightCodec L M) (height, root)"
definition decodePersistedHeight where "decodePersistedHeight L M bs = decode (heightCodec L M) bs"
definition encodeCodeValue where "encodeCodeValue M code cnt = encode (codeCodec M) (code, cnt)"
definition decodeCodeValue where "decodeCodeValue M bs = decode (codeCodec M) bs"
definition encodeChildren where "encodeChildren L M children = encode (musSlice M (hashCodec L M)) children"
definition decodeChildren where "decodeChildren L M bs = decode (musSlice M (hashCodec L M)) bs"
definition encodeLayerLog where "encodeLayerLog L M layerLog = encode (layerLogCodec L M) layerLog"
definition decodeLayerLog where "decodeLayerLog L M bs = decode (layerLogCodec L M) bs"
definition encodeAccountValue where "encodeAccountValue L M acct = encode (accountCodec L M) acct"
definition decodeAccountValue where "decodeAccountValue L M bs = decode (accountCodec L M) bs"
definition encodeStorage where "encodeStorage L M val = encode (hashCodec L M) val"
definition decodeStorage where "decodeStorage L M bs = decode (hashCodec L M) bs"

definition encodeAccountVersion :: "u64 \<Rightarrow> bytes" where
  "encodeAccountVersion ver = PutUint64 ver"

definition decodeAccountVersion :: "bytes \<Rightarrow> mus_err + u64" where
  "decodeAccountVersion val = (if length val < 8 then Inl MusPanic else Inr (Uint64 val))"

text \<open>The block store: RLP and JSON are parameters.\<close>

record chain_lib =
  rlpBlock :: "block \<Rightarrow> bytes"
  unrlpBlock :: "bytes \<Rightarrow> block option"
  rlpTx :: "transaction \<Rightarrow> bytes"
  unrlpTx :: "bytes \<Rightarrow> transaction option"
  jsonReceipt :: "receipt \<Rightarrow> bytes"
  unjsonReceipt :: "bytes \<Rightarrow> receipt option"

definition encodeBlock :: "chain_lib \<Rightarrow> block \<Rightarrow> bytes" where
  "encodeBlock R v = rlpBlock R v"

definition decodeBlock :: "chain_lib \<Rightarrow> bytes \<Rightarrow> mus_err + block" where
  "decodeBlock R val = (case unrlpBlock R val of None \<Rightarrow> Inl MusErr | Some b \<Rightarrow> Inr b)"

definition encodeForks where "encodeForks L M v = encode (musSlice M (hashCodec L M)) v"
definition decodeForks where "decodeForks L M val = decode (musSlice M (hashCodec L M)) val"

definition encodeIndexed :: "go_lib \<Rightarrow> mus \<Rightarrow> bytes \<Rightarrow> hash \<Rightarrow> u64 \<Rightarrow> bytes option" where
  "encodeIndexed L M dat blkHash index =
     (let size = SizeBytes M dat + SizeHash L M blkHash + csize (musUint64 M) index
      in map_option fst
           (Option.bind (put_next (bytesCodec M) dat (replicate size 0, 0)) (\<lambda>s.
            Option.bind (put_next (hashCodec L M) blkHash s) (put_next (musUint64 M) index))))"

definition encodeTransaction where
  "encodeTransaction L M R v blkHash index = encodeIndexed L M (rlpTx R v) blkHash index"

definition encodeReceipt where
  "encodeReceipt L M R v blkHash index = encodeIndexed L M (jsonReceipt R v) blkHash index"

definition decodeIndexed :: "go_lib \<Rightarrow> mus \<Rightarrow> (bytes \<Rightarrow> 'a option) \<Rightarrow> bytes \<Rightarrow> mus_err + ('a \<times> hash \<times> u64)" where
  "decodeIndexed L M parse val =
     rbind (get_next (bytesCodec M) val 0) (\<lambda>(data, n).
       case parse data of
         None \<Rightarrow> Inl MusErr
       | Some res \<Rightarrow>
           rbind (get_next (hashCodec L M) val n) (\<lambda>(blkHash, n).
           rbind (get_next (musUint64 M) val n) (\<lambda>(index, n). Inr (res, blkHash, index))))"

definition decodeTransaction where
  "decodeTransaction L M R val = decodeIndexed L M (unrlpTx R) val"

definition decodeReceipt where
  "decodeReceipt L M R val = decodeIndexed L M (unjsonReceipt R) val"

end
