(* ===== verification/CodecLaws.thy ===== *)
theory CodecLaws
  imports Codec StoreLaws
begin

section \<open>Laws of the codecs\<close>

text \<open>
  What is written is read back: for every type the code marshals, the size is exact, so that
  the buffer made for it is filled and never overrun, and unmarshalling gives the value. Maps
  come back as the same map, in whatever order. The mus library is assumed to have this of its
  own codecs, and of a slice or map when the codecs of its elements have it.
\<close>

definition writes :: "'a codec \<Rightarrow> 'a \<Rightarrow> bytes \<Rightarrow> bool" where
  "writes c v enc = (\<forall>bs. length enc \<le> length bs \<longrightarrow> marshal c v bs = Some (enc @ drop (length enc) bs, length enc))"

definition reads :: "'a codec \<Rightarrow> bytes \<Rightarrow> 'a \<Rightarrow> bool" where
  "reads c enc v = (\<forall>rest. unmarshal c (enc @ rest) = Inr (v, length enc))"

definition codes :: "('a \<Rightarrow> 'a \<Rightarrow> bool) \<Rightarrow> 'a codec \<Rightarrow> 'a \<Rightarrow> bool" where
  "codes R c v = (\<exists>enc v'. writes c v enc \<and> csize c v = length enc \<and> reads c enc v' \<and> R v v')"

lemma codesE:
  assumes "codes R c v"
  obtains enc v' where "writes c v enc" "csize c v = length enc" "reads c enc v'" "R v v'"
  using assms unfolding codes_def by blast

lemma codes_eqE:
  assumes "codes (=) c v"
  obtains enc where "writes c v enc" "csize c v = length enc" "reads c enc v"
  using assms unfolding codes_def by blast

definition same_map :: "('v \<Rightarrow> 'v \<Rightarrow> bool) \<Rightarrow> ('k, 'v) gmap \<Rightarrow> ('k, 'v) gmap \<Rightarrow> bool" where
  "same_map R m m' = (distinct (map fst m') \<and> (\<forall>k. rel_option R (map_of m k) (map_of m' k)))"

text \<open>The law of a map codec of the library.\<close>

definition map_law :: "('v \<Rightarrow> 'v \<Rightarrow> bool) \<Rightarrow> ('k codec \<Rightarrow> 'v codec \<Rightarrow> ('k, 'v) gmap codec) \<Rightarrow> bool" where
  "map_law R mc = (\<forall>ck cv m. distinct (map fst m) \<longrightarrow> (\<forall>x\<in>set m. codes (=) ck (fst x) \<and> codes R cv (snd x)) \<longrightarrow>
     codes (same_map R) (mc ck cv) m)"

definition int64 :: "int \<Rightarrow> bool" where
  "int64 i = (- (2 ^ 63) \<le> i \<and> i < 2 ^ 63)"

definition mus_law :: "mus \<Rightarrow> bool" where
  "mus_law M =
     ((\<forall>v. codes (=) (musUint64 M) v) \<and> (\<forall>v. int64 v \<longrightarrow> codes (=) (musInt64 M) v) \<and>
      (\<forall>v. codes (=) (musBool M) v) \<and> (\<forall>v. codes (=) (musString M) v) \<and> (\<forall>v. codes (=) (musBytes M) v) \<and>
      (\<forall>c xs. (\<forall>x\<in>set xs. codes (=) c x) \<longrightarrow> codes (=) (musSlice M c) xs) \<and>
      map_law (=) (musMapStorage M) \<and> map_law (=) (musMapAccounts M) \<and> map_law (=) (musMapCount M) \<and>
      map_law (=) (musMapCode M) \<and> map_law (same_map (=)) (musMapLog M) \<and>
      (\<forall>v. u256Of M (u256Bytes M v) = v))"

lemma mus_lawD:
  assumes "mus_law M"
  shows "codes (=) (musUint64 M) u" "int64 i \<Longrightarrow> codes (=) (musInt64 M) i" "codes (=) (musBool M) b"
    "codes (=) (musString M) s" "codes (=) (musBytes M) bs"
    "(\<And>x. x \<in> set xs \<Longrightarrow> codes (=) c x) \<Longrightarrow> codes (=) (musSlice M c) xs"
    "map_law (=) (musMapStorage M)" "map_law (=) (musMapAccounts M)" "map_law (=) (musMapCount M)"
    "map_law (=) (musMapCode M)" "map_law (same_map (=)) (musMapLog M)" "u256Of M (u256Bytes M v) = v"
  using assms unfolding mus_law_def by blast+

lemma map_lawD:
  assumes "map_law R mc" "distinct (map fst m)" "\<And>k v. (k, v) \<in> set m \<Longrightarrow> codes (=) ck k" "\<And>k v. (k, v) \<in> set m \<Longrightarrow> codes R cv v"
  shows "codes (same_map R) (mc ck cv) m"
proof -
  have "\<forall>x\<in>set m. codes (=) ck (fst x) \<and> codes R cv (snd x)" using assms(3,4) by (metis prod.collapse)
  then show ?thesis using assms(1,2) unfolding map_law_def by blast
qed

subsection \<open>Sequences\<close>

definition emits :: "(bytes \<times> nat \<Rightarrow> (bytes \<times> nat) option) \<Rightarrow> bytes \<Rightarrow> bool" where
  "emits f enc = (\<forall>pre bs. length enc \<le> length bs \<longrightarrow>
     f (pre @ bs, length pre) = Some (pre @ enc @ drop (length enc) bs, length pre + length enc))"

lemma emits_put: "writes c v enc \<Longrightarrow> emits (put_next c v) enc"
  by (simp add: emits_def writes_def put_next_def)

lemma emits_seq:
  assumes "emits f e1" "emits g e2"
  shows "emits (\<lambda>s. Option.bind (f s) g) (e1 @ e2)"
  unfolding emits_def
proof (intro allI impI)
  fix pre bs :: bytes assume l: "length (e1 @ e2) \<le> length bs"
  have "f (pre @ bs, length pre) = Some ((pre @ e1) @ drop (length e1) bs, length (pre @ e1))"
    using assms(1) l by (simp add: emits_def)
  moreover have "g ((pre @ e1) @ drop (length e1) bs, length (pre @ e1)) =
      Some ((pre @ e1) @ e2 @ drop (length e2) (drop (length e1) bs), length (pre @ e1) + length e2)"
  proof -
    have "length e2 \<le> length (drop (length e1) bs)" using l by simp
    then show ?thesis using assms(2) unfolding emits_def by blast
  qed
  ultimately show "Option.bind (f (pre @ bs, length pre)) g =
      Some (pre @ (e1 @ e2) @ drop (length (e1 @ e2)) bs, length pre + length (e1 @ e2))"
    by (simp add: add.commute)
qed

lemma emits_first: "emits f enc \<Longrightarrow> length enc \<le> length bs \<Longrightarrow> f (bs, 0) = Some (enc @ drop (length enc) bs, length enc)"
  unfolding emits_def by (metis append_Nil list.size(3) plus_nat.add_0)

definition takes :: "(bytes \<Rightarrow> nat \<Rightarrow> mus_err + ('a \<times> nat)) \<Rightarrow> bytes \<Rightarrow> 'a \<Rightarrow> bool" where
  "takes r enc x = (\<forall>pre rest. r (pre @ enc @ rest) (length pre) = Inr (x, length pre + length enc))"

lemma takes_get: "reads c enc v \<Longrightarrow> takes (get_next c) enc v"
  by (simp add: takes_def reads_def get_next_def)

lemma takes_return: "takes (\<lambda>bs n. Inr (x, n)) [] x"
  by (simp add: takes_def)

lemma takes_seq:
  assumes "takes r e1 x" "takes (g x) e2 y"
  shows "takes (\<lambda>bs n. rbind (r bs n) (\<lambda>(x, n). g x bs n)) (e1 @ e2) y"
  unfolding takes_def
proof (intro allI)
  fix pre rest
  have "r (pre @ e1 @ e2 @ rest) (length pre) = Inr (x, length (pre @ e1))" using assms(1) by (simp add: takes_def)
  moreover have "g x ((pre @ e1) @ e2 @ rest) (length (pre @ e1)) = Inr (y, length (pre @ e1) + length e2)"
    using assms(2) unfolding takes_def by blast
  ultimately show "rbind (r (pre @ (e1 @ e2) @ rest) (length pre)) (\<lambda>(x, n). g x (pre @ (e1 @ e2) @ rest) n) =
      Inr (y, length pre + length (e1 @ e2))" by (simp add: add.assoc)
qed

lemma takes_first: "takes r enc x \<Longrightarrow> r (enc @ rest) 0 = Inr (x, length enc)"
  unfolding takes_def by (metis append_Nil list.size(3) plus_nat.add_0)

text \<open>A structure: a writer and a reader over its fields.\<close>

lemma codes_struct:
  assumes "emits f enc" "takes r enc v'" "R v v'" "csize d v = length enc"
    and "\<And>bs. marshal d v bs = f (bs, 0)" "\<And>bs. unmarshal d bs = r bs 0"
  shows "codes R d v"
  unfolding codes_def writes_def reads_def using assms emits_first [OF assms(1)] takes_first [OF assms(2)] by auto

subsection \<open>Codecs through bytes\<close>

lemma codes_via:
  assumes "codes (=) c (f v)" "g (f v) = v"
    and "\<And>bs. marshal d v bs = marshal c (f v) bs" "csize d v = csize c (f v)"
    and "\<And>bs. unmarshal d bs = rbind (unmarshal c bs) (\<lambda>(sl, n). Inr (g sl, n))"
  shows "codes (=) d v"
proof -
  from assms(1) obtain enc where "writes c (f v) enc" "csize c (f v) = length enc" "reads c enc (f v)" by (rule codes_eqE)
  then show ?thesis unfolding codes_def writes_def reads_def using assms(2-5) by auto
qed

lemma codes_address: "lib_law L \<Longrightarrow> mus_law M \<Longrightarrow> codes (=) (addressCodec L M) v"
  by (rule codes_via [where f = "addrBytes L" and g = "addrOf L", OF mus_lawD(5)])
    (simp_all add: lib_lawD(3) addressCodec_def MarshalAddress_def UnmarshalAddress_def SizeAddress_def)

lemma codes_hash: "lib_law L \<Longrightarrow> mus_law M \<Longrightarrow> codes (=) (hashCodec L M) v"
  by (rule codes_via [where f = "hashBytes L" and g = "hashOf L", OF mus_lawD(5)])
    (simp_all add: lib_lawD(1) hashCodec_def MarshalHash_def UnmarshalHash_def SizeHash_def)

lemma codes_uint256: "mus_law M \<Longrightarrow> codes (=) (uint256Codec M) v"
  by (rule codes_via [where f = "u256Bytes M" and g = "u256Of M", OF mus_lawD(5)])
    (simp_all add: mus_lawD(12) uint256Codec_def MarshalUint256_def UnmarshalUint256_def SizeUint256_def)

lemma codes_same:
  assumes "codes R c v" "\<And>bs. marshal d v bs = marshal c v bs" "csize d v = csize c v" "\<And>bs. unmarshal d bs = unmarshal c bs"
  shows "codes R d v"
  using assms unfolding codes_def writes_def reads_def by simp

lemma codes_bytes: "mus_law M \<Longrightarrow> codes (=) (bytesCodec M) v"
  by (rule codes_same [OF mus_lawD(5)]) (simp_all add: bytesCodec_def MarshalBytes_def UnmarshalBytes_def SizeBytes_def)

lemma codes_storage:
  assumes "lib_law L" "mus_law M" "distinct (map fst v)"
  shows "codes (same_map (=)) (storageCodec L M) v"
  by (rule codes_same [OF map_lawD [OF mus_lawD(7) [OF assms(2)] assms(3) codes_hash codes_hash]])
    (simp_all add: assms storageCodec_def MarshalStorage_def UnmarshalStorage_def SizeStorage_def)

subsection \<open>Structures\<close>

lemma sizes: "SizeUint256 M x = csize (uint256Codec M) x" "SizeHash L M y = csize (hashCodec L M) y"
  "SizeBytes M bs = csize (bytesCodec M) bs"
  by (simp_all add: uint256Codec_def hashCodec_def bytesCodec_def)

lemma codes_account:
  assumes "lib_law L" "mus_law M"
  shows "codes (=) (accountCodec L M) v"
proof -
  note U = mus_lawD(1) [OF assms(2)]
  obtain e1 where e1: "writes (musUint64 M) (Nonce v) e1" "csize (musUint64 M) (Nonce v) = length e1" "reads (musUint64 M) e1 (Nonce v)"
    using U by (rule codes_eqE)
  obtain e2 where e2: "writes (uint256Codec M) (Balance v) e2" "csize (uint256Codec M) (Balance v) = length e2" "reads (uint256Codec M) e2 (Balance v)"
    using codes_uint256 [OF assms(2)] by (rule codes_eqE)
  obtain e3 where e3: "writes (hashCodec L M) (CodeHash v) e3" "csize (hashCodec L M) (CodeHash v) = length e3" "reads (hashCodec L M) e3 (CodeHash v)"
    using codes_hash [OF assms] by (rule codes_eqE)
  obtain e4 where e4: "writes (musBool M) (DirtyStorage v) e4" "csize (musBool M) (DirtyStorage v) = length e4" "reads (musBool M) e4 (DirtyStorage v)"
    using mus_lawD(3) [OF assms(2)] by (rule codes_eqE)
  obtain e5 where e5: "writes (musUint64 M) (Version v) e5" "csize (musUint64 M) (Version v) = length e5" "reads (musUint64 M) e5 (Version v)"
    using U by (rule codes_eqE)
  have em: "emits (\<lambda>s. Option.bind (put_next (musUint64 M) (Nonce v) s) (\<lambda>s. Option.bind (put_next (uint256Codec M) (Balance v) s)
      (\<lambda>s. Option.bind (put_next (hashCodec L M) (CodeHash v) s) (\<lambda>s. Option.bind (put_next (musBool M) (DirtyStorage v) s)
        (put_next (musUint64 M) (Version v)))))) (e1 @ e2 @ e3 @ e4 @ e5 @ [])"
    unfolding append_Nil2 by (intro emits_seq emits_put e1 e2 e3 e4 e5)
  have tk: "takes (\<lambda>bs n.
     rbind (get_next (musUint64 M) bs n) (\<lambda>(nonce, n).
     rbind (get_next (uint256Codec M) bs n) (\<lambda>(bal, n).
     rbind (get_next (hashCodec L M) bs n) (\<lambda>(ch, n).
     rbind (get_next (musBool M) bs n) (\<lambda>(ds, n).
     rbind (get_next (musUint64 M) bs n) (\<lambda>(ver, n).
       Inr (\<lparr> Nonce = nonce, Balance = bal, CodeHash = ch, DirtyStorage = ds, Version = ver \<rparr>, n)))))))
     (e1 @ e2 @ e3 @ e4 @ e5 @ [])
     \<lparr> Nonce = Nonce v, Balance = Balance v, CodeHash = CodeHash v, DirtyStorage = DirtyStorage v, Version = Version v \<rparr>"
    by (rule takes_seq [OF takes_get [OF e1(3)]], rule takes_seq [OF takes_get [OF e2(3)]], rule takes_seq [OF takes_get [OF e3(3)]],
        rule takes_seq [OF takes_get [OF e4(3)]], rule takes_seq [OF takes_get [OF e5(3)]], rule takes_return)
  show ?thesis
    by (rule codes_struct [OF em tk])
      (simp_all add: accountCodec_def MarshalAccountValue_def UnmarshalAccountValue_def SizeAccountValue_def
        e1(2) e2(2) e3(2) e4(2) e5(2) sizes)
qed

lemma codes_pair:
  assumes "codes (=) c1 (fst v)" "codes (=) c2 (snd v)" "csize d v = csize c1 (fst v) + csize c2 (snd v)"
    and "\<And>bs. marshal d v bs = Option.bind (put_next c1 (fst v) (bs, 0)) (put_next c2 (snd v))"
    and "\<And>bs. unmarshal d bs = rbind (get_next c1 bs 0) (\<lambda>(x, n). rbind (get_next c2 bs n) (\<lambda>(y, n). Inr ((x, y), n)))"
  shows "codes (=) d v"
proof -
  obtain e1 where e1: "writes c1 (fst v) e1" "csize c1 (fst v) = length e1" "reads c1 e1 (fst v)" using assms(1) by (rule codes_eqE)
  obtain e2 where e2: "writes c2 (snd v) e2" "csize c2 (snd v) = length e2" "reads c2 e2 (snd v)" using assms(2) by (rule codes_eqE)
  have em: "emits (\<lambda>s. Option.bind (put_next c1 (fst v) s) (put_next c2 (snd v))) (e1 @ e2 @ [])"
    unfolding append_Nil2 by (intro emits_seq emits_put e1 e2)
  have tk: "takes (\<lambda>bs n. rbind (get_next c1 bs n) (\<lambda>(x, n). rbind (get_next c2 bs n) (\<lambda>(y, n). Inr ((x, y), n))))
      (e1 @ e2 @ []) (fst v, snd v)"
    by (rule takes_seq [OF takes_get [OF e1(3)]], rule takes_seq [OF takes_get [OF e2(3)]], rule takes_return)
  show ?thesis by (rule codes_struct [OF em tk]) (simp_all add: assms(3-5) e1(2) e2(2))
qed

lemma codes_height: "lib_law L \<Longrightarrow> mus_law M \<Longrightarrow> codes (=) (heightCodec L M) v"
  by (rule codes_pair [OF mus_lawD(1) codes_hash])
    (simp_all add: heightCodec_def marshalPersistedHeight_def unmarshalPersistedHeight_def sizePersistedHeight_def sizes)

lemma codes_code: "mus_law M \<Longrightarrow> int64 (snd v) \<Longrightarrow> codes (=) (codeCodec M) v"
  by (rule codes_pair [OF codes_bytes mus_lawD(2)])
    (simp_all add: codeCodec_def marshalRawCodeValue_def unmarshalRawCodeValue_def sizeRawCodeValue_def sizes)

subsection \<open>Layer logs\<close>

text \<open>The layer log of the model as the code stores it.\<close>

definition wire_of :: "go_lib \<Rightarrow> layer_log \<Rightarrow> wire_log" where
  "wire_of L l =
     \<lparr> wBlockNumber = BlockNumber l, wRootHash = RootHash l, wAccounts = UpdatedAccounts l,
       wCodeCount = UpdatedCodeCount l, wCodePreimage = lCodePreimage l,
       wStorage = map (\<lambda>((a, v), m). (GetAccountStorageKey L a v, m)) (UpdatedStorage l) \<rparr>"

definition same_wire :: "wire_log \<Rightarrow> wire_log \<Rightarrow> bool" where
  "same_wire v v' =
     (wBlockNumber v' = wBlockNumber v \<and> wRootHash v' = wRootHash v \<and> same_map (=) (wAccounts v) (wAccounts v') \<and>
      same_map (=) (wCodeCount v) (wCodeCount v') \<and> same_map (=) (wCodePreimage v) (wCodePreimage v') \<and>
      same_map (same_map (=)) (wStorage v) (wStorage v'))"

definition wire_ok :: "wire_log \<Rightarrow> bool" where
  "wire_ok v =
     (distinct (map fst (wAccounts v)) \<and> distinct (map fst (wCodeCount v)) \<and> (\<forall>x\<in>set (wCodeCount v). int64 (snd x)) \<and>
      distinct (map fst (wCodePreimage v)) \<and> distinct (map fst (wStorage v)) \<and>
      (\<forall>x\<in>set (wStorage v). distinct (map fst (snd x))))"

lemma codes_layer_log:
  assumes L: "lib_law L" and M: "mus_law M" and ok: "wire_ok v"
  shows "codes same_wire (layerLogCodec L M) v"
proof -
  note W = ok [unfolded wire_ok_def]
  obtain e1 where e1: "writes (musUint64 M) (wBlockNumber v) e1" "csize (musUint64 M) (wBlockNumber v) = length e1"
    "reads (musUint64 M) e1 (wBlockNumber v)" using mus_lawD(1) [OF M] by (rule codes_eqE)
  obtain e2 where e2: "writes (hashCodec L M) (wRootHash v) e2" "csize (hashCodec L M) (wRootHash v) = length e2"
    "reads (hashCodec L M) e2 (wRootHash v)" using codes_hash [OF L M] by (rule codes_eqE)
  let ?c3 = "musMapAccounts M (addressCodec L M) (accountCodec L M)"
  have "codes (same_map (=)) ?c3 (wAccounts v)"
    by (rule map_lawD [OF mus_lawD(8) [OF M]]) (use W codes_address [OF L M] codes_account [OF L M] in auto)
  then obtain e3 v3 where e3: "writes ?c3 (wAccounts v) e3" "csize ?c3 (wAccounts v) = length e3" "reads ?c3 e3 v3"
    "same_map (=) (wAccounts v) v3" by (rule codesE)
  let ?c4 = "musMapCount M (hashCodec L M) (musInt64 M)"
  have "codes (same_map (=)) ?c4 (wCodeCount v)"
    by (rule map_lawD [OF mus_lawD(9) [OF M]]) (use W codes_hash [OF L M] mus_lawD(2) [OF M] in force)+
  then obtain e4 v4 where e4: "writes ?c4 (wCodeCount v) e4" "csize ?c4 (wCodeCount v) = length e4" "reads ?c4 e4 v4"
    "same_map (=) (wCodeCount v) v4" by (rule codesE)
  let ?c5 = "musMapCode M (hashCodec L M) (bytesCodec M)"
  have "codes (same_map (=)) ?c5 (wCodePreimage v)"
    by (rule map_lawD [OF mus_lawD(10) [OF M]]) (use W codes_hash [OF L M] codes_bytes [OF M] in auto)
  then obtain e5 v5 where e5: "writes ?c5 (wCodePreimage v) e5" "csize ?c5 (wCodePreimage v) = length e5" "reads ?c5 e5 v5"
    "same_map (=) (wCodePreimage v) v5" by (rule codesE)
  let ?c6 = "musMapLog M (musString M) (storageCodec L M)"
  have "codes (same_map (same_map (=))) ?c6 (wStorage v)"
    by (rule map_lawD [OF mus_lawD(11) [OF M]]) (use W codes_storage [OF L M] mus_lawD(4) [OF M] in force)+
  then obtain e6 v6 where e6: "writes ?c6 (wStorage v) e6" "csize ?c6 (wStorage v) = length e6" "reads ?c6 e6 v6"
    "same_map (same_map (=)) (wStorage v) v6" by (rule codesE)
  have em: "emits (\<lambda>s. Option.bind (put_next (musUint64 M) (wBlockNumber v) s) (\<lambda>s. Option.bind (put_next (hashCodec L M) (wRootHash v) s)
      (\<lambda>s. Option.bind (put_next ?c3 (wAccounts v) s) (\<lambda>s. Option.bind (put_next ?c4 (wCodeCount v) s)
      (\<lambda>s. Option.bind (put_next ?c5 (wCodePreimage v) s) (put_next ?c6 (wStorage v))))))) (e1 @ e2 @ e3 @ e4 @ e5 @ e6 @ [])"
    unfolding append_Nil2 by (intro emits_seq emits_put e1 e2 e3 e4 e5 e6)
  have tk: "takes (\<lambda>bs n.
     rbind (get_next (musUint64 M) bs n) (\<lambda>(bn, n).
     rbind (get_next (hashCodec L M) bs n) (\<lambda>(rh, n).
     rbind (get_next ?c3 bs n) (\<lambda>(acs, n).
     rbind (get_next ?c4 bs n) (\<lambda>(cc, n).
     rbind (get_next ?c5 bs n) (\<lambda>(cp, n).
     rbind (get_next ?c6 bs n) (\<lambda>(st, n).
       Inr (\<lparr> wBlockNumber = bn, wRootHash = rh, wAccounts = acs, wCodeCount = cc, wCodePreimage = cp, wStorage = st \<rparr>, n))))))))
     (e1 @ e2 @ e3 @ e4 @ e5 @ e6 @ [])
     \<lparr> wBlockNumber = wBlockNumber v, wRootHash = wRootHash v, wAccounts = v3, wCodeCount = v4, wCodePreimage = v5, wStorage = v6 \<rparr>"
    by (rule takes_seq [OF takes_get [OF e1(3)]], rule takes_seq [OF takes_get [OF e2(3)]], rule takes_seq [OF takes_get [OF e3(3)]],
        rule takes_seq [OF takes_get [OF e4(3)]], rule takes_seq [OF takes_get [OF e5(3)]], rule takes_seq [OF takes_get [OF e6(3)]],
        rule takes_return)
  show ?thesis
    by (rule codes_struct [OF em tk])
      (simp_all add: same_wire_def layerLogCodec_def MarshalLayerLog_def UnmarshalLayerLog_def SizeLayerLog_def
        e1(2) e2(2) e3(2,4) e4(2,4) e5(2,4) e6(2,4) sizes)
qed

lemma wire_of_ok:
  assumes "lib_law L" "log_distinct l" "distinct (map fst (lCodePreimage l))" "\<forall>x\<in>set (UpdatedCodeCount l). int64 (snd x)"
  shows "wire_ok (wire_of L l)"
proof -
  have i: "inj (\<lambda>(a, v). GetAccountStorageKey L a v)"
    by (rule injI) (use account_storage_key [OF assms(1)] in \<open>auto split: prod.splits\<close>)
  have "map fst (wStorage (wire_of L l)) = map (\<lambda>(a, v). GetAccountStorageKey L a v) (map fst (UpdatedStorage l))"
    by (simp add: wire_of_def case_prod_beta)
  moreover have "distinct (map (\<lambda>(a, v). GetAccountStorageKey L a v) (map fst (UpdatedStorage l)))"
    by (rule distinct_map [THEN iffD2], intro conjI inj_on_subset [OF i]) (use assms(2) in \<open>simp_all add: log_distinct_def\<close>)
  ultimately have "distinct (map fst (wStorage (wire_of L l)))" by simp
  then show ?thesis using assms(2-4) by (auto simp: wire_ok_def wire_of_def log_distinct_def)
qed

subsection \<open>Encoding and decoding\<close>

lemma encode_decode:
  assumes "codes R c v"
  shows "\<exists>bs v'. encode c v = Some bs \<and> decode c bs = Inr v' \<and> R v v'"
proof -
  obtain enc v' where c: "writes c v enc" "csize c v = length enc" "reads c enc v'" "R v v'" using assms by (rule codesE)
  have "encode c v = Some enc" using c(1,2) by (simp add: encode_def writes_def)
  moreover have "decode c enc = Inr v'" using c(3) unfolding decode_def reads_def by (metis append_Nil2 prod.case rbind_simps(2))
  ultimately show ?thesis using c(4) by blast
qed

lemma encode_decode_eq: "codes (=) c v \<Longrightarrow> \<exists>bs. encode c v = Some bs \<and> decode c bs = Inr v"
  using encode_decode by fastforce

text \<open>(C30)
  A layer log written to the state store is read back: encoding it never overruns its buffer,
  and decoding the bytes gives the same block number, root, accounts, code counts, codes and
  storages, every map with the same entries.
\<close>

theorem layer_log_roundtrip:
  assumes "lib_law L" and "mus_law M" and "log_distinct l" and "distinct (map fst (lCodePreimage l))"
    and "\<forall>x\<in>set (UpdatedCodeCount l). int64 (snd x)"
  shows "\<exists>bs v. encodeLayerLog L M (wire_of L l) = Some bs \<and> decodeLayerLog L M bs = Inr v \<and> same_wire (wire_of L l) v"
  unfolding encodeLayerLog_def decodeLayerLog_def
  by (rule encode_decode [OF codes_layer_log [OF assms(1,2) wire_of_ok [OF assms(1,3-5)]]])

text \<open>(C31)
  The other values of the state store are read back as they were written: the persisted height,
  the children of a layer, accounts, versions, slots and codes with their counts.
\<close>

theorem store_codecs_roundtrip:
  assumes "lib_law L" and "mus_law M" and "int64 cnt"
  shows "(\<exists>bs. encodePersistedHeight L M height root = Some bs \<and> decodePersistedHeight L M bs = Inr (height, root)) \<and>
    (\<exists>bs. encodeChildren L M children = Some bs \<and> decodeChildren L M bs = Inr children) \<and>
    (\<exists>bs. encodeAccountValue L M acct = Some bs \<and> decodeAccountValue L M bs = Inr acct) \<and>
    decodeAccountVersion (encodeAccountVersion ver) = Inr ver \<and>
    (\<exists>bs. encodeStorage L M val = Some bs \<and> decodeStorage L M bs = Inr val) \<and>
    (\<exists>bs. encodeCodeValue M code cnt = Some bs \<and> decodeCodeValue M bs = Inr (code, cnt))"
proof (intro conjI)
  have cc: "codes (=) (codeCodec M) (code, cnt)" by (rule codes_code [OF assms(2)]) (simp add: assms(3))
  show "\<exists>bs. encodePersistedHeight L M height root = Some bs \<and> decodePersistedHeight L M bs = Inr (height, root)"
    unfolding encodePersistedHeight_def decodePersistedHeight_def by (rule encode_decode_eq [OF codes_height [OF assms(1,2)]])
  show "\<exists>bs. encodeChildren L M children = Some bs \<and> decodeChildren L M bs = Inr children"
    unfolding encodeChildren_def decodeChildren_def
    by (rule encode_decode_eq [OF mus_lawD(6) [OF assms(2) codes_hash [OF assms(1,2)]]])
  show "\<exists>bs. encodeAccountValue L M acct = Some bs \<and> decodeAccountValue L M bs = Inr acct"
    unfolding encodeAccountValue_def decodeAccountValue_def by (rule encode_decode_eq [OF codes_account [OF assms(1,2)]])
  show "decodeAccountVersion (encodeAccountVersion ver) = Inr ver"
    by (simp add: decodeAccountVersion_def encodeAccountVersion_def little_endian.dec_enc) (simp add: PutUint64_def)
  show "\<exists>bs. encodeStorage L M val = Some bs \<and> decodeStorage L M bs = Inr val"
    unfolding encodeStorage_def decodeStorage_def by (rule encode_decode_eq [OF codes_hash [OF assms(1,2)]])
  show "\<exists>bs. encodeCodeValue M code cnt = Some bs \<and> decodeCodeValue M bs = Inr (code, cnt)"
    unfolding encodeCodeValue_def decodeCodeValue_def by (rule encode_decode_eq [OF cc])
qed

text \<open>The block store; RLP and JSON must read back what they have written of these values.\<close>

lemma indexed_roundtrip:
  assumes L: "lib_law L" and M: "mus_law M" and p: "parse dat = Some x"
  shows "\<exists>bs. encodeIndexed L M dat h i = Some bs \<and> decodeIndexed L M parse bs = Inr (x, h, i)"
proof -
  obtain e1 where e1: "writes (bytesCodec M) dat e1" "csize (bytesCodec M) dat = length e1" "reads (bytesCodec M) e1 dat"
    using codes_bytes [OF M] by (rule codes_eqE)
  obtain e2 where e2: "writes (hashCodec L M) h e2" "csize (hashCodec L M) h = length e2" "reads (hashCodec L M) e2 h"
    using codes_hash [OF L M] by (rule codes_eqE)
  obtain e3 where e3: "writes (musUint64 M) i e3" "csize (musUint64 M) i = length e3" "reads (musUint64 M) e3 i"
    using mus_lawD(1) [OF M] by (rule codes_eqE)
  have em: "emits (\<lambda>s. Option.bind (put_next (bytesCodec M) dat s) (\<lambda>s. Option.bind (put_next (hashCodec L M) h s)
      (put_next (musUint64 M) i))) (e1 @ e2 @ e3)"
    by (intro emits_seq emits_put e1 e2 e3)
  have "encodeIndexed L M dat h i = Some (e1 @ e2 @ e3)"
    using emits_first [OF em, of "replicate (length (e1 @ e2 @ e3)) 0"]
    by (simp add: encodeIndexed_def sizes e1(2) e2(2) e3(2) add.assoc)
  moreover have "get_next (bytesCodec M) (e1 @ e2 @ e3) 0 = Inr (dat, length e1)"
    using takes_first [OF takes_get [OF e1(3)], of "e2 @ e3"] by simp
  moreover have "get_next (hashCodec L M) (e1 @ e2 @ e3) (length e1) = Inr (h, length e1 + length e2)"
    using takes_get [OF e2(3)] unfolding takes_def by blast
  moreover have "get_next (musUint64 M) (e1 @ e2 @ e3) (length e1 + length e2) = Inr (i, length e1 + length e2 + length e3)"
    using takes_get [OF e3(3)] unfolding takes_def by (metis append.assoc append_Nil2 length_append)
  ultimately show ?thesis using p by (simp add: decodeIndexed_def)
qed

text \<open>(C32)
  The values of the block store are read back as they were written: blocks, the forks of a
  height, and transactions and receipts with the hash of their block and their index.
\<close>

theorem chain_codecs_roundtrip:
  assumes "lib_law L" and "mus_law M" and "unrlpBlock R (rlpBlock R blk) = Some blk"
    and "unrlpTx R (rlpTx R tx) = Some tx" and "unjsonReceipt R (jsonReceipt R rc) = Some rc"
  shows "decodeBlock R (encodeBlock R blk) = Inr blk \<and>
    (\<exists>bs. encodeForks L M forks = Some bs \<and> decodeForks L M bs = Inr forks) \<and>
    (\<exists>bs. encodeTransaction L M R tx h i = Some bs \<and> decodeTransaction L M R bs = Inr (tx, h, i)) \<and>
    (\<exists>bs. encodeReceipt L M R rc h i = Some bs \<and> decodeReceipt L M R bs = Inr (rc, h, i))"
proof (intro conjI)
  show "decodeBlock R (encodeBlock R blk) = Inr blk" using assms(3) by (simp add: decodeBlock_def encodeBlock_def)
  show "\<exists>bs. encodeForks L M forks = Some bs \<and> decodeForks L M bs = Inr forks"
    unfolding encodeForks_def decodeForks_def
    by (rule encode_decode_eq [OF mus_lawD(6) [OF assms(2) codes_hash [OF assms(1,2)]]])
  show "\<exists>bs. encodeTransaction L M R tx h i = Some bs \<and> decodeTransaction L M R bs = Inr (tx, h, i)"
    unfolding encodeTransaction_def decodeTransaction_def by (rule indexed_roundtrip [where parse = "unrlpTx R", OF assms(1,2,4)])
  show "\<exists>bs. encodeReceipt L M R rc h i = Some bs \<and> decodeReceipt L M R bs = Inr (rc, h, i)"
    unfolding encodeReceipt_def decodeReceipt_def by (rule indexed_roundtrip [where parse = "unjsonReceipt R", OF assms(1,2,5)])
qed

end
