(* ===== verification/CodecDemo.thy ===== *)
theory CodecDemo
  imports CodecLaws ChainDemo
begin

section \<open>A marshalling library that keeps its promises\<close>

text \<open>
  Codecs for which \<open>mus_law\<close> holds: eight bytes for a number, a marker byte before every element
  of a slice or map and another one at its end. They show that what is assumed of the mus
  library can be had, and the properties of the codecs are applied to them.
\<close>

definition simple :: "('a \<Rightarrow> bytes) \<Rightarrow> (bytes \<Rightarrow> mus_err + ('a \<times> nat)) \<Rightarrow> 'a codec" where
  "simple enc dec = \<lparr> marshal = (\<lambda>v bs. if length (enc v) \<le> length bs then Some (enc v @ drop (length (enc v)) bs, length (enc v)) else None),
     unmarshal = dec, csize = (\<lambda>v. length (enc v)) \<rparr>"

lemma codes_simple: "(\<And>rest. dec (enc v @ rest) = Inr (v', length (enc v))) \<Longrightarrow> R v v' \<Longrightarrow> codes R (simple enc dec) v"
  unfolding codes_def writes_def reads_def simple_def by (intro exI [of _ "enc v"] exI [of _ v']) simp

definition enc_of :: "'a codec \<Rightarrow> 'a \<Rightarrow> bytes" where
  "enc_of c v = (case marshal c v (replicate (csize c v) 0) of Some (bs, n) \<Rightarrow> take n bs | None \<Rightarrow> [])"

lemma enc_of_writes: "writes c v enc \<Longrightarrow> csize c v = length enc \<Longrightarrow> enc_of c v = enc"
  by (simp add: enc_of_def writes_def)

subsection \<open>Lists and maps\<close>

fun dec_list :: "(bytes \<Rightarrow> mus_err + ('a \<times> nat)) \<Rightarrow> bytes \<Rightarrow> mus_err + ('a list \<times> nat)" where
  "dec_list d [] = Inl MusErr"
| "dec_list d (t # bs) =
     (if t = 0 then Inr ([], 1)
      else (case d bs of
              Inl e \<Rightarrow> Inl e
            | Inr (x, k) \<Rightarrow>
                (case dec_list d (drop k bs) of Inl e \<Rightarrow> Inl e | Inr (xs, n) \<Rightarrow> Inr (x # xs, 1 + k + n))))"

definition enc_list :: "('a \<Rightarrow> bytes) \<Rightarrow> 'a list \<Rightarrow> bytes" where
  "enc_list e xs = concat (map (\<lambda>x. 1 # e x) xs) @ [0]"

definition list_codec :: "'a codec \<Rightarrow> 'a list codec" where
  "list_codec c = simple (enc_list (enc_of c)) (dec_list (unmarshal c))"

lemma dec_enc_list:
  assumes "\<forall>x\<in>set xs. codes R c x"
  shows "\<exists>ys. list_all2 R xs ys \<and> (\<forall>rest. dec_list (unmarshal c) (enc_list (enc_of c) xs @ rest) = Inr (ys, length (enc_list (enc_of c) xs)))"
  using assms
proof (induction xs)
  case Nil
  then show ?case by (simp add: enc_list_def)
next
  case (Cons x xs)
  from Cons obtain ys where ys: "list_all2 R xs ys"
    "\<And>rest. dec_list (unmarshal c) (enc_list (enc_of c) xs @ rest) = Inr (ys, length (enc_list (enc_of c) xs))" by auto
  from Cons.prems have "codes R c x" by simp
  then obtain enc y where y: "writes c x enc" "csize c x = length enc" "reads c enc y" "R x y" by (rule codesE)
  have e: "enc_list (enc_of c) (x # xs) = 1 # enc @ enc_list (enc_of c) xs"
    by (simp add: enc_list_def enc_of_writes [OF y(1,2)])
  have "dec_list (unmarshal c) (enc_list (enc_of c) (x # xs) @ rest) = Inr (y # ys, length (enc_list (enc_of c) (x # xs)))" for rest
    using y(3) ys(2) [of rest] unfolding e reads_def by simp
  then show ?case using ys(1) y(4) by (intro exI [of _ "y # ys"]) simp
qed

lemma codes_list: "\<forall>x\<in>set xs. codes R c x \<Longrightarrow> codes (list_all2 R) (list_codec c) xs"
  using dec_enc_list [of xs R c] unfolding list_codec_def by (blast intro: codes_simple)

definition pair_codec :: "'a codec \<Rightarrow> 'b codec \<Rightarrow> ('a \<times> 'b) codec" where
  "pair_codec c d = simple (\<lambda>(x, y). enc_of c x @ enc_of d y)
     (\<lambda>bs. rbind (get_next c bs 0) (\<lambda>(x, n). rbind (get_next d bs n) (\<lambda>(y, n). Inr ((x, y), n))))"

lemma codes_pair_codec:
  assumes "codes (=) c (fst v)" "codes R d (snd v)"
  shows "codes (rel_prod (=) R) (pair_codec c d) v"
proof -
  obtain e1 where e1: "writes c (fst v) e1" "csize c (fst v) = length e1" "reads c e1 (fst v)" using assms(1) by (rule codes_eqE)
  obtain e2 y where e2: "writes d (snd v) e2" "csize d (snd v) = length e2" "reads d e2 y" "R (snd v) y" using assms(2) by (rule codesE)
  have tk: "takes (\<lambda>bs n. rbind (get_next c bs n) (\<lambda>(x, n). rbind (get_next d bs n) (\<lambda>(y, n). Inr ((x, y), n))))
      (e1 @ e2 @ []) (fst v, y)"
    by (rule takes_seq [OF takes_get [OF e1(3)]], rule takes_seq [OF takes_get [OF e2(3)]], rule takes_return)
  show ?thesis unfolding pair_codec_def
    by (rule codes_simple [of _ _ _ "(fst v, y)"])
      (use takes_first [OF tk] e2(4) in \<open>simp_all add: case_prod_beta enc_of_writes [OF e1(1,2)] enc_of_writes [OF e2(1,2)] rel_prod_sel\<close>)
qed

definition map_codec :: "'k codec \<Rightarrow> 'v codec \<Rightarrow> ('k, 'v) gmap codec" where
  "map_codec ck cv = list_codec (pair_codec ck cv)"

lemma same_map_list: "list_all2 (rel_prod (=) R) m m' \<Longrightarrow> distinct (map fst m) \<Longrightarrow> same_map R m m'"
proof (induction m m' rule: list_all2_induct)
  case Nil
  then show ?case by (simp add: same_map_def)
next
  case (Cons x xs y ys)
  have "map fst xs = map fst ys" using Cons.hyps(2) by (induction rule: list_all2_induct) (auto simp: rel_prod_sel)
  then show ?case using Cons by (cases x; cases y) (auto simp: same_map_def)
qed

lemma codes_mono: "codes R c v \<Longrightarrow> (\<And>v'. R v v' \<Longrightarrow> S v v') \<Longrightarrow> codes S c v"
  unfolding codes_def by blast

lemma map_codec_law: "map_law R map_codec"
proof -
  have "codes (same_map R) (map_codec ck cv) m"
    if "distinct (map fst m)" "\<forall>x\<in>set m. codes (=) ck (fst x) \<and> codes R cv (snd x)" for ck cv m
    unfolding map_codec_def
  proof (rule codes_mono [OF codes_list])
    show "\<forall>x\<in>set m. codes (rel_prod (=) R) (pair_codec ck cv) x" using codes_pair_codec that(2) by blast
    show "same_map R m m'" if "list_all2 (rel_prod (=) R) m m'" for m' using same_map_list that \<open>distinct (map fst m)\<close> by blast
  qed
  then show ?thesis unfolding map_law_def by blast
qed

subsection \<open>Numbers, bytes and strings\<close>

definition u64_codec :: "u64 codec" where
  "u64_codec = simple PutUint64 (\<lambda>bs. if length bs < 8 then Inl MusErr else Inr (Uint64 bs, 8))"

lemma PutUint64_length [simp]: "length (PutUint64 v) = 8"
  by (simp add: PutUint64_def)

lemma Uint64_app: "Uint64 (PutUint64 v @ rest) = v"
  using little_endian.dec_enc [of v] by (simp add: Uint64_def)

lemma codes_u64: "codes (=) u64_codec v"
  unfolding u64_codec_def by (rule codes_simple) (simp_all add: Uint64_app)

definition i64_codec :: "int codec" where
  "i64_codec = simple (\<lambda>i. PutUint64 (word_of_int i)) (\<lambda>bs. if length bs < 8 then Inl MusErr else Inr (sint (Uint64 bs), 8))"

lemma codes_i64: "int64 i \<Longrightarrow> codes (=) i64_codec i"
  unfolding i64_codec_def
  by (rule codes_simple) (simp_all add: Uint64_app int64_def signed_of_int signed_take_bit_int_eq_self)

definition bool_codec :: "bool codec" where
  "bool_codec = simple (\<lambda>b. [if b then 1 else 0]) (\<lambda>bs. case bs of [] \<Rightarrow> Inl MusErr | x # r \<Rightarrow> Inr (x \<noteq> 0, 1))"

lemma codes_bool: "codes (=) bool_codec b"
  unfolding bool_codec_def by (rule codes_simple) simp_all

definition byte_codec :: "u8 codec" where
  "byte_codec = simple (\<lambda>b. [b]) (\<lambda>bs. case bs of [] \<Rightarrow> Inl MusErr | x # r \<Rightarrow> Inr (x, 1))"

lemma codes_byte: "codes (=) byte_codec b"
  unfolding byte_codec_def by (rule codes_simple) simp_all

definition char_codec :: "char codec" where
  "char_codec = simple (\<lambda>c. [of_nat (of_char c)]) (\<lambda>bs. case bs of [] \<Rightarrow> Inl MusErr | x # r \<Rightarrow> Inr (char_of (unat x), 1))"

lemma codes_char: "codes (=) char_codec c"
proof -
  have "unat (of_nat (of_char c) :: u8) = of_char c" by (simp add: unat_of_nat)
  then show ?thesis unfolding char_codec_def by (intro codes_simple) simp_all
qed

lemma codes_list_eq: "(\<And>x. x \<in> set xs \<Longrightarrow> codes (=) c x) \<Longrightarrow> codes (=) (list_codec c) xs"
  using codes_list [of xs "(=)" c] by (simp add: list.rel_eq)

definition demo_mus :: mus where
  "demo_mus = \<lparr> musUint64 = u64_codec, musInt64 = i64_codec, musBool = bool_codec, musString = list_codec char_codec,
     musBytes = list_codec byte_codec, musSlice = list_codec, musMapStorage = map_codec, musMapAccounts = map_codec,
     musMapCount = map_codec, musMapCode = map_codec, musMapLog = map_codec,
     u256Bytes = (\<lambda>v. rev (le_bytes 32 (unat v))), u256Of = (\<lambda>bs. of_nat (le_nat (rev bs))) \<rparr>"

lemma demo_mus_law: "mus_law demo_mus"
proof -
  have u: "(of_nat (le_nat (le_bytes 32 (unat v))) :: u256) = v" for v :: u256
  proof -
    have "unat v < 2 ^ 256" using unsigned_less [of v] by simp
    then show ?thesis by (simp add: le_nat_bytes)
  qed
  show ?thesis unfolding mus_law_def demo_mus_def mus.simps
    by (intro conjI allI impI codes_u64 codes_i64 codes_bool codes_list_eq codes_char codes_byte map_codec_law)
      (simp_all add: u)
qed

subsection \<open>Examples\<close>

definition demo_wire_log :: layer_log where
  "demo_wire_log = \<lparr> BlockNumber = 3, RootHash = 31,
     UpdatedAccounts = [(1, \<lparr> Nonce = 2, Balance = 4, CodeHash = 101, DirtyStorage = True, Version = 1 \<rparr>)],
     UpdatedCodeCount = [(101, - 1)], lCodePreimage = [(101, [96, 0])], UpdatedStorage = [((1, 1), [(4, 5)])] \<rparr>"

theorem layer_log_roundtrip_witness:
  "\<exists>bs v. encodeLayerLog demo_lib demo_mus (wire_of demo_lib demo_wire_log) = Some bs \<and>
     decodeLayerLog demo_lib demo_mus bs = Inr v \<and> map_of (wCodeCount v) 101 = Some (- 1)"
proof -
  have d: "log_distinct demo_wire_log" "distinct (map fst (lCodePreimage demo_wire_log))"
    "\<forall>x\<in>set (UpdatedCodeCount demo_wire_log). int64 (snd x)"
    by (simp_all add: demo_wire_log_def log_distinct_def int64_def)
  obtain bs v where r: "encodeLayerLog demo_lib demo_mus (wire_of demo_lib demo_wire_log) = Some bs"
    "decodeLayerLog demo_lib demo_mus bs = Inr v" "same_wire (wire_of demo_lib demo_wire_log) v"
    using layer_log_roundtrip [OF demo_lib_law demo_mus_law d] by blast
  have "rel_option (=) (map_of (wCodeCount (wire_of demo_lib demo_wire_log)) 101) (map_of (wCodeCount v) 101)"
    using r(3) unfolding same_wire_def same_map_def by blast
  then have "map_of (wCodeCount v) 101 = Some (- 1)"
    by (simp add: wire_of_def demo_wire_log_def option.rel_eq)
  with r(1,2) show ?thesis by blast
qed

theorem store_codecs_roundtrip_witness:
  "(\<exists>bs. encodeCodeValue demo_mus [96, 0] (- 2) = Some bs \<and> decodeCodeValue demo_mus bs = Inr ([96, 0], - 2)) \<and>
   (\<exists>bs. encodeChildren demo_lib demo_mus [11, 12] = Some bs \<and> decodeChildren demo_lib demo_mus bs = Inr [11, 12])"
proof -
  have "int64 (- 2)" by (simp add: int64_def)
  from store_codecs_roundtrip [OF demo_lib_law demo_mus_law this] show ?thesis by blast
qed

definition demo_chain_lib :: chain_lib where
  "demo_chain_lib = \<lparr> rlpBlock = (\<lambda>b. if b = demo_block 101 100 1 [] then [1] else [0]),
     unrlpBlock = (\<lambda>bs. if bs = [1] then Some (demo_block 101 100 1 []) else None),
     rlpTx = (\<lambda>t. if t = demo_tx then [2] else [0]), unrlpTx = (\<lambda>bs. if bs = [2] then Some demo_tx else None),
     jsonReceipt = (\<lambda>r. if r = demo_receipt then [3] else [0]),
     unjsonReceipt = (\<lambda>bs. if bs = [3] then Some demo_receipt else None) \<rparr>"

theorem chain_codecs_roundtrip_witness:
  "\<exists>bs. encodeTransaction demo_lib demo_mus demo_chain_lib demo_tx 203 0 = Some bs \<and>
     decodeTransaction demo_lib demo_mus demo_chain_lib bs = Inr (demo_tx, 203, 0)"
proof -
  have r: "unrlpBlock demo_chain_lib (rlpBlock demo_chain_lib (demo_block 101 100 1 [])) = Some (demo_block 101 100 1 [])"
    "unrlpTx demo_chain_lib (rlpTx demo_chain_lib demo_tx) = Some demo_tx"
    "unjsonReceipt demo_chain_lib (jsonReceipt demo_chain_lib demo_receipt) = Some demo_receipt"
    by (simp_all add: demo_chain_lib_def)
  show ?thesis using chain_codecs_roundtrip [OF demo_lib_law demo_mus_law r] by blast
qed

end
