(* ===== verification/Calls.thy ===== *)
theory Calls
  imports Processor
begin

section \<open>Arguments of a call\<close>

text \<open>
  The arguments of \<open>eth_call\<close>, \<open>eth_estimateGas\<close> and \<open>debug_traceCall\<close> (\<open>rpc/helper.go\<close>):
  \<open>CallDefaults\<close> fills in what is missing, \<open>ToMessage\<close> makes the EVM's message of them, the
  overrides change block context and state first. A pointer is an \<open>option\<close>, a \<open>big.Int\<close> an
  \<open>int\<close>. The fields for blobs, which only \<open>ToTransaction\<close> reads, are not modelled.
\<close>

type_synonym access_list = "(address \<times> hash list) list"

record transaction_args =
  taFrom :: "address option"
  taTo :: "address option"
  taGas :: "u64 option"
  taGasPrice :: "int option"
  taMaxFeePerGas :: "int option"
  taMaxPriorityFeePerGas :: "int option"
  taValue :: "int option"
  taNonce :: "u64 option"
  taData :: "bytes option"
  taInput :: "bytes option"
  taAccessList :: "access_list option"
  taChainID :: "int option"
  taBlobFeeCap :: "int option"
  taBlobHashes :: "hash list option"
  taAuthorizationList :: "bytes list option"

record message =
  mFrom :: address
  mTo :: "address option"
  mValue :: "int option"
  mNonce :: u64
  mGasLimit :: u64
  mGasPrice :: "int option"
  mGasFeeCap :: "int option"
  mGasTipCap :: "int option"
  mData :: bytes
  mAccessList :: access_list
  mBlobGasFeeCap :: "int option"
  mBlobHashes :: "hash list"
  mSetCodeAuthorizations :: "bytes list"
  mSkipNonceChecks :: bool
  mSkipFromEOACheck :: bool

datatype call_err =
    CGasPriceAndFees
  | CChainId int int
  | CStateAndStateDiff address
  | CPanic panic

definition taking :: "'a option \<Rightarrow> 'a \<Rightarrow> 'a" where
  "taking p d = (case p of None \<Rightarrow> d | Some x \<Rightarrow> x)"

definition args_from :: "transaction_args \<Rightarrow> address" where
  "args_from args = taking (taFrom args) 0"

definition args_data :: "transaction_args \<Rightarrow> bytes" where
  "args_data args = (case taInput args of Some d \<Rightarrow> d | None \<Rightarrow> taking (taData args) [])"

text \<open>The pointer is set to a new zero value if it is nil.\<close>

definition or_new :: "'a :: zero option \<Rightarrow> 'a option" where
  "or_new p = (case p of None \<Rightarrow> Some 0 | Some x \<Rightarrow> Some x)"

definition default_gas :: "u64 \<Rightarrow> u64 option \<Rightarrow> u64" where
  "default_gas globalGasCap g =
     (case g of
        None \<Rightarrow> if globalGasCap = 0 then - 1 div 2 else globalGasCap
      | Some gas \<Rightarrow> if globalGasCap > 0 \<and> globalGasCap < gas then globalGasCap else gas)"

definition fill_defaults :: "u64 \<Rightarrow> int option \<Rightarrow> int \<Rightarrow> transaction_args \<Rightarrow> transaction_args" where
  "fill_defaults globalGasCap baseFee chain args =
     (let args1 = args\<lparr>taChainID := Some chain, taGas := Some (default_gas globalGasCap (taGas args)),
            taNonce := or_new (taNonce args), taValue := or_new (taValue args)\<rparr>;
          args2 = (if baseFee = None then args1\<lparr>taGasPrice := or_new (taGasPrice args1)\<rparr>
            else args1\<lparr>taMaxFeePerGas := or_new (taMaxFeePerGas args1),
              taMaxPriorityFeePerGas := or_new (taMaxPriorityFeePerGas args1)\<rparr>)
      in if taBlobFeeCap args2 = None \<and> taBlobHashes args2 \<noteq> None
         then args2\<lparr>taBlobFeeCap := Some 0\<rparr> else args2)"

definition CallDefaults :: "u64 \<Rightarrow> int option \<Rightarrow> int \<Rightarrow> transaction_args \<Rightarrow> call_err + transaction_args" where
  "CallDefaults globalGasCap baseFee chainID args =
     (if taGasPrice args \<noteq> None \<and> (taMaxFeePerGas args \<noteq> None \<or> taMaxPriorityFeePerGas args \<noteq> None)
      then Inl CGasPriceAndFees
      else rbind
        (case taChainID args of
           None \<Rightarrow> Inr chainID
         | Some have_id \<Rightarrow> if have_id \<noteq> chainID then Inl (CChainId have_id chainID) else Inr have_id)
        (\<lambda>chain. Inr (fill_defaults globalGasCap baseFee chain args)))"

text \<open>A method or field of a nil pointer is a panic; \<open>ToInt\<close> of a nil \<open>hexutil.Big\<close> is nil.\<close>

definition deref :: "'a option \<Rightarrow> panic + 'a" where
  "deref p = (case p of None \<Rightarrow> Inl NilHook | Some x \<Rightarrow> Inr x)"

text \<open>The gas price, fee cap and tip cap of a message. A \<open>big.Int\<close> has 0 bits only when it is 0.\<close>

definition message_fees ::
  "int option \<Rightarrow> transaction_args \<Rightarrow> panic + (int option \<times> int option \<times> int option)"
where
  "message_fees baseFee args =
     (case baseFee of
        None \<Rightarrow> Inr (taGasPrice args, taGasPrice args, taGasPrice args)
      | Some base \<Rightarrow>
          (case taGasPrice args of
             Some p \<Rightarrow> Inr (Some p, Some p, Some p)
           | None \<Rightarrow>
               rbind (deref (taMaxFeePerGas args)) (\<lambda>feeCap.
               rbind (if feeCap \<noteq> 0 then Inr True else rbind (deref (taMaxPriorityFeePerGas args)) (\<lambda>t. Inr (t \<noteq> 0)))
                 (\<lambda>some_fee. if some_fee
                   then rbind (deref (taMaxPriorityFeePerGas args)) (\<lambda>tip.
                     Inr (Some (if tip + base > feeCap then feeCap else tip + base), Some feeCap, Some tip))
                   else Inr (Some 0, Some feeCap, taMaxPriorityFeePerGas args)))))"

definition ToMessage :: "int option \<Rightarrow> bool \<Rightarrow> bool \<Rightarrow> transaction_args \<Rightarrow> panic + message" where
  "ToMessage baseFee skipNonceCheck skipEoACheck args =
     rbind (message_fees baseFee args) (\<lambda>(gasPrice, gasFeeCap, gasTipCap).
     rbind (deref (taNonce args)) (\<lambda>n.
     rbind (deref (taGas args)) (\<lambda>gas.
       Inr \<lparr> mFrom = args_from args, mTo = taTo args, mValue = taValue args, mNonce = n, mGasLimit = gas,
         mGasPrice = gasPrice, mGasFeeCap = gasFeeCap, mGasTipCap = gasTipCap, mData = args_data args,
         mAccessList = taking (taAccessList args) [], mBlobGasFeeCap = taBlobFeeCap args,
         mBlobHashes = taking (taBlobHashes args) [],
         mSetCodeAuthorizations = taking (taAuthorizationList args) [],
         mSkipNonceChecks = skipNonceCheck, mSkipFromEOACheck = skipEoACheck \<rparr>)))"

subsection \<open>The message of a call\<close>

lemma default_gas_cap: "globalGasCap \<noteq> 0 \<Longrightarrow> default_gas globalGasCap g \<le> globalGasCap"
  by (auto simp: default_gas_def word_neq_0_conv not_less split: option.splits)

lemma or_new_Some [simp]: "or_new p = Some (taking p 0)" "taking (Some x) d = x"
  by (simp_all add: or_new_def taking_def split: option.split)

lemma default_gas_same: "globalGasCap = 0 \<or> gas \<le> globalGasCap \<Longrightarrow> default_gas globalGasCap (Some gas) = gas"
  by (auto simp: default_gas_def)

lemma defaults_args:
  assumes "CallDefaults globalGasCap baseFee chainID args = Inr args'"
  shows "taFrom args' = taFrom args" "taTo args' = taTo args" "taData args' = taData args" "taInput args' = taInput args"
    "taValue args' = Some (taking (taValue args) 0)" "taNonce args' = Some (taking (taNonce args) 0)"
    "taGas args' = Some (default_gas globalGasCap (taGas args))" "taBlobHashes args' = taBlobHashes args"
    "taBlobHashes args \<noteq> None \<Longrightarrow> taBlobFeeCap args' \<noteq> None"
    "taGasPrice args' = (if baseFee = None then Some (taking (taGasPrice args) 0) else taGasPrice args)"
    "baseFee \<noteq> None \<Longrightarrow> taMaxFeePerGas args' = Some (taking (taMaxFeePerGas args) 0)"
    "baseFee \<noteq> None \<Longrightarrow> taMaxPriorityFeePerGas args' = Some (taking (taMaxPriorityFeePerGas args) 0)"
proof -
  obtain chain where a': "args' = fill_defaults globalGasCap baseFee chain args"
    using assms by (auto simp: CallDefaults_def rbind_Inr_iff split: if_splits)
  show "taFrom args' = taFrom args" "taTo args' = taTo args" "taData args' = taData args" "taInput args' = taInput args"
    "taValue args' = Some (taking (taValue args) 0)" "taNonce args' = Some (taking (taNonce args) 0)"
    "taGas args' = Some (default_gas globalGasCap (taGas args))" "taBlobHashes args' = taBlobHashes args"
    "taBlobHashes args \<noteq> None \<Longrightarrow> taBlobFeeCap args' \<noteq> None"
    "taGasPrice args' = (if baseFee = None then Some (taking (taGasPrice args) 0) else taGasPrice args)"
    "baseFee \<noteq> None \<Longrightarrow> taMaxFeePerGas args' = Some (taking (taMaxFeePerGas args) 0)"
    "baseFee \<noteq> None \<Longrightarrow> taMaxPriorityFeePerGas args' = Some (taking (taMaxPriorityFeePerGas args) 0)"
    by (cases baseFee; simp add: a' fill_defaults_def Let_def; cases "taBlobHashes args"; simp)+
qed

text \<open>The fees of the message of arguments with the defaults filled in.\<close>

definition fee_price :: "int option \<Rightarrow> transaction_args \<Rightarrow> int" where
  "fee_price baseFee args =
     (case (baseFee, taGasPrice args) of
        (_, Some p) \<Rightarrow> p
      | (None, None) \<Rightarrow> 0
      | (Some base, None) \<Rightarrow>
          (if taking (taMaxFeePerGas args) 0 = 0 \<and> taking (taMaxPriorityFeePerGas args) 0 = 0 then 0
           else min (taking (taMaxPriorityFeePerGas args) 0 + base) (taking (taMaxFeePerGas args) 0)))"

definition fee_caps :: "int option \<Rightarrow> transaction_args \<Rightarrow> int \<times> int" where
  "fee_caps baseFee args =
     (case (baseFee, taGasPrice args) of
        (_, Some p) \<Rightarrow> (p, p)
      | (None, None) \<Rightarrow> (0, 0)
      | (Some base, None) \<Rightarrow> (taking (taMaxFeePerGas args) 0, taking (taMaxPriorityFeePerGas args) 0))"

lemma defaults_fees:
  assumes "CallDefaults globalGasCap baseFee chainID args = Inr args'"
  shows "message_fees baseFee args' =
    Inr (Some (fee_price baseFee args), Some (fst (fee_caps baseFee args)), Some (snd (fee_caps baseFee args)))"
proof -
  have p: "taGasPrice args' = (if baseFee = None then Some (taking (taGasPrice args) 0) else taGasPrice args)"
    "baseFee \<noteq> None \<Longrightarrow> taMaxFeePerGas args' = Some (taking (taMaxFeePerGas args) 0)"
    "baseFee \<noteq> None \<Longrightarrow> taMaxPriorityFeePerGas args' = Some (taking (taMaxPriorityFeePerGas args) 0)"
    using defaults_args [OF assms] by simp_all
  then show ?thesis
    by (cases baseFee; cases "taGasPrice args")
      (auto simp: message_fees_def deref_def taking_def fee_price_def fee_caps_def)
qed

text \<open>(C40)
  What a call runs: once \<open>CallDefaults\<close> has accepted the arguments, \<open>ToMessage\<close> with the same
  base fee never dereferences a nil pointer, and its message has sender, recipient, data, value
  and nonce of the arguments (0 when missing), a gas limit within the cap when there is one and
  the one asked for when that is within the cap, a fee cap for its blobs, and consistent fees:
  a legacy gas price is price, fee cap and tip cap at once; else the price is tip plus base fee,
  at most the fee cap, and 0 when both caps are 0.
\<close>

theorem call_message:
  assumes "CallDefaults globalGasCap baseFee chainID args = Inr args'"
  shows "\<exists>m. ToMessage baseFee sn se args' = Inr m \<and>
    mFrom m = args_from args \<and> mTo m = taTo args \<and> mData m = args_data args \<and>
    mValue m = Some (taking (taValue args) 0) \<and> mNonce m = taking (taNonce args) 0 \<and>
    (globalGasCap \<noteq> 0 \<longrightarrow> mGasLimit m \<le> globalGasCap) \<and>
    (\<forall>gas. taGas args = Some gas \<longrightarrow> globalGasCap = 0 \<or> gas \<le> globalGasCap \<longrightarrow> mGasLimit m = gas) \<and>
    (mBlobHashes m \<noteq> [] \<longrightarrow> mBlobGasFeeCap m \<noteq> None) \<and>
    (\<exists>price feeCap tip. mGasPrice m = Some price \<and> mGasFeeCap m = Some feeCap \<and> mGasTipCap m = Some tip \<and>
       (\<forall>p. taGasPrice args = Some p \<longrightarrow> price = p \<and> feeCap = p \<and> tip = p) \<and>
       (\<forall>base. baseFee = Some base \<longrightarrow> taGasPrice args = None \<longrightarrow>
          feeCap = taking (taMaxFeePerGas args) 0 \<and> tip = taking (taMaxPriorityFeePerGas args) 0 \<and>
          price = (if feeCap = 0 \<and> tip = 0 then 0 else min (tip + base) feeCap)))"
proof -
  have a: "args_from args' = args_from args" "taTo args' = taTo args" "args_data args' = args_data args"
    "taValue args' = Some (taking (taValue args) 0)" "taNonce args' = Some (taking (taNonce args) 0)"
    "taGas args' = Some (default_gas globalGasCap (taGas args))" "taBlobHashes args' = taBlobHashes args"
    "taBlobHashes args \<noteq> None \<longrightarrow> taBlobFeeCap args' \<noteq> None"
    using defaults_args [OF assms] by (auto simp: args_from_def args_data_def split: option.split)
  have "taking (taBlobHashes args) [] \<noteq> [] \<Longrightarrow> taBlobFeeCap args' \<noteq> None"
    using a(8) by (cases "taBlobHashes args") (simp_all add: taking_def)
  then show ?thesis
    using a(1-7) by (auto simp: ToMessage_def defaults_fees [OF assms] deref_def default_gas_cap default_gas_same
        fee_price_def fee_caps_def split: option.split)
qed

text \<open>A call with a fee cap of 10 and a tip of 2 on a base fee of 5, more gas than the cap of 100.\<close>

definition demo_args :: transaction_args where
  "demo_args = \<lparr> taFrom = Some 1, taTo = Some 2, taGas = Some 500, taGasPrice = None, taMaxFeePerGas = Some 10,
     taMaxPriorityFeePerGas = Some 2, taValue = None, taNonce = None, taData = Some [1], taInput = Some [2],
     taAccessList = None, taChainID = None, taBlobFeeCap = None, taBlobHashes = None, taAuthorizationList = None \<rparr>"

lemma demo_defaults: "CallDefaults 100 (Some 5) 1 demo_args =
    Inr (demo_args\<lparr>taChainID := Some 1, taGas := Some 100, taNonce := Some 0, taValue := Some 0\<rparr>)"
  by code_simp

theorem call_message_witness:
  "\<exists>m. ToMessage (Some 5) True True (demo_args\<lparr>taChainID := Some 1, taGas := Some 100, taNonce := Some 0,
       taValue := Some 0\<rparr>) = Inr m \<and> mGasLimit m \<le> 100 \<and> mData m = [2] \<and> mGasPrice m = Some 7"
proof -
  have f: "taGasPrice demo_args = None" "taMaxFeePerGas demo_args = Some 10" "taMaxPriorityFeePerGas demo_args = Some 2"
    "args_data demo_args = [2]" by (simp_all add: demo_args_def args_data_def)
  show ?thesis using call_message [OF demo_defaults, of True True] by (auto simp: f)
qed

end
