(* ===== verification/Estimate.thy ===== *)
theory Estimate
  imports Calls
begin

section \<open>Gas estimation\<close>

text \<open>
  \<open>rpc/estimate.go\<close>: \<open>Estimate\<close> caps the gas limit by the balance and the cap of the server,
  tries the call at the highest limit and searches below it for the lowest limit that works.
  \<open>core.ApplyMessage\<close> is a parameter; so is the comparison of the floating-point ratio with the
  allowed error, about which nothing is assumed. The state is copied for every run, so the
  state of the estimation only changes in what its reads cache.
\<close>

datatype vm_err = ErrOutOfGas | ErrVm bytes

record call_result =
  crUsedGas :: u64
  crRefundedGas :: u64
  crErr :: "vm_err option"
  crRevert :: bytes

datatype run_err = ErrIntrinsicGas | ErrRun bytes

datatype est_err =
    EInsufficientFundsForTransfer
  | EInsufficientFunds
  | EExecution run_err
  | EFailed bytes vm_err
  | EExceedsAllowance u64
  | EPanic panic

record est_env =
  eeHash :: "bytes \<Rightarrow> hash"
  eeGasLimit :: u64
  eeCancun :: bool
  eeBlobGasPerBlob :: int
  eeRatioOn :: bool
  eeClose :: "u64 \<Rightarrow> u64 \<Rightarrow> bool"
  eeApply :: "message \<Rightarrow> mutable_state \<Rightarrow> run_err + call_result"

definition TxGas :: u64 where "TxGas = 21000"
definition CallStipend :: u64 where "CallStipend = 2300"

text \<open>\<open>run\<close> on a copy of the state, and \<open>execute\<close>: did it fail, and the result when there is one.\<close>

definition est_run :: "est_env \<Rightarrow> mutable_state \<Rightarrow> message \<Rightarrow> panic + (run_err + call_result)" where
  "est_run env s call = rbind (msCopy s) (\<lambda>dirty. Inr (eeApply env call dirty))"

definition execute ::
  "est_env \<Rightarrow> mutable_state \<Rightarrow> message \<Rightarrow> u64 \<Rightarrow> est_err + (bool \<times> call_result option)"
where
  "execute env s call gasLimit =
     (case est_run env s (call\<lparr>mGasLimit := gasLimit\<rparr>) of
        Inl p \<Rightarrow> Inl (EPanic p)
      | Inr (Inl ErrIntrinsicGas) \<Rightarrow> Inr (True, None)
      | Inr (Inl e) \<Rightarrow> Inl (EExecution e)
      | Inr (Inr r) \<Rightarrow> Inr (crErr r \<noteq> None, Some r))"

text \<open>\<open>big.Int.Div\<close> is Euclidean: the remainder is never negative.\<close>

definition Div :: "int \<Rightarrow> int \<Rightarrow> int" where
  "Div a b = (if b < 0 then - (a div - b) else a div b)"

text \<open>What the balance leaves for gas after the value and the blobs of the call.\<close>

definition available :: "est_env \<Rightarrow> message \<Rightarrow> int \<Rightarrow> est_err + int" where
  "available env call bal =
     rbind
       (case mValue call of
          None \<Rightarrow> Inr bal
        | Some val \<Rightarrow> if val \<ge> bal then Inl EInsufficientFundsForTransfer else Inr (bal - val))
       (\<lambda>av. if eeCancun env \<and> mBlobHashes call \<noteq> [] then
            (case mBlobGasFeeCap call of
               None \<Rightarrow> Inl (EPanic NilHook)
             | Some cap \<Rightarrow>
                 (let usage = int (length (mBlobHashes call)) * eeBlobGasPerBlob env * cap
                  in if usage \<ge> av then Inl EInsufficientFunds else Inr (av - usage)))
          else Inr av)"

definition fee_cap :: "message \<Rightarrow> int" where
  "fee_cap call = (case mGasFeeCap call of Some c \<Rightarrow> c | None \<Rightarrow> taking (mGasPrice call) 0)"

definition funded :: "est_env \<Rightarrow> mutable_state \<Rightarrow> message \<Rightarrow> u64 \<Rightarrow> est_err + u64" where
  "funded env s call hi =
     (if fee_cap call \<noteq> 0 then
        rbind (available env call (uint (GetBalance (mFrom call) s))) (\<lambda>av.
          let allowance = Div av (fee_cap call)
          in Inr (if 0 \<le> allowance \<and> allowance < 2 ^ 64 \<and> hi > word_of_int allowance
                  then word_of_int allowance else hi))
      else Inr hi)"

definition highest :: "est_env \<Rightarrow> mutable_state \<Rightarrow> message \<Rightarrow> u64 \<Rightarrow> est_err + u64" where
  "highest env s call gasCap =
     rbind (funded env s call (if mGasLimit call \<ge> TxGas then mGasLimit call else eeGasLimit env))
       (\<lambda>hi. Inr (if gasCap \<noteq> 0 \<and> hi > gasCap then gasCap else hi))"

text \<open>Where the range is cut: in the middle, or at twice the lower end when that is lower.\<close>

definition middle :: "u64 \<Rightarrow> u64 \<Rightarrow> u64" where
  "middle lo hi = (let mid = (hi + lo) div 2 in if mid > lo * 2 then lo * 2 else mid)"

text \<open>The search for the lowest limit: \<open>None\<close> when \<open>fuel\<close> rounds were not enough.\<close>

fun search :: "est_env \<Rightarrow> mutable_state \<Rightarrow> message \<Rightarrow> nat \<Rightarrow> u64 \<Rightarrow> u64 \<Rightarrow> (est_err + u64) option" where
  "search env s call fuel lo hi =
     (if lo + 1 < hi then
        (if eeRatioOn env \<and> eeClose env lo hi then Some (Inr hi)
         else
           (let mid = middle lo hi
            in case fuel of
                 0 \<Rightarrow> None
               | Suc n \<Rightarrow>
                   (case execute env s call mid of
                      Inl e \<Rightarrow> Some (Inl e)
                    | Inr (failed, _) \<Rightarrow>
                        if failed then search env s call n mid hi else search env s call n lo mid)))
      else Some (Inr hi))"

definition optimistic :: "call_result \<Rightarrow> u64" where
  "optimistic r = (crUsedGas r + crRefundedGas r + CallStipend) * 64 div 63"

definition narrowed :: "est_env \<Rightarrow> mutable_state \<Rightarrow> message \<Rightarrow> u64 \<Rightarrow> call_result \<Rightarrow> est_err + (u64 \<times> u64)" where
  "narrowed env s call hi r =
     (let lo = crUsedGas r - 1
      in if optimistic r < hi then
           rbind (execute env s call (optimistic r)) (\<lambda>(failed, _).
             Inr (if failed then (optimistic r, hi) else (lo, optimistic r)))
         else Inr (lo, hi))"

text \<open>A transfer to an account without code is tried at 21000 first.\<close>

definition plain_transfer :: "est_env \<Rightarrow> mutable_state \<Rightarrow> message \<Rightarrow> (est_err + bool) \<times> mutable_state" where
  "plain_transfer env s call =
     (case (mData call, mTo call) of
        ([], Some to) \<Rightarrow>
          (let (n, s') = GetCodeSize (eeHash env) to s
           in if n = 0 then
                (case execute env s' call TxGas of
                   Inl (EPanic p) \<Rightarrow> (Inl (EPanic p), s')
                 | Inr (False, _) \<Rightarrow> (Inr True, s')
                 | _ \<Rightarrow> (Inr False, s'))
              else (Inr False, s'))
      | _ \<Rightarrow> (Inr False, s))"

definition first_failure :: "u64 \<Rightarrow> call_result option \<Rightarrow> est_err" where
  "first_failure hi r =
     (case r of
        Some r' \<Rightarrow>
          (case crErr r' of
             Some ErrOutOfGas \<Rightarrow> EExceedsAllowance hi
           | Some e \<Rightarrow> EFailed (crRevert r') e
           | None \<Rightarrow> EExceedsAllowance hi)
      | None \<Rightarrow> EExceedsAllowance hi)"

definition Estimate :: "est_env \<Rightarrow> nat \<Rightarrow> message \<Rightarrow> mutable_state \<Rightarrow> u64 \<Rightarrow> (est_err + u64) option" where
  "Estimate env fuel call s gasCap =
     (case highest env s call gasCap of
        Inl e \<Rightarrow> Some (Inl e)
      | Inr hi \<Rightarrow>
          (case plain_transfer env s call of
             (Inl e, s') \<Rightarrow> Some (Inl e)
           | (Inr True, s') \<Rightarrow> Some (Inr TxGas)
           | (Inr False, s') \<Rightarrow>
               (case execute env s' call hi of
                  Inl e \<Rightarrow> Some (Inl e)
                | Inr (True, r) \<Rightarrow> Some (Inl (first_failure hi r))
                | Inr (False, None) \<Rightarrow> Some (Inl (EPanic NilHook))
                | Inr (False, Some r) \<Rightarrow>
                    (case narrowed env s' call hi r of
                       Inl e \<Rightarrow> Some (Inl e)
                     | Inr (lo, hi') \<Rightarrow> search env s' call fuel lo hi'))))"

subsection \<open>The search\<close>

text \<open>Does the call work with this limit?\<close>

definition succeeds :: "est_env \<Rightarrow> mutable_state \<Rightarrow> message \<Rightarrow> u64 \<Rightarrow> bool" where
  "succeeds env s call g = (case execute env s call g of Inr (False, Some r) \<Rightarrow> True | _ \<Rightarrow> False)"

definition out_of_gas :: "est_env \<Rightarrow> mutable_state \<Rightarrow> message \<Rightarrow> u64 \<Rightarrow> bool" where
  "out_of_gas env s call g = (case execute env s call g of Inr (True, r) \<Rightarrow> True | _ \<Rightarrow> False)"

lemma execute_ok: "execute env s call g = Inr (False, r) \<Longrightarrow> succeeds env s call g"
  by (auto simp: execute_def succeeds_def split: sum.splits run_err.splits)

lemma execute_failed: "execute env s call g = Inr (True, r) \<Longrightarrow> out_of_gas env s call g"
  by (simp add: out_of_gas_def)

declare search.simps [simp del]

lemma unat_plus: "unat (x :: u64) + unat y < 2 ^ 64 \<Longrightarrow> unat (x + y) = unat x + unat y"
  by (intro iffD1 [OF unat_add_lem]) simp

lemma unat_times: "unat (x :: u64) * unat y < 2 ^ 64 \<Longrightarrow> unat (x * y) = unat x * unat y"
  by (intro iffD1 [OF unat_mult_lem]) simp

text \<open>The point where the range is cut, as a number: it is inside the range.\<close>

definition cut :: "nat \<Rightarrow> nat \<Rightarrow> nat" where
  "cut lo hi = min (2 * lo) ((hi + lo) div 2)"

lemma cut_word:
  fixes lo hi :: u64
  assumes "unat hi < 2 ^ 63" "lo < hi"
  shows "unat (middle lo hi) = cut (unat lo) (unat hi)"
proof -
  have l: "unat lo < unat hi" using assms(2) by (simp add: word_less_nat_alt)
  have "unat (hi + lo) = unat hi + unat lo" using assms(1) l by (intro iffD1 [OF unat_add_lem]) simp
  then have m: "unat ((hi + lo) div 2) = (unat hi + unat lo) div 2" by (simp add: unat_div)
  have "unat (lo * 2) = unat lo * unat (2 :: u64)" using assms(1) l by (intro iffD1 [OF unat_mult_lem]) simp
  then have d: "unat (lo * 2) = 2 * unat lo" by simp
  show ?thesis using m d by (simp add: middle_def Let_def cut_def word_less_nat_alt)
qed

lemma cut_inside: "1 \<le> lo \<Longrightarrow> lo + 1 < hi \<Longrightarrow> lo < cut lo hi \<and> cut lo hi < hi"
  by (auto simp: cut_def)

text \<open>
  A range of at most \<open>2 ^ b\<close> limits that begins no lower than \<open>2 ^ a\<close> times below its end
  takes at most \<open>a + b\<close> rounds: a limit that works halves the range, and so does one that fails,
  or it doubles the lower end.
\<close>

lemma cut_upper: "1 \<le> lo \<Longrightarrow> lo + 1 < hi \<Longrightarrow> hi - lo \<le> 2 ^ Suc b \<Longrightarrow> cut lo hi - lo \<le> 2 ^ b"
  by (auto simp: cut_def min_def)

lemma cut_lower:
  assumes "1 \<le> lo" "lo + 1 < hi" "hi - lo \<le> 2 ^ b" "hi \<le> lo * 2 ^ a" "b = Suc b'"
  shows "hi - cut lo hi \<le> 2 ^ b' \<or> a \<noteq> 0 \<and> hi \<le> cut lo hi * 2 ^ (a - 1)"
proof (cases "2 * lo < (hi + lo) div 2")
  case True
  then have c: "cut lo hi = 2 * lo" by (simp add: cut_def)
  show ?thesis using assms(2,4) c by (cases a) auto
next
  case False
  then have "cut lo hi = (hi + lo) div 2" by (simp add: cut_def)
  then show ?thesis using assms by auto
qed

lemma unat_inc: "(lo :: u64) < hi \<Longrightarrow> unat (lo + 1) = unat lo + 1"
proof -
  assume "lo < hi"
  moreover have "unat hi < 2 ^ 64" using unsigned_less [of hi] by simp
  ultimately show ?thesis using unat_plus [of lo 1] by (simp add: word_less_nat_alt)
qed

lemma word_next: "lo < hi \<Longrightarrow> \<not> unat lo + 1 < unat hi \<Longrightarrow> (hi :: u64) = lo + 1"
  using unat_inc [of lo hi] by (simp add: word_unat_eq_iff word_less_nat_alt)

text \<open>The loop ends, or goes on at a point inside the range.\<close>

definition goes_on :: "est_env \<Rightarrow> u64 \<Rightarrow> u64 \<Rightarrow> bool" where
  "goes_on env lo hi = (unat lo + 1 < unat hi \<and> \<not> (eeRatioOn env \<and> eeClose env lo hi))"

lemma search_stop:
  assumes "lo < hi" "\<not> goes_on env lo hi"
  shows "search env s call fuel lo hi = Some (Inr hi)" and "eeRatioOn env \<or> hi = lo + 1"
proof -
  have "lo + 1 < hi \<longleftrightarrow> unat lo + 1 < unat hi" using unat_inc [OF assms(1)] by (simp add: word_less_nat_alt)
  then show "search env s call fuel lo hi = Some (Inr hi)"
    using assms(2) by (auto simp: goes_on_def search.simps [of env s call fuel lo hi])
  show "eeRatioOn env \<or> hi = lo + 1" using assms word_next [OF assms(1)] by (auto simp: goes_on_def)
qed

lemma search_go:
  assumes "unat hi < 2 ^ 63" "lo < hi" "1 \<le> unat lo" "goes_on env lo hi"
  obtains mid where "unat mid = cut (unat lo) (unat hi)" "lo < mid" "mid < hi" "1 \<le> unat mid" "unat mid < 2 ^ 63"
    and "search env s call 0 lo hi = None"
    and "search env s call (Suc n) lo hi =
      (case execute env s call mid of
         Inl e \<Rightarrow> Some (Inl e)
       | Inr (failed, _) \<Rightarrow> if failed then search env s call n mid hi else search env s call n lo mid)"
proof -
  define mid where "mid = middle lo hi"
  have l: "lo + 1 < hi" using unat_inc [OF assms(2)] assms(4) by (simp add: word_less_nat_alt goes_on_def)
  have c: "unat mid = cut (unat lo) (unat hi)" unfolding mid_def by (rule cut_word [OF assms(1,2)])
  have m: "unat lo < unat mid" "unat mid < unat hi"
    using cut_inside [of "unat lo" "unat hi"] assms(3,4) c by (simp_all add: goes_on_def)
  have "\<not> (eeRatioOn env \<and> eeClose env lo hi)" using assms(4) by (simp add: goes_on_def)
  with l have "search env s call fuel lo hi =
      (case fuel of
         0 \<Rightarrow> None
       | Suc n \<Rightarrow>
           (case execute env s call mid of
              Inl e \<Rightarrow> Some (Inl e)
            | Inr (failed, _) \<Rightarrow> if failed then search env s call n mid hi else search env s call n lo mid))" for fuel
    unfolding search.simps [of env s call fuel lo hi] mid_def [symmetric] Let_def by (simp only: if_True if_False)
  from this [of 0] this [of "Suc n"] show ?thesis
    using m assms(1,3) by (intro that [OF c]) (simp_all add: word_less_nat_alt)
qed

lemma search_rounds:
  assumes "unat hi < 2 ^ 63"
  shows "1 \<le> unat lo \<Longrightarrow> lo < hi \<Longrightarrow> unat hi - unat lo \<le> 2 ^ b \<Longrightarrow> unat hi \<le> unat lo * 2 ^ a \<Longrightarrow> a + b \<le> fuel \<Longrightarrow>
    search env s call fuel lo hi \<noteq> None"
  using assms
proof (induction fuel arbitrary: lo hi a b)
  case 0
  then have "\<not> goes_on env lo hi" by (simp add: goes_on_def)
  then show ?case using search_stop(1) [OF "0.prems"(2)] by simp
next
  case (Suc n)
  show ?case
  proof (cases "goes_on env lo hi")
    case False
    then show ?thesis using search_stop(1) [OF Suc.prems(2)] by simp
  next
    case True
    from search_go [OF Suc.prems(6,2,1) True, of s call n] obtain mid where
      c: "unat mid = cut (unat lo) (unat hi)" and m: "lo < mid" "mid < hi" "1 \<le> unat mid" "unat mid < 2 ^ 63" and
      e: "search env s call (Suc n) lo hi = (case execute env s call mid of
                 Inl e \<Rightarrow> Some (Inl e)
               | Inr (failed, _) \<Rightarrow> if failed then search env s call n mid hi else search env s call n lo mid)"
      by blast
    have lt: "unat lo < unat mid" "unat mid < unat hi" using m by (simp_all add: word_less_nat_alt)
    have T: "unat lo + 1 < unat hi" using True by (simp add: goes_on_def)
    obtain b' where b': "b = Suc b'" using Suc.prems(3) T by (cases b) auto
    have up: "search env s call n lo mid \<noteq> None"
    proof (rule Suc.IH [OF Suc.prems(1) m(1) _ _ _ m(4)])
      show "unat mid - unat lo \<le> 2 ^ b'" using cut_upper [of "unat lo" "unat hi" b'] Suc.prems(1,3) T b' c by simp
      show "unat mid \<le> unat lo * 2 ^ a" using Suc.prems(4) lt by simp
      show "a + b' \<le> n" using Suc.prems(5) b' by simp
    qed
    have "unat hi - unat mid \<le> 2 ^ b' \<or> a \<noteq> 0 \<and> unat hi \<le> unat mid * 2 ^ (a - 1)"
      using cut_lower [of "unat lo" "unat hi" b a b'] Suc.prems(1,3,4) T b' c by simp
    then have "search env s call n mid hi \<noteq> None"
    proof
      assume "unat hi - unat mid \<le> 2 ^ b'"
      moreover have "unat hi \<le> unat mid * 2 ^ a" using Suc.prems(4) lt(1) by (meson le_trans less_imp_le mult_le_mono1)
      ultimately show ?thesis using Suc.IH [OF m(3,2) _ _ _ Suc.prems(6), of b' a] Suc.prems(5) b' by simp
    next
      assume a: "a \<noteq> 0 \<and> unat hi \<le> unat mid * 2 ^ (a - 1)"
      moreover have "unat hi - unat mid \<le> 2 ^ b" using Suc.prems(3) lt(1) by simp
      ultimately show ?thesis using Suc.IH [OF m(3,2) _ _ _ Suc.prems(6), of b "a - 1"] Suc.prems(5) by simp
    qed
    with up show ?thesis by (auto simp: e split: sum.split)
  qed
qed

text \<open>What the search returns, when it began with a limit that works.\<close>

lemma search_result:
  assumes "unat hi < 2 ^ 63"
  shows "1 \<le> unat lo \<Longrightarrow> lo < hi \<Longrightarrow> succeeds env s call hi \<Longrightarrow> search env s call fuel lo hi = Some (Inr g) \<Longrightarrow>
    lo < g \<and> g \<le> hi \<and> succeeds env s call g \<and> (\<not> eeRatioOn env \<longrightarrow> g = lo + 1 \<or> out_of_gas env s call (g - 1))"
  using assms
proof (induction fuel arbitrary: lo hi)
  case 0
  then show ?case
  proof (cases "goes_on env lo hi")
    case True
    have "search env s call 0 lo hi = None" by (rule search_go [OF "0.prems"(5,2,1) True, of s call])
    then show ?thesis using "0.prems"(4) by simp
  next
    case False
    then show ?thesis using search_stop [OF "0.prems"(2) False] "0.prems"(2,3,4) by auto
  qed
next
  case (Suc n)
  show ?case
  proof (cases "goes_on env lo hi")
    case False
    then show ?thesis using search_stop [OF Suc.prems(2) False] Suc.prems(2,3,4) by auto
  next
    case True
    from search_go [OF Suc.prems(5,2,1) True, of s call n] obtain mid where
      m: "lo < mid" "mid < hi" "1 \<le> unat mid" "unat mid < 2 ^ 63" and
      e: "search env s call (Suc n) lo hi = (case execute env s call mid of
                 Inl e \<Rightarrow> Some (Inl e)
               | Inr (failed, _) \<Rightarrow> if failed then search env s call n mid hi else search env s call n lo mid)"
      by blast
    obtain failed r where x: "execute env s call mid = Inr (failed, r)"
      using Suc.prems(4) e by (cases "execute env s call mid") auto
    show ?thesis
    proof (cases failed)
      case True
      then have "search env s call n mid hi = Some (Inr g)" using Suc.prems(4) e x by simp
      note ih = Suc.IH [OF m(3,2) Suc.prems(3) this Suc.prems(5)]
      have "out_of_gas env s call mid" using x True by (simp add: execute_failed)
      then show ?thesis using ih m(1) by auto
    next
      case False
      then have "search env s call n lo mid = Some (Inr g)" using Suc.prems(4) e x by simp
      moreover have "succeeds env s call mid" using x False by (auto intro: execute_ok)
      ultimately show ?thesis using Suc.IH [OF Suc.prems(1) m(1) _ _ m(4)] m(2) by auto
    qed
  qed
qed

subsection \<open>The estimate\<close>

text \<open>
  What an execution reports, as go-ethereum documents it: it uses at least the intrinsic gas of a
  transaction and no more than its limit, and refunds at most what it used.
\<close>

definition gas_law :: "est_env \<Rightarrow> mutable_state \<Rightarrow> message \<Rightarrow> bool" where
  "gas_law env s call =
     (\<forall>g r. execute env s call g = Inr (False, Some r) \<longrightarrow>
        2 \<le> crUsedGas r \<and> crUsedGas r \<le> g \<and> crRefundedGas r \<le> crUsedGas r)"

lemma optimistic_above:
  assumes "2 \<le> crUsedGas r" "crUsedGas r \<le> hi" "crRefundedGas r \<le> crUsedGas r" "unat hi < 2 ^ 56"
  shows "crUsedGas r - 1 < optimistic r" "1 \<le> unat (crUsedGas r - 1)" "crUsedGas r - 1 < hi"
proof -
  define u f where "u = unat (crUsedGas r)" and "f = unat (crRefundedGas r)"
  have n: "2 \<le> u" "u \<le> unat hi" "f \<le> u" using assms(1-3) by (simp_all add: word_le_nat_alt u_def f_def)
  have s: "unat (crUsedGas r + crRefundedGas r) = u + f"
    unfolding u_def f_def by (rule unat_plus) (use n assms(4) in \<open>simp add: u_def f_def\<close>)
  have "unat (crUsedGas r + crRefundedGas r + CallStipend) = u + f + 2300"
    using unat_plus [of "crUsedGas r + crRefundedGas r" CallStipend] n assms(4) by (simp add: s CallStipend_def)
  then have "unat ((crUsedGas r + crRefundedGas r + CallStipend) * 64) = (u + f + 2300) * 64"
    using unat_times [of "crUsedGas r + crRefundedGas r + CallStipend" 64] n assms(4) by simp
  then have o: "unat (optimistic r) = (u + f + 2300) * 64 div 63" by (simp add: optimistic_def unat_div)
  have p: "unat (crUsedGas r - 1) = u - 1" using assms(1) by (simp add: unat_sub u_def word_le_nat_alt)
  have "u \<le> (u + f + 2300) * 64 div 63" by (simp add: less_eq_div_iff_mult_less_eq)
  then have "u - 1 < (u + f + 2300) * 64 div 63" using n(1) by linarith
  then show "crUsedGas r - 1 < optimistic r" using o p by (simp add: word_less_nat_alt)
  show "1 \<le> unat (crUsedGas r - 1)" using p n(1) by simp
  show "crUsedGas r - 1 < hi" using p n by (simp add: word_less_nat_alt)
qed

lemma funded_below: "funded env s call hi = Inr hi' \<Longrightarrow> hi' \<le> hi"
  by (auto simp: funded_def Let_def rbind_Inr_iff split: if_splits)

lemma highest_bound:
  assumes "highest env s call gasCap = Inr hi" "unat (eeGasLimit env) < 2 ^ 56" "unat (mGasLimit call) < 2 ^ 56"
  shows "unat hi < 2 ^ 56" and "gasCap \<noteq> 0 \<Longrightarrow> hi \<le> gasCap"
proof -
  let ?hi0 = "if mGasLimit call \<ge> TxGas then mGasLimit call else eeGasLimit env"
  obtain hi1 where h: "hi1 \<le> ?hi0" "hi = (if gasCap \<noteq> 0 \<and> hi1 > gasCap then gasCap else hi1)"
    using assms(1) funded_below unfolding highest_def rbind_Inr_iff by blast
  have "unat ?hi0 < 2 ^ 56" using assms(2,3) by simp
  then have "unat hi1 < 2 ^ 56" using h(1) unfolding word_le_nat_alt by (rule le_less_trans [rotated])
  then show "unat hi < 2 ^ 56" using h(2) by (auto simp: word_less_nat_alt)
  show "gasCap \<noteq> 0 \<Longrightarrow> hi \<le> gasCap" using h(2) by auto
qed

lemma plain_success:
  assumes "plain_transfer env s call = (Inr True, s')"
  shows "succeeds env s' call TxGas"
  using assms by (auto simp: plain_transfer_def Let_def intro: execute_ok
      split: list.splits option.splits prod.splits if_splits sum.splits est_err.splits bool.splits)

lemma narrowed_range:
  assumes "narrowed env s call hi r = Inr (lo, hi')" and "execute env s call hi = Inr (False, Some r)"
    and "gas_law env s call" and "unat hi < 2 ^ 56"
  shows "1 \<le> unat lo \<and> lo < hi' \<and> hi' \<le> hi \<and> succeeds env s call hi' \<and> (lo = crUsedGas r - 1 \<or> out_of_gas env s call lo)"
proof -
  from assms(2,3) have l: "2 \<le> crUsedGas r" "crUsedGas r \<le> hi" "crRefundedGas r \<le> crUsedGas r"
    unfolding gas_law_def by blast+
  note o = optimistic_above [OF l assms(4)]
  have "1 \<le> unat (optimistic r)" using o(1,2) by (simp add: word_less_nat_alt)
  then show ?thesis
    using assms(1) o execute_ok [OF assms(2)]
    by (auto simp: narrowed_def Let_def rbind_Inr_iff intro: execute_ok execute_failed split: if_splits)
qed


text \<open>
  Without the law: a call reported to use 1 gas makes the lower end 0, twice 0 is the point where
  the range is cut, and no number of rounds ends the search.
\<close>

lemma search_from_0:
  assumes "unat hi < 2 ^ 63" "2 \<le> unat hi" "\<not> eeRatioOn env" "execute env s call 0 = Inr (True, None)"
  shows "search env s call fuel 0 hi = None"
proof -
  have m: "middle 0 hi = 0" by (auto simp: middle_def Let_def word_gt_0)
  have l: "(0 :: u64) + 1 < hi" using assms(2) by (simp add: word_less_nat_alt)
  show ?thesis
  proof (induction fuel)
    case 0
    show ?case using l assms(3) by (simp add: search.simps [of env s call 0] m)
  next
    case (Suc n)
    then show ?case using l assms(3,4) by (simp add: search.simps [of env s call "Suc n"] m Let_def)
  qed
qed

text \<open>A call that works from 30000 gas on and uses 25000.\<close>

definition demo_est :: est_env where
  "demo_est = \<lparr> eeHash = (\<lambda>b. of_nat (length b)), eeGasLimit = 30000000, eeCancun = True, eeBlobGasPerBlob = 131072,
     eeRatioOn = False, eeClose = (\<lambda>lo hi. False),
     eeApply = (\<lambda>m s. if mGasLimit m < 21000 then Inl ErrIntrinsicGas
       else Inr \<lparr> crUsedGas = 25000, crRefundedGas = 0,
         crErr = (if mGasLimit m < 30000 then Some ErrOutOfGas else None), crRevert = [] \<rparr>) \<rparr>"

definition demo_est_state :: mutable_state where
  "demo_est_state = newMutableWorldState (\<lambda>n. True)
     \<lparr> pvAccount = (\<lambda>a. \<lparr> Nonce = 0, Balance = 1000, CodeHash = 0, DirtyStorage = False, Version = 1 \<rparr>),
       pvCode = (\<lambda>h. []), pvStorage = (\<lambda>a v k. 0) \<rparr> 5 None"

definition demo_call :: message where
  "demo_call = \<lparr> mFrom = 1, mTo = Some 2, mValue = Some 0, mNonce = 0, mGasLimit = 0, mGasPrice = Some 0,
     mGasFeeCap = Some 0, mGasTipCap = Some 0, mData = [1], mAccessList = [], mBlobGasFeeCap = None, mBlobHashes = [],
     mSetCodeAuthorizations = [], mSkipNonceChecks = True, mSkipFromEOACheck = True \<rparr>"

lemma demo_plain: "plain_transfer demo_est demo_est_state demo_call = (Inr False, demo_est_state)"
  by (simp add: plain_transfer_def demo_call_def)

lemma demo_copy: "msCopy demo_est_state = Inr (demo_est_state\<lparr>sparent := tcCopy (sparent demo_est_state)\<rparr>)"
  by (simp add: msCopy_def demo_est_state_def newMutableWorldState_def copyTransient_def)

lemma demo_execute: "execute demo_est demo_est_state demo_call g =
    (if g < 21000 then Inr (True, None)
     else Inr (g < 30000, Some \<lparr> crUsedGas = 25000, crRefundedGas = 0,
         crErr = (if g < 30000 then Some ErrOutOfGas else None), crRevert = [] \<rparr>))"
  by (simp add: execute_def est_run_def demo_copy demo_est_def)

lemma demo_gas_law: "gas_law demo_est demo_est_state demo_call"
  unfolding gas_law_def
proof (intro allI impI)
  fix g r
  assume e: "execute demo_est demo_est_state demo_call g = Inr (False, Some r)"
  then have "\<not> g < 30000" "r = \<lparr> crUsedGas = 25000, crRefundedGas = 0, crErr = None, crRevert = [] \<rparr>"
    by (auto simp: demo_execute split: if_splits)
  moreover from this(1) have "25000 \<le> g" by (intro order_trans [of 25000 30000 g]) (simp_all add: not_less)
  ultimately show "2 \<le> crUsedGas r \<and> crUsedGas r \<le> g \<and> crRefundedGas r \<le> crUsedGas r" by simp
qed

lemma demo_estimate: "Estimate demo_est 112 demo_call demo_est_state 50000000 = Some (Inr 30000)"
  by code_simp


end
