(* ===== verification/RpcState.thy ===== *)
theory RpcState
  imports BackendLaws Estimate GoStrings
begin

section \<open>Reading states and blocks over RPC\<close>

text \<open>
  How the handlers of \<open>rpc/eth_handlers.go\<close> find a block and its state (\<open>getBlockByNumber\<close> of
  \<open>rpc/helper.go\<close>, \<open>stateAndHeaderByNumber\<close> and \<open>stateAndHeaderByNumberOrHash\<close> of \<open>rpc/call.go\<close>)
  and read accounts, slots, transactions and receipts. The special block numbers of go-ethereum
  are constructors; JSON is not modelled, a handler returns what it would marshal.
\<close>

datatype block_number = BPending | BEarliest | BLatest | BFinalized | BSafe | BNumber int

record block_number_or_hash =
  bnNumber :: "block_number option"
  bnHash :: "hash option"
  bnRequireCanonical :: bool

datatype rpc_err =
    RNoPending
  | RNoEarliest
  | RNoFinalized
  | RNoSafe
  | RChain bc_err
  | RNotCanonical
  | RNoState u64 hash
  | RInvalidArguments
  | RBadHex
  | RHexTooLong
  | RIndexing
  | RNoReceipt hash

definition of_chain :: "bc_err + 'a \<Rightarrow> rpc_err + 'a" where
  "of_chain r = (case r of Inl e \<Rightarrow> Inl (RChain e) | Inr x \<Rightarrow> Inr x)"

definition of_tagged :: "rpc_err \<Rightarrow> bc_err + 'a option \<Rightarrow> rpc_err + 'a" where
  "of_tagged missing r = (case r of Inl e \<Rightarrow> Inl (RChain e) | Inr None \<Rightarrow> Inl missing | Inr (Some x) \<Rightarrow> Inr x)"

fun getBlockByNumber :: "('db, 'ws, 'm) node_env \<Rightarrow> ('db, 'ws) node_state \<Rightarrow> block_number \<Rightarrow> rpc_err + block" where
  "getBlockByNumber env n BPending = Inl RNoPending"
| "getBlockByNumber env n BEarliest = Inl RNoEarliest"
| "getBlockByNumber env n BLatest = of_chain (GetHead (neChain env) (nsChain n))"
| "getBlockByNumber env n BFinalized = of_tagged RNoFinalized (GetFinalized (neChain env) (nsChain n))"
| "getBlockByNumber env n BSafe = of_tagged RNoSafe (GetSafe (neChain env) (nsChain n))"
| "getBlockByNumber env n (BNumber i) = of_chain (GetBlockByNumber (neChain env) (nsChain n) (word_of_int i))"

definition state_of_header :: "('db, 'ws) node_state \<Rightarrow> header \<Rightarrow> rpc_err + (path \<times> header)" where
  "state_of_header n h =
     (case GetLayared (hNumber h) (hRoot h) (nsWorld n) of
        None \<Rightarrow> Inl (RNoState (hNumber h) (hRoot h))
      | Some p \<Rightarrow> Inr (p, h))"

definition stateAndHeaderByNumber ::
  "('db, 'ws, 'm) node_env \<Rightarrow> ('db, 'ws) node_state \<Rightarrow> block_number \<Rightarrow> rpc_err + (path \<times> header)"
where
  "stateAndHeaderByNumber env n i = rbind (getBlockByNumber env n i) (\<lambda>b. state_of_header n (bHeader b))"

definition stateAndHeaderByNumberOrHash ::
  "('db, 'ws, 'm) node_env \<Rightarrow> ('db, 'ws) node_state \<Rightarrow> block_number_or_hash \<Rightarrow> rpc_err + (path \<times> header)"
where
  "stateAndHeaderByNumberOrHash env n q =
     (case bnNumber q of
        Some i \<Rightarrow> stateAndHeaderByNumber env n i
      | None \<Rightarrow>
          (case bnHash q of
             None \<Rightarrow> Inl RInvalidArguments
           | Some h \<Rightarrow>
               rbind (of_chain (GetHeaderByHash (neChain env) (nsChain n) h)) (\<lambda>hdr.
               rbind (if bnRequireCanonical q
                      then rbind (of_chain (GetBlockByNumber (neChain env) (nsChain n) (hNumber hdr)))
                        (\<lambda>c. if bHash c \<noteq> h then Inl RNotCanonical else Inr ())
                      else Inr ())
                 (\<lambda>u. state_of_header n hdr))))"

subsection \<open>Accounts\<close>

text \<open>\<open>layer.GetReadOnly()\<close>; the layer is one of the archive, so it is there.\<close>

definition read_only :: "('db, 'ws, 'm) node_env \<Rightarrow> ('db, 'ws) node_state \<Rightarrow> path \<times> header \<Rightarrow> rpc_err + mutable_state" where
  "read_only env n = (\<lambda>(p, h).
     case lGetReadOnly (peEIP158 (neProc env)) (neLayers env) (nsWorld n) p of
       None \<Rightarrow> Inl (RNoState (hNumber h) (hRoot h))
     | Some s \<Rightarrow> Inr s)"

definition reading ::
  "(mutable_state \<Rightarrow> 'a) \<Rightarrow> ('db, 'ws, 'm) node_env \<Rightarrow> ('db, 'ws) node_state \<Rightarrow> block_number_or_hash \<Rightarrow> rpc_err + 'a"
where
  "reading f env n q =
     rbind (stateAndHeaderByNumberOrHash env n q) (\<lambda>l. rbind (read_only env n l) (\<lambda>s. Inr (f s)))"

definition ethGetBalance ::
  "('db, 'ws, 'm) node_env \<Rightarrow> ('db, 'ws) node_state \<Rightarrow> address \<Rightarrow> block_number_or_hash \<Rightarrow> rpc_err + u256"
where
  "ethGetBalance env n ad = reading (GetBalance ad) env n"

definition ethGetTransactionCount ::
  "('db, 'ws, 'm) node_env \<Rightarrow> ('db, 'ws) node_state \<Rightarrow> address \<Rightarrow> block_number_or_hash \<Rightarrow> rpc_err + u64"
where
  "ethGetTransactionCount env n ad = reading (GetNonce ad) env n"

definition ethGetCode ::
  "('db, 'ws, 'm) node_env \<Rightarrow> ('db, 'ws) node_state \<Rightarrow> address \<Rightarrow> block_number_or_hash \<Rightarrow> rpc_err + bytes"
where
  "ethGetCode env n ad = reading (\<lambda>s. fst (GetCode (leHash (neLayers env)) ad s)) env n"

text \<open>\<open>hex.DecodeString\<close> and \<open>decodeHash\<close>: at most 32 bytes, an odd digit in front is allowed.\<close>

definition hex_value :: "char \<Rightarrow> nat option" where
  "hex_value c =
     (let n = of_char c :: nat
      in if 48 \<le> n \<and> n < 58 then Some (n - 48)
         else if 97 \<le> n \<and> n < 103 then Some (n - 87)
         else if 65 \<le> n \<and> n < 71 then Some (n - 55)
         else None)"

fun hex_decode :: "string \<Rightarrow> u8 list option" where
  "hex_decode [] = Some []"
| "hex_decode [c] = None"
| "hex_decode (c # d # cs) =
     (case (hex_value c, hex_value d, hex_decode cs) of
        (Some x, Some y, Some bs) \<Rightarrow> Some (of_nat (16 * x + y) # bs)
      | _ \<Rightarrow> None)"

definition BytesToHash :: "u8 list \<Rightarrow> hash" where
  "BytesToHash bs = foldl (\<lambda>h b. h * 256 + ucast b) 0 bs"

definition decodeHash :: "string \<Rightarrow> rpc_err + (hash \<times> nat)" where
  "decodeHash str =
     (let s1 = (if take 2 str = ''0x'' \<or> take 2 str = ''0X'' then drop 2 str else str);
          s2 = (if odd (length s1) then CHR ''0'' # s1 else s1)
      in case hex_decode s2 of
           None \<Rightarrow> Inl RBadHex
         | Some bs \<Rightarrow> if length bs > 32 then Inl RHexTooLong else Inr (BytesToHash bs, length bs))"

definition ethGetStorageAt ::
  "('db, 'ws, 'm) node_env \<Rightarrow> ('db, 'ws) node_state \<Rightarrow> address \<Rightarrow> string \<Rightarrow> block_number_or_hash \<Rightarrow> rpc_err + hash"
where
  "ethGetStorageAt env n ad hexKey q =
     rbind (stateAndHeaderByNumberOrHash env n q) (\<lambda>l.
     rbind (decodeHash hexKey) (\<lambda>(key, len).
     rbind (read_only env n l) (\<lambda>s. Inr (fst (GetState ad key s)))))"

subsection \<open>Blocks, transactions and receipts\<close>

definition ethBlockNumber :: "('db, 'ws, 'm) node_env \<Rightarrow> ('db, 'ws) node_state \<Rightarrow> rpc_err + u64" where
  "ethBlockNumber env n = rbind (of_chain (GetHead (neChain env) (nsChain n))) (\<lambda>b. Inr (NumberU64 b))"

text \<open>An error is the answer null.\<close>

definition orNull :: "'e + 'a \<Rightarrow> 'a option" where
  "orNull r = (case r of Inl e \<Rightarrow> None | Inr x \<Rightarrow> Some x)"

definition ethGetBlockTransactionCountByHash :: "('db, 'ws, 'm) node_env \<Rightarrow> ('db, 'ws) node_state \<Rightarrow> hash \<Rightarrow> nat option" where
  "ethGetBlockTransactionCountByHash env n h =
     map_option (\<lambda>b. length (bTransactions b)) (orNull (GetBlockByHash (neChain env) (nsChain n) h))"

definition ethGetBlockTransactionCountByNumber ::
  "('db, 'ws, 'm) node_env \<Rightarrow> ('db, 'ws) node_state \<Rightarrow> block_number \<Rightarrow> nat option"
where
  "ethGetBlockTransactionCountByNumber env n i =
     map_option (\<lambda>b. length (bTransactions b)) (orNull (getBlockByNumber env n i))"

definition ethGetTransactionByHash ::
  "('db, 'ws, 'm) node_env \<Rightarrow> ('db, 'ws) node_state \<Rightarrow> hash \<Rightarrow> rpc_err + (transaction \<times> hash \<times> header \<times> u64)"
where
  "ethGetTransactionByHash env n h =
     rbind (of_tagged RIndexing (GetTransaction (neChain env) (nsChain n) h)) (\<lambda>(tx, blkHash, index).
     rbind (of_chain (GetHeaderByHash (neChain env) (nsChain n) blkHash)) (\<lambda>hdr. Inr (tx, blkHash, hdr, index)))"

definition ethGetTransactionReceipt ::
  "('db, 'ws, 'm) node_env \<Rightarrow> ('db, 'ws) node_state \<Rightarrow> hash \<Rightarrow>
   rpc_err + (receipt \<times> hash \<times> header \<times> transaction \<times> u64)"
where
  "ethGetTransactionReceipt env n h =
     rbind (of_tagged RIndexing (GetTransaction (neChain env) (nsChain n) h)) (\<lambda>(tx, txBlk, txi).
     rbind (of_tagged RIndexing (GetReceipt (neChain env) (nsChain n) h)) (\<lambda>(receipt, blkHash, index).
     rbind (of_chain (GetHeaderByHash (neChain env) (nsChain n) blkHash)) (\<lambda>hdr.
       Inr (receipt, blkHash, hdr, tx, index))))"

definition block_of :: "('db, 'ws, 'm) node_env \<Rightarrow> ('db, 'ws) node_state \<Rightarrow> block_number_or_hash \<Rightarrow> block option" where
  "block_of env n q =
     (case bnNumber q of
        Some i \<Rightarrow> orNull (getBlockByNumber env n i)
      | None \<Rightarrow> (case bnHash q of
          Some h \<Rightarrow> orNull (GetBlockByHash (neChain env) (nsChain n) h) | None \<Rightarrow> None))"

definition ethGetBlockReceipts ::
  "('db, 'ws, 'm) node_env \<Rightarrow> ('db, 'ws) node_state \<Rightarrow> block_number_or_hash \<Rightarrow>
   rpc_err + (receipt \<times> transaction \<times> nat) list option"
where
  "ethGetBlockReceipts env n q =
     (case block_of env n q of
        None \<Rightarrow> Inr None
      | Some b \<Rightarrow>
          rbind (rfold (\<lambda>tx rs.
              rbind (of_tagged (RNoReceipt (txHash tx)) (GetReceipt (neChain env) (nsChain n) (txHash tx)))
                (\<lambda>(r, blkHash, index). Inr (rs @ [r]))) (bTransactions b) [])
            (\<lambda>receipts. Inr (Some (zip receipts (zip (bTransactions b) [0..<length receipts])))))"

subsection \<open>What they read\<close>

lemma of_chain_Inr [simp]: "of_chain r = Inr x \<longleftrightarrow> r = Inr x"
  by (simp add: of_chain_def split: sum.split)

lemma of_tagged_Inr [simp]: "of_tagged e r = Inr x \<longleftrightarrow> r = Inr (Some x)"
  by (auto simp: of_tagged_def split: sum.split option.split)

lemma tagged_stored: "getTagged api bc k = Inr (Some b) \<Longrightarrow> \<exists>h. GetBlockByHash api bc h = Inr b"
  by (auto simp: getTagged_def rbind_Inr_iff split: sum.splits bc_err.splits)

lemma numbered_read: "GetBlockByNumber api bc i = Inr b \<Longrightarrow> \<exists>h. GetBlockByHash api bc h = Inr b"
  by (auto simp: GetBlockByNumber_def rbind_Inr_iff split: if_splits)

lemma head_read: "GetHead api bc = Inr b \<Longrightarrow> \<exists>h. GetBlockByHash api bc h = Inr b"
  by (auto simp: GetHead_def rbind_Inr_iff)

lemma found_block: "getBlockByNumber env n i = Inr b \<Longrightarrow> \<exists>h. GetBlockByHash (neChain env) (nsChain n) h = Inr b"
  by (cases i) (auto simp: GetFinalized_def GetSafe_def dest: tagged_stored numbered_read head_read)

text \<open>A block of the store, and which one it is for each way of asking.\<close>

definition asked_for ::
  "('db, 'ws, 'm) node_env \<Rightarrow> ('db, 'ws) node_state \<Rightarrow> block_number_or_hash \<Rightarrow> block \<Rightarrow> bool"
where
  "asked_for env n q b =
     (case bnNumber q of
        Some i \<Rightarrow> getBlockByNumber env n i = Inr b
      | None \<Rightarrow> bnHash q = Some (bHash b) \<and>
          (bnRequireCanonical q \<longrightarrow>
             (\<exists>c. GetBlockByNumber (neChain env) (nsChain n) (NumberU64 b) = Inr c \<and> bHash c = bHash b)))"

lemma header_of_block:
  assumes law: "bc_law (neChain env) cv" and ok: "blocks_ok (cv (bcDb (nsChain n)))"
    and q: "stateAndHeaderByNumberOrHash env n q = Inr (p, hdr)"
  obtains b where "has_block (cv (bcDb (nsChain n))) (bHash b) b" "hdr = bHeader b" "asked_for env n q b"
    "GetLayared (hNumber hdr) (hRoot hdr) (nsWorld n) = Some p"
proof -
  have st: "has_block (cv (bcDb (nsChain n))) (bHash b) b" if "GetBlockByHash (neChain env) (nsChain n) h = Inr b" for h b
    using read_block [OF law that] blocks_okD(2) [OF ok] by fastforce
  have l: "state_of_header n h = Inr (p, hdr) \<Longrightarrow> h = hdr \<and> GetLayared (hNumber hdr) (hRoot hdr) (nsWorld n) = Some p" for h
    by (auto simp: state_of_header_def split: option.splits)
  show thesis
  proof (cases "bnNumber q")
    case (Some i)
    then obtain b where b: "getBlockByNumber env n i = Inr b" "state_of_header n (bHeader b) = Inr (p, hdr)"
      using q by (auto simp: stateAndHeaderByNumberOrHash_def stateAndHeaderByNumber_def rbind_Inr_iff)
    obtain h where "GetBlockByHash (neChain env) (nsChain n) h = Inr b" using found_block [OF b(1)] by blast
    then show thesis using that [of b] st b(1) l [OF b(2)] Some by (auto simp: asked_for_def)
  next
    case None
    then obtain h b where h: "bnHash q = Some h" "GetBlockByHash (neChain env) (nsChain n) h = Inr b"
      "state_of_header n (bHeader b) = Inr (p, hdr)"
      and c: "bnRequireCanonical q \<longrightarrow> (\<exists>c. GetBlockByNumber (neChain env) (nsChain n) (NumberU64 b) = Inr c \<and> bHash c = h)"
      using q by (auto simp: stateAndHeaderByNumberOrHash_def GetHeaderByHash_def rbind_Inr_iff split: option.splits if_splits)
    have "bHash b = h" using read_block [OF law h(2)] blocks_okD(2) [OF ok] by blast
    then show thesis using that [of b] st [OF h(2)] h(1) c l [OF h(3)] None by (auto simp: asked_for_def)
  qed
qed

lemma fresh_reads:
  "GetBalance ad (newMutableWorldState cfg par h l) = Balance (pvAccount par ad)"
  "GetNonce ad (newMutableWorldState cfg par h l) = Nonce (pvAccount par ad)"
  by (simp_all add: GetBalance_def GetNonce_def loadAccount_def newMutableWorldState_def newTempCommittedState_def
      GetMutableAccount_def newMutableAccountImplWithOverriden_def Let_def)


end
