(* ===== verification/RpcLogs.thy ===== *)
theory RpcLogs
  imports RpcState
begin

section \<open>Filtering logs\<close>

text \<open>
  \<open>GetLogs\<close> of \<open>rpc/eth_handlers.go\<close>: the range of heights, then block by block and receipt by
  receipt the logs that pass the filter.
\<close>

record filter_criteria =
  fcBlockHash :: "hash option"
  fcFromBlock :: "block_number option"
  fcToBlock :: "block_number option"
  fcAddresses :: "address list"
  fcTopics :: "hash list list"

datatype logs_err = LRpc rpc_err | LEndBeforeBegin u64 u64 | LBeyondHead u64 u64

definition of_rpc :: "rpc_err + 'a \<Rightarrow> logs_err + 'a" where
  "of_rpc r = (case r of Inl e \<Rightarrow> Inl (LRpc e) | Inr x \<Rightarrow> Inr x)"

definition number_or ::
  "('db, 'ws, 'm) node_env \<Rightarrow> ('db, 'ws) node_state \<Rightarrow> block_number option \<Rightarrow> u64 \<Rightarrow> logs_err + u64"
where
  "number_or env n i d =
     (case i of None \<Rightarrow> Inr d | Some bn \<Rightarrow> rbind (of_rpc (getBlockByNumber env n bn)) (\<lambda>b. Inr (NumberU64 b)))"

definition head_number :: "('db, 'ws, 'm) node_env \<Rightarrow> ('db, 'ws) node_state \<Rightarrow> logs_err + u64" where
  "head_number env n = rbind (of_rpc (of_chain (GetHead (neChain env) (nsChain n)))) (\<lambda>b. Inr (NumberU64 b))"

definition logs_range ::
  "('db, 'ws, 'm) node_env \<Rightarrow> ('db, 'ws) node_state \<Rightarrow> filter_criteria \<Rightarrow> logs_err + (u64 \<times> u64)"
where
  "logs_range env n crit =
     rbind
       (case fcBlockHash crit of
          Some h \<Rightarrow> rbind (of_rpc (of_chain (GetBlockByHash (neChain env) (nsChain n) h)))
            (\<lambda>b. Inr (NumberU64 b, NumberU64 b))
        | None \<Rightarrow>
            rbind (head_number env n) (\<lambda>latest.
            rbind (number_or env n (fcFromBlock crit) latest) (\<lambda>lo.
            rbind (number_or env n (fcToBlock crit) latest) (\<lambda>hi. Inr (lo, hi)))))
       (\<lambda>(lo, hi).
          if hi < lo then Inl (LEndBeforeBegin hi lo)
          else if hi > 4294967295 then
            rbind (head_number env n) (\<lambda>latest.
              if lo > latest then Inl (LBeyondHead lo latest) else Inr (lo, latest))
          else Inr (lo, hi))"

text \<open>A position without topics gets no entry in the map, so it matches everything.\<close>

definition topic_map :: "hash list list \<Rightarrow> (nat, hash list) gmap" where
  "topic_map topics = filter (\<lambda>(idx, v). v \<noteq> []) (zip [0..<length topics] topics)"

definition keeps_log :: "filter_criteria \<Rightarrow> log_entry \<Rightarrow> bool" where
  "keeps_log crit l =
     (if fcAddresses crit \<noteq> [] \<and> lAddress l \<notin> set (fcAddresses crit) then False
      else if length (fcTopics crit) > length (lTopics l) then False
      else list_all (\<lambda>(idx, topicSet). topicSet = [] \<or> lTopics l ! idx \<in> set topicSet) (topic_map (fcTopics crit)))"

definition tx_logs ::
  "('db, 'ws, 'm) node_env \<Rightarrow> ('db, 'ws) node_state \<Rightarrow> filter_criteria \<Rightarrow> transaction \<Rightarrow> log_entry list \<Rightarrow>
   logs_err + log_entry list"
where
  "tx_logs env n crit tx logs =
     rbind (of_rpc (of_tagged (RNoReceipt (txHash tx)) (GetReceipt (neChain env) (nsChain n) (txHash tx))))
       (\<lambda>(receipt, blkHash, index). Inr (logs @ filter (keeps_log crit) (rLogs receipt)))"

definition block_logs ::
  "('db, 'ws, 'm) node_env \<Rightarrow> ('db, 'ws) node_state \<Rightarrow> filter_criteria \<Rightarrow> u64 \<Rightarrow> log_entry list \<Rightarrow>
   logs_err + log_entry list"
where
  "block_logs env n crit i logs =
     rbind (of_rpc (of_chain (GetBlockByNumber (neChain env) (nsChain n) i)))
       (\<lambda>b. rfold (tx_logs env n crit) (bTransactions b) logs)"

definition heights_between :: "u64 \<Rightarrow> u64 \<Rightarrow> u64 list" where
  "heights_between lo hi = map of_nat [unat lo..<Suc (unat hi)]"

definition ethGetLogs ::
  "('db, 'ws, 'm) node_env \<Rightarrow> ('db, 'ws) node_state \<Rightarrow> filter_criteria \<Rightarrow> logs_err + log_entry list"
where
  "ethGetLogs env n crit =
     rbind (logs_range env n crit) (\<lambda>(lo, hi). rfold (block_logs env n crit) (heights_between lo hi) [])"

subsection \<open>What it returns\<close>

text \<open>The filter as documented: an address of the list, and at each position one of its topics.\<close>

definition wanted :: "filter_criteria \<Rightarrow> log_entry \<Rightarrow> bool" where
  "wanted crit l =
     ((fcAddresses crit = [] \<or> lAddress l \<in> set (fcAddresses crit)) \<and>
      length (fcTopics crit) \<le> length (lTopics l) \<and>
      (\<forall>i<length (fcTopics crit). fcTopics crit ! i = [] \<or> lTopics l ! i \<in> set (fcTopics crit ! i)))"

lemma topic_map_all:
  "list_all P (topic_map topics) \<longleftrightarrow> (\<forall>i<length topics. topics ! i \<noteq> [] \<longrightarrow> P (i, topics ! i))"
  by (force simp: topic_map_def list_all_iff set_zip)

lemma keeps_wanted: "keeps_log crit = wanted crit"
  by (rule ext) (unfold keeps_log_def wanted_def topic_map_all, auto)

lemma of_rpc_Inr [simp]: "of_rpc r = Inr x \<longleftrightarrow> r = Inr x"
  by (simp add: of_rpc_def split: sum.split)

definition receipt_for :: "('db, 'ws, 'm) node_env \<Rightarrow> ('db, 'ws) node_state \<Rightarrow> transaction \<Rightarrow> receipt \<Rightarrow> bool" where
  "receipt_for env n tx r = (\<exists>h i. GetReceipt (neChain env) (nsChain n) (txHash tx) = Inr (Some (r, h, i)))"

lemma tx_logs_Inr:
  "tx_logs env n crit tx logs = Inr logs' \<longleftrightarrow>
   (\<exists>r h i. GetReceipt (neChain env) (nsChain n) (txHash tx) = Inr (Some (r, h, i)) \<and>
      logs' = logs @ filter (wanted crit) (rLogs r))"
  by (auto simp: tx_logs_def rbind_Inr_iff keeps_wanted)

lemma block_logs_Inr:
  "block_logs env n crit i logs = Inr logs' \<longleftrightarrow>
   (\<exists>b. GetBlockByNumber (neChain env) (nsChain n) i = Inr b \<and>
      rfold (tx_logs env n crit) (bTransactions b) logs = Inr logs')"
  by (auto simp: block_logs_def rbind_Inr_iff)

lemma txs_logs:
  "rfold (tx_logs env n crit) txs logs = Inr logs' \<Longrightarrow>
   \<exists>rs. list_all2 (receipt_for env n) txs rs \<and> logs' = logs @ filter (wanted crit) (concat (map rLogs rs))"
proof (induction txs arbitrary: logs)
  case (Cons tx txs)
  then obtain r h i where r: "GetReceipt (neChain env) (nsChain n) (txHash tx) = Inr (Some (r, h, i))"
    "rfold (tx_logs env n crit) txs (logs @ filter (wanted crit) (rLogs r)) = Inr logs'"
    by (auto simp: tx_logs_Inr rbind_Inr_iff)
  obtain rs where "list_all2 (receipt_for env n) txs rs"
    "logs' = (logs @ filter (wanted crit) (rLogs r)) @ filter (wanted crit) (concat (map rLogs rs))"
    using Cons.IH [OF r(2)] by blast
  then show ?case using r(1) by (intro exI [of _ "r # rs"]) (simp, simp add: receipt_for_def)
qed simp

lemma blocks_logs:
  "rfold (block_logs env n crit) hs logs = Inr logs' \<Longrightarrow>
   \<exists>bs rs. list_all2 (\<lambda>i b. GetBlockByNumber (neChain env) (nsChain n) i = Inr b) hs bs \<and>
     list_all2 (receipt_for env n) (concat (map bTransactions bs)) rs \<and>
     logs' = logs @ filter (wanted crit) (concat (map rLogs rs))"
proof (induction hs arbitrary: logs)
  case (Cons i hs)
  then obtain b logs1 where b: "GetBlockByNumber (neChain env) (nsChain n) i = Inr b"
    "rfold (tx_logs env n crit) (bTransactions b) logs = Inr logs1" "rfold (block_logs env n crit) hs logs1 = Inr logs'"
    by (auto simp: block_logs_Inr rbind_Inr_iff)
  obtain rs1 where 1: "list_all2 (receipt_for env n) (bTransactions b) rs1"
    "logs1 = logs @ filter (wanted crit) (concat (map rLogs rs1))" using txs_logs [OF b(2)] by blast
  obtain bs rs2 where 2: "list_all2 (\<lambda>i b. GetBlockByNumber (neChain env) (nsChain n) i = Inr b) hs bs"
    "list_all2 (receipt_for env n) (concat (map bTransactions bs)) rs2"
    "logs' = logs1 @ filter (wanted crit) (concat (map rLogs rs2))" using Cons.IH [OF b(3)] by blast
  show ?case
    by (rule exI [of _ "b # bs"], rule exI [of _ "rs1 @ rs2"]) (use b(1) 1 2 in \<open>auto intro: list_all2_appendI\<close>)
qed simp


text \<open>
  So the logs of a block asked for by its hash are those of the canonical block of its height,
  also when the block itself is not canonical.
\<close>

lemma logs_by_hash:
  assumes "GetBlockByHash (neChain env) (nsChain n) h = Inr b" and "NumberU64 b \<le> 4294967295"
  shows "ethGetLogs env n (crit\<lparr>fcBlockHash := Some h\<rparr>) = block_logs env n (crit\<lparr>fcBlockHash := Some h\<rparr>) (NumberU64 b) []"
proof -
  have "heights_between (NumberU64 b) (NumberU64 b) = [NumberU64 b]" by (simp add: heights_between_def)
  moreover have "logs_range env n (crit\<lparr>fcBlockHash := Some h\<rparr>) = Inr (NumberU64 b, NumberU64 b)"
    using assms(2) by (simp add: logs_range_def assms(1) of_rpc_def of_chain_def leD)
  ultimately show ?thesis by (simp add: ethGetLogs_def) (cases "block_logs env n (crit\<lparr>fcBlockHash := Some h\<rparr>) (NumberU64 b) []"; simp)
qed

end
