(* ===== verification/RpcDemo.thy ===== *)
theory RpcDemo
  imports RpcLogs NodeDemo
begin

section \<open>An example of a request\<close>

text \<open>The balance of an account at the latest block of the node of \<open>NodeDemo\<close>.\<close>

definition latest :: block_number_or_hash where
  "latest = \<lparr> bnNumber = Some BLatest, bnHash = None, bnRequireCanonical = False \<rparr>"

lemma latest_found: "map_sum id fst (stateAndHeaderByNumberOrHash node_demo_env node_demo latest) = Inr [11, 21]"
  by code_simp

lemma node_demo_typed:
  "typed (leHash (neLayers node_demo_env)) (map_of (wDb (nsWorld node_demo)))"
  "tree_ok (leHash (neLayers node_demo_env)) (map_of (wDb (nsWorld node_demo))) (wKids (nsWorld node_demo))"
  using demo_typed demo_tree_ok by (simp_all add: node_demo_env_def node_demo_def)


subsection \<open>Logs\<close>

text \<open>
  A chain whose block 1 has a transaction with three logs; the request wants those of the
  account 5 that have the topic 2 in the second place, from the first block to the latest.
\<close>

definition demo_log :: "address \<Rightarrow> hash list \<Rightarrow> log_entry" where
  "demo_log ad topics = \<lparr> lAddress = ad, lTopics = topics, lData = [], lBlockNumber = 1, lTxHash = 7, lTxIndex = 0,
     lBlockHash = 101, lIndex = 0 \<rparr>"

definition logs_chain :: "(bkey, bval) gmap blockchain" where
  "logs_chain = node_chain\<lparr>bcDb := mput (BlockK 101) (VBlock (node_block 101 100 1 11 [demo_tx]))
     (mput (ReceiptK 7) (VReceipt (demo_receipt\<lparr>rLogs := [demo_log 5 [1, 2], demo_log 5 [2], demo_log 6 [1, 2]]\<rparr>) 101 0)
       (bcDb node_chain))\<rparr>"

definition logs_node :: "((bkey, bval) gmap, (dskey, dsval) gmap) node_state" where
  "logs_node = node_demo\<lparr>nsChain := logs_chain\<rparr>"

definition demo_crit :: filter_criteria where
  "demo_crit = \<lparr> fcBlockHash = None, fcFromBlock = Some (BNumber 0), fcToBlock = None, fcAddresses = [5],
     fcTopics = [[], [2, 9]] \<rparr>"

lemma demo_get_logs: "ethGetLogs node_demo_env logs_node demo_crit = Inr [demo_log 5 [1, 2]]"
  by code_simp


end
