(* ===== verification/Finalisation.thy ===== *)
theory Finalisation
  imports Snapshots
begin

section \<open>The end of a transaction\<close>

text \<open>
  What \<open>Finalise\<close> hands to the block: the final value of every account the transaction
  touched, empty and destructed accounts as blank values of the next version, its code and
  storage, its logs under the transaction hash; and what it resets for the next transaction.
\<close>

text \<open>The account \<open>Finalise\<close> finalises: an empty one is destructed first.\<close>

definition swept :: "(bytes \<Rightarrow> hash) \<Rightarrow> bool \<Rightarrow> mutable_account \<Rightarrow> mutable_account" where
  "swept kc del a =
     (if del \<and> acctEmpty kc a \<and> interpretVersion a \<noteq> beingDeleted
      then a\<lparr>balance := 0, version := version a + 1\<rparr> else a)"

definition sweepable :: "(bytes \<Rightarrow> hash) \<Rightarrow> bool \<Rightarrow> mutable_account \<Rightarrow> bool" where
  "sweepable kc del a = (del \<and> acctEmpty kc a \<longrightarrow> interpretVersion a \<noteq> notExisted)"

lemma finalise_account_swept:
  assumes "map_of (DirtyAccounts s) ad \<noteq> None"
  shows "finalise_account kc del (ad, a) s =
    (if sweepable kc del a then
       Inr (if hooked OnBalanceChange s \<and> acctHasSelfDestructed (swept kc del a) \<and> balance (swept kc del a) \<noteq> 0
            then emit (BalanceChange ad (balance (swept kc del a)) 0)
                   (if del \<and> acctEmpty kc a then storeAccount ad (swept kc del a) s else s)
            else (if del \<and> acctEmpty kc a then storeAccount ad (swept kc del a) s else s))
     else Inl DestructNotExisted)"
proof -
  have h: "hooked OnBalanceChange (storeAccount ad x s) = hooked OnBalanceChange s" for x
    by (rule hooked_cong) (simp add: storeAccount_def split: option.split)
  show ?thesis
    by (cases rule: interpretVersion_cases [of a])
      (auto simp: finalise_account_def acctSelfDestruct_def sweepable_def swept_def h)
qed

lemma emit_fields [simp]:
  "DirtyAccounts (emit c s) = DirtyAccounts s" "sparent (emit c s) = sparent s"
  "TxHash (emit c s) = TxHash s" "Logs (emit c s) = Logs s" "Refund (emit c s) = Refund s"
  "logger (emit c s) = logger s"
  by (simp_all add: emit_def)

lemma store_fields [simp]:
  "TxHash (storeAccount ad a s) = TxHash s" "Logs (storeAccount ad a s) = Logs s"
  "Refund (storeAccount ad a s) = Refund s"
  by (simp_all add: storeAccount_def split: option.split)

lemma distinct_store: "distinct (map fst (DirtyAccounts s)) \<Longrightarrow> distinct (map fst (DirtyAccounts (storeAccount ad a s)))"
  by (simp add: storeAccount_def split: option.split)

text \<open>One step of the loop over the dirty accounts.\<close>

lemma finalise_account_step:
  assumes d: "map_of (DirtyAccounts s) ad = Some a" and sw: "sweepable kc del a"
  obtains s' where "finalise_account kc del (ad, a) s = Inr s'"
    "map_of (DirtyAccounts s') = (map_of (DirtyAccounts s))(ad \<mapsto> swept kc del a)"
    "sparent s' = sparent s" "TxHash s' = TxHash s" "Logs s' = Logs s" "Refund s' = Refund s"
    "distinct (map fst (DirtyAccounts s)) \<Longrightarrow> distinct (map fst (DirtyAccounts s'))"
proof -
  have sm: "map_of (DirtyAccounts (storeAccount ad (swept kc del a) s)) =
      (map_of (DirtyAccounts s))(ad \<mapsto> swept kc del a)"
    using d by (auto simp: fun_eq_iff)
  have same: "\<not> (del \<and> acctEmpty kc a) \<Longrightarrow>
      map_of (DirtyAccounts s) = (map_of (DirtyAccounts s))(ad \<mapsto> swept kc del a)"
    using d by (auto simp: swept_def fun_eq_iff)
  note f = finalise_account_swept [of s ad kc del a]
  show thesis
    by (rule that [of "projr (finalise_account kc del (ad, a) s)"])
      (use d sw sm same f distinct_store in auto)
qed

lemma finalise_accounts:
  assumes "distinct (map fst xs)" and "\<And>ad a. (ad, a) \<in> set xs \<Longrightarrow> map_of (DirtyAccounts s) ad = Some a"
    and "\<And>ad a. (ad, a) \<in> set xs \<Longrightarrow> sweepable kc del a"
    and "distinct (map fst (DirtyAccounts s))"
  shows "\<exists>s'. rfold (finalise_account kc del) xs s = Inr s' \<and>
    map_of (DirtyAccounts s') = (\<lambda>ad. if ad \<in> fst ` set xs then map_option (swept kc del) (map_of (DirtyAccounts s) ad)
       else map_of (DirtyAccounts s) ad) \<and>
    sparent s' = sparent s \<and> TxHash s' = TxHash s \<and> Logs s' = Logs s \<and> Refund s' = Refund s \<and>
    distinct (map fst (DirtyAccounts s'))"
  using assms
proof (induction xs arbitrary: s)
  case Nil
  then show ?case by simp
next
  case (Cons x xs)
  obtain ad a where x: "x = (ad, a)" by (cases x)
  have d: "map_of (DirtyAccounts s) ad = Some a" using Cons.prems(2) [of ad a] x by simp
  have sw: "sweepable kc del a" using Cons.prems(3) [of ad a] x by simp
  from finalise_account_step [OF d sw] obtain s1 where s1:
    "finalise_account kc del (ad, a) s = Inr s1"
    "map_of (DirtyAccounts s1) = (map_of (DirtyAccounts s))(ad \<mapsto> swept kc del a)"
    "sparent s1 = sparent s" "TxHash s1 = TxHash s" "Logs s1 = Logs s" "Refund s1 = Refund s"
    "distinct (map fst (DirtyAccounts s1))" using Cons.prems(4) by metis
  have nin: "ad \<notin> fst ` set xs" using Cons.prems(1) x by simp
  have "\<exists>s'. rfold (finalise_account kc del) xs s1 = Inr s' \<and>
    map_of (DirtyAccounts s') = (\<lambda>ad. if ad \<in> fst ` set xs then map_option (swept kc del) (map_of (DirtyAccounts s1) ad)
       else map_of (DirtyAccounts s1) ad) \<and>
    sparent s' = sparent s1 \<and> TxHash s' = TxHash s1 \<and> Logs s' = Logs s1 \<and> Refund s' = Refund s1 \<and>
    distinct (map fst (DirtyAccounts s'))"
  proof (rule Cons.IH)
    show "distinct (map fst xs)" using Cons.prems(1) by simp
    show "map_of (DirtyAccounts s1) ad' = Some a'" if "(ad', a') \<in> set xs" for ad' a'
      using Cons.prems(2) [of ad' a'] that nin s1(2) by force
    show "sweepable kc del a'" if "(ad', a') \<in> set xs" for ad' a'
      using Cons.prems(3) that by auto
  qed (rule s1(7))
  then show ?case using s1 x nin d by (auto simp: fun_eq_iff)
qed

subsection \<open>What the block receives\<close>

lemma apply_account_accounts:
  "CommittedAccounts (apply_account kc (ad, a) s) = mput ad (finalState (GetFinalized kc a)) (CommittedAccounts s)"
  by (simp add: apply_account_def Let_def split: option.split list.split)

lemma apply_account_logs [simp]:
  "tLogs (apply_account kc x s) = tLogs s" "LogSize (apply_account kc x s) = LogSize s"
  by (simp_all add: apply_account_def Let_def split: prod.split option.split list.split)

lemma apply_accounts_other:
  "tLogs (fold (apply_account kc) xs s) = tLogs s" "LogSize (fold (apply_account kc) xs s) = LogSize s"
  by (induction xs arbitrary: s) simp_all

lemma apply_accounts:
  "distinct (map fst xs) \<Longrightarrow> map_of (CommittedAccounts (fold (apply_account kc) xs s)) ad =
    (case map_of xs ad of Some a \<Rightarrow> Some (finalState (GetFinalized kc a))
     | None \<Rightarrow> map_of (CommittedAccounts s) ad)"
proof (induction xs arbitrary: s)
  case Nil
  then show ?case by simp
next
  case (Cons x xs)
  obtain ad' a' where x: "x = (ad', a')" by (cases x)
  have "map_of xs ad' = None" using Cons.prems x by (simp add: map_of_None_keys)
  then show ?case using Cons x by (simp add: apply_account_accounts split: option.split)
qed

lemma commits_lemma:
  assumes "distinct (map fst (DirtyAccounts s))"
    and "\<forall>ad a. map_of (DirtyAccounts s) ad = Some a \<longrightarrow> sweepable kc del a"
  shows "\<exists>s'. Finalise kc del s = Inr s' \<and>
    (\<forall>ad. map_of (CommittedAccounts (sparent s')) ad =
       (case map_of (DirtyAccounts s) ad of
          Some a \<Rightarrow> Some (finalState (GetFinalized kc (swept kc del a)))
        | None \<Rightarrow> map_of (CommittedAccounts (sparent s)) ad)) \<and>
    map_of (tLogs (sparent s')) (TxHash s) = Some (Logs s) \<and>
    LogSize (sparent s') = LogSize (sparent s) + of_nat (length (Logs s)) \<and>
    DirtyAccounts s' = [] \<and> TransientState s' = [] \<and> AccessAddress s' = [] \<and>
    AccessStorage s' = [] \<and> NewContracts s' = [] \<and> Journals s' = [] \<and> Refund s' = Refund s"
proof -
  have "\<exists>s1. rfold (finalise_account kc del) (DirtyAccounts s) s = Inr s1 \<and>
    map_of (DirtyAccounts s1) = (\<lambda>ad. if ad \<in> fst ` set (DirtyAccounts s)
       then map_option (swept kc del) (map_of (DirtyAccounts s) ad) else map_of (DirtyAccounts s) ad) \<and>
    sparent s1 = sparent s \<and> TxHash s1 = TxHash s \<and> Logs s1 = Logs s \<and> Refund s1 = Refund s \<and>
    distinct (map fst (DirtyAccounts s1))"
    using assms by (intro finalise_accounts) auto
  then obtain s1 where s1: "rfold (finalise_account kc del) (DirtyAccounts s) s = Inr s1"
    "map_of (DirtyAccounts s1) = (\<lambda>ad. if ad \<in> fst ` set (DirtyAccounts s)
       then map_option (swept kc del) (map_of (DirtyAccounts s) ad) else map_of (DirtyAccounts s) ad)"
    "sparent s1 = sparent s" "TxHash s1 = TxHash s" "Logs s1 = Logs s" "Refund s1 = Refund s"
    "distinct (map fst (DirtyAccounts s1))" by blast
  have dom: "map_of (DirtyAccounts s1) ad = map_option (swept kc del) (map_of (DirtyAccounts s) ad)" for ad
    using s1(2) map_of_None_keys [of "DirtyAccounts s" ad] by auto
  show ?thesis
    using apply_accounts [OF s1(7), of kc "sparent s"] s1 dom
    by (auto simp: Finalise_def ApplyChanges_def Let_def apply_accounts_other split: option.split)
qed


definition demo_final :: mutable_state where
  "demo_final = projr (exec_ops demo_hash demo_ops (snd (Snapshot demo_state)))"

lemma demo_final_ok:
  "distinct (map fst (DirtyAccounts demo_final))"
  "list_all (\<lambda>(ad, a). sweepable demo_hash True a) (DirtyAccounts demo_final)"
  "mhas (DirtyAccounts demo_final) 1"
  by code_simp+


subsection \<open>No value "being deleted" leaves a transaction\<close>

lemma swept_exists:
  "interpretVersion a \<noteq> notExisted \<Longrightarrow> interpretVersion (swept kc del a) \<noteq> notExisted"
  using interpretVersion_Suc(2) [of "a\<lparr>balance := 0\<rparr>"]
  by (cases rule: interpretVersion_cases [of a]) (auto simp: swept_def)



end
