(* ===== verification/Overrides.thy ===== *)
theory Overrides
  imports RpcState Finalisation
begin

section \<open>Calls with overrides\<close>

text \<open>
  \<open>StateOverride.Apply\<close> and \<open>BlockOverrides.Apply\<close> of \<open>rpc/helper.go\<close>, \<open>DoCall\<close> of \<open>rpc/call.go\<close> and
  \<open>DoEstimateGas\<close> of \<open>rpc/estimate.go\<close>: the state of a block is changed as the caller asks, then
  the message runs on it. The block context of a header and \<open>core.ApplyMessage\<close> are parameters;
  the timeout is the flag that the EVM was cancelled.
\<close>

record override_account =
  oaNonce :: "u64 option"
  oaCode :: "bytes option"
  oaBalance :: "int option"
  oaState :: "(hash, hash) gmap option"
  oaStateDiff :: "(hash, hash) gmap option"

definition lift_call :: "panic + 'a \<Rightarrow> call_err + 'a" where
  "lift_call r = (case r of Inl p \<Rightarrow> Inl (CPanic p) | Inr x \<Rightarrow> Inr x)"

definition apply_account_override ::
  "(bytes \<Rightarrow> hash) \<Rightarrow> address \<times> override_account \<Rightarrow> mutable_state \<Rightarrow> call_err + mutable_state"
where
  "apply_account_override kc = (\<lambda>(ad, oa) s.
     rbind (case oaNonce oa of None \<Rightarrow> Inr s | Some n \<Rightarrow> lift_call (SetNonce ad n s)) (\<lambda>s1.
     rbind (case oaCode oa of
              None \<Rightarrow> Inr s1
            | Some code \<Rightarrow> rbind (lift_call (SetCode kc ad code s1)) (\<lambda>r. Inr (snd r))) (\<lambda>s2.
       let s3 = (case oaBalance oa of None \<Rightarrow> s2 | Some b \<Rightarrow> SetBalance ad (word_of_int b) s2)
       in if oaState oa \<noteq> None \<and> oaStateDiff oa \<noteq> None then Inl (CStateAndStateDiff ad)
          else
            (let s4 = (case oaState oa of None \<Rightarrow> s3 | Some st \<Rightarrow> SetStorage ad st s3)
             in Inr (case oaStateDiff oa of
                  None \<Rightarrow> s4
                | Some d \<Rightarrow> fold (\<lambda>(key, val) s. snd (SetState ad key val s)) d s4)))))"

definition StateOverride_Apply ::
  "(bytes \<Rightarrow> hash) \<Rightarrow> (address, override_account) gmap option \<Rightarrow> mutable_state \<Rightarrow> call_err + mutable_state"
where
  "StateOverride_Apply kc diff s =
     (case diff of
        None \<Rightarrow> Inr s
      | Some d \<Rightarrow> rbind (rfold (apply_account_override kc) d s) (\<lambda>s1. lift_call (Finalise kc False s1)))"

record block_context =
  cxBlockNumber :: int
  cxDifficulty :: int
  cxTime :: u64
  cxGasLimit :: u64
  cxCoinbase :: address
  cxRandom :: "hash option"
  cxBaseFee :: "int option"
  cxBlobBaseFee :: "int option"

record block_overrides =
  boNumber :: "int option"
  boDifficulty :: "int option"
  boTime :: "u64 option"
  boGasLimit :: "u64 option"
  boCoinbase :: "address option"
  boRandom :: "hash option"
  boBaseFee :: "int option"
  boBlobBaseFee :: "int option"

text \<open>\<open>q\<close> unless it is nil.\<close>

definition instead :: "'a option \<Rightarrow> 'a option \<Rightarrow> 'a option" where
  "instead q p = (case q of None \<Rightarrow> p | Some x \<Rightarrow> Some x)"

definition BlockOverrides_Apply :: "block_overrides option \<Rightarrow> block_context \<Rightarrow> block_context" where
  "BlockOverrides_Apply diff cx =
     (case diff of
        None \<Rightarrow> cx
      | Some d \<Rightarrow> \<lparr>
          cxBlockNumber = taking (boNumber d) (cxBlockNumber cx),
          cxDifficulty = taking (boDifficulty d) (cxDifficulty cx),
          cxTime = taking (boTime d) (cxTime cx),
          cxGasLimit = taking (boGasLimit d) (cxGasLimit cx),
          cxCoinbase = taking (boCoinbase d) (cxCoinbase cx),
          cxRandom = instead (boRandom d) (cxRandom cx),
          cxBaseFee = instead (boBaseFee d) (cxBaseFee cx),
          cxBlobBaseFee = instead (boBlobBaseFee d) (cxBlobBaseFee cx) \<rparr>)"

datatype do_err =
    DState rpc_err
  | DCall call_err
  | DRun run_err u64
  | DTimeout
  | DEstimate est_err
  | DRevert bytes

text \<open>
  The parameters: chain id, block context and base fee of a header, execution (with the flag
  whether it was cancelled), and the environment of an estimation for a header.
\<close>

record call_env =
  ceChainID :: int
  ceBlockContext :: "header \<Rightarrow> block_context"
  ceBaseFee :: "header \<Rightarrow> int option"
  ceExecute :: "block_context \<Rightarrow> message \<Rightarrow> mutable_state \<Rightarrow> (run_err + call_result) \<times> bool"
  ceEstimate :: "header \<Rightarrow> est_env"
  ceFuel :: nat

definition of_state :: "rpc_err + 'a \<Rightarrow> do_err + 'a" where
  "of_state r = (case r of Inl e \<Rightarrow> Inl (DState e) | Inr x \<Rightarrow> Inr x)"

definition of_call :: "call_err + 'a \<Rightarrow> do_err + 'a" where
  "of_call r = (case r of Inl e \<Rightarrow> Inl (DCall e) | Inr x \<Rightarrow> Inr x)"

text \<open>\<open>layer.GetMutable()\<close> of the state asked for, with its header.\<close>

definition mutable_at ::
  "('db, 'ws, 'm) node_env \<Rightarrow> ('db, 'ws) node_state \<Rightarrow> block_number_or_hash \<Rightarrow> do_err + (mutable_state \<times> header)"
where
  "mutable_at env n q =
     rbind (of_state (stateAndHeaderByNumberOrHash env n q)) (\<lambda>(p, h).
       case lGetMutable (peEIP158 (neProc env)) (neLayers env) (nsWorld n) p of
         None \<Rightarrow> Inl (DState (RNoState (hNumber h) (hRoot h)))
       | Some s \<Rightarrow> Inr (s, h))"

definition doCall ::
  "call_env \<Rightarrow> (bytes \<Rightarrow> hash) \<Rightarrow> transaction_args \<Rightarrow> mutable_state \<Rightarrow> header \<Rightarrow> (address, override_account) gmap option \<Rightarrow>
   block_overrides option \<Rightarrow> u64 \<Rightarrow> do_err + call_result"
where
  "doCall ce kc args s hdr overrides blockOverrides gasCap =
     rbind (of_call (StateOverride_Apply kc overrides s)) (\<lambda>s1.
     let cx = BlockOverrides_Apply blockOverrides (ceBlockContext ce hdr)
     in rbind (of_call (CallDefaults gasCap (cxBaseFee cx) (ceChainID ce) args)) (\<lambda>args1.
        rbind (of_call (lift_call (ToMessage (cxBaseFee cx) True True args1))) (\<lambda>msg.
          case ceExecute ce cx msg s1 of
            (Inl e, cancelled) \<Rightarrow> Inl (DRun e (mGasLimit msg))
          | (Inr r, cancelled) \<Rightarrow> if cancelled then Inl DTimeout else Inr r)))"

definition DoCall ::
  "call_env \<Rightarrow> ('db, 'ws, 'm) node_env \<Rightarrow> ('db, 'ws) node_state \<Rightarrow> transaction_args \<Rightarrow> block_number_or_hash \<Rightarrow>
   (address, override_account) gmap option \<Rightarrow> block_overrides option \<Rightarrow> u64 \<Rightarrow> do_err + call_result"
where
  "DoCall ce env n args q overrides blockOverrides gasCap =
     rbind (mutable_at env n q) (\<lambda>(s, hdr).
       doCall ce (leHash (neLayers env)) args s hdr overrides blockOverrides gasCap)"

text \<open>The handler \<open>eth_call\<close>; revert data is an error of its own.\<close>

definition ethCall ::
  "call_env \<Rightarrow> ('db, 'ws, 'm) node_env \<Rightarrow> ('db, 'ws) node_state \<Rightarrow> transaction_args \<Rightarrow> block_number_or_hash option \<Rightarrow>
   (address, override_account) gmap option \<Rightarrow> block_overrides option \<Rightarrow> u64 \<Rightarrow> do_err + call_result"
where
  "ethCall ce env n args q overrides blockOverrides gasCap =
     rbind (DoCall ce env n args
              (taking q \<lparr> bnNumber = Some BLatest, bnHash = None, bnRequireCanonical = False \<rparr>)
              overrides blockOverrides gasCap)
       (\<lambda>r. if crRevert r \<noteq> [] then Inl (DRevert (crRevert r)) else Inr r)"

definition revert_of :: "est_err \<Rightarrow> do_err" where
  "revert_of e = (case e of EFailed r v \<Rightarrow> if r \<noteq> [] then DRevert r else DEstimate e | _ \<Rightarrow> DEstimate e)"

definition DoEstimateGas ::
  "call_env \<Rightarrow> ('db, 'ws, 'm) node_env \<Rightarrow> ('db, 'ws) node_state \<Rightarrow> transaction_args \<Rightarrow> block_number_or_hash \<Rightarrow>
   (address, override_account) gmap option \<Rightarrow> u64 \<Rightarrow> (do_err + u64) option"
where
  "DoEstimateGas ce env n args q overrides gasCap =
     (case rbind (mutable_at env n q) (\<lambda>(s, hdr).
        rbind (of_call (StateOverride_Apply (leHash (neLayers env)) overrides s)) (\<lambda>s1.
        rbind (of_call (CallDefaults gasCap (ceBaseFee ce hdr) (ceChainID ce)
                 (if taGas args = None then args\<lparr>taGas := Some 0\<rparr> else args))) (\<lambda>args1.
        rbind (of_call (lift_call (ToMessage (ceBaseFee ce hdr) True True args1))) (\<lambda>msg.
          Inr (s1, hdr, msg))))) of
        Inl e \<Rightarrow> Some (Inl e)
      | Inr (s1, hdr, msg) \<Rightarrow>
          (case Estimate (ceEstimate ce hdr) (ceFuel ce) msg s1 gasCap of
             None \<Rightarrow> None
           | Some (Inl e) \<Rightarrow> Some (Inl (revert_of e))
           | Some (Inr g) \<Rightarrow> Some (Inr g)))"

subsection \<open>What an override does\<close>

text \<open>
  Code put on an account that has other code: \<open>SetCode\<close> panics, so contracts cannot be replaced
  in a call.
\<close>

lemma override_code_panics:
  assumes "loadAccount ad True s = (a, s1)" and "codeHash a \<noteq> EmptyCodeHash kc" and "kc code \<noteq> EmptyCodeHash kc"
    and "codeHash a \<noteq> kc code"
  shows "StateOverride_Apply kc (Some [(ad, \<lparr> oaNonce = None, oaCode = Some code, oaBalance = None, oaState = None,
    oaStateDiff = None \<rparr>)]) s = Inl (CPanic OverwriteCode)"
proof -
  obtain p a' where c: "acctCode kc a = (p, a')" by (rule prod.exhaust)
  obtain a1 r1 where b: "bump_version a' = (a1, r1)" by (rule prod.exhaust)
  have "codeHash (snd (acctCode kc a)) = codeHash a" by (simp add: acctCode_def Let_def split: option.split)
  moreover have "codeHash (fst (bump_version a')) = codeHash a'" by (simp add: bump_version_def)
  ultimately have "codeHash a1 = codeHash a" by (simp add: b c)
  then have e: "acctSetCode kc code a' = Inl OverwriteCode"
    using assms(2-4) by (simp add: acctSetCode_def Let_def b)
  have "SetCode kc ad code s = Inl OverwriteCode"
    by (simp add: SetCode_def assms(1) c e Let_def)
  then show ?thesis by (simp add: StateOverride_Apply_def apply_account_override_def lift_call_def)
qed

text \<open>Balance and nonce of an overridden account, read on the state that the call runs on.\<close>

lemma bump_alive:
  assumes "interpretVersion a \<noteq> beingDeleted" "version a \<noteq> - 1"
  shows "interpretVersion (fst (bump_version a)) = updating"
  using assms interpretVersion_Suc(1) [of a] by (cases rule: interpretVersion_cases [of a]) (simp_all add: bump_version_def)

lemma bump_idle: "interpretVersion a = updating \<Longrightarrow> bump_version a = (a, [])"
  by (simp add: bump_version_def)

lemma setters_final:
  assumes "interpretVersion a \<noteq> beingDeleted" "version a \<noteq> - 1"
  shows "Balance (finalState (Account.GetFinalized kc (fst (acctSetBalance b (fst (acctSetNonce n a)))))) = b"
    and "Nonce (finalState (Account.GetFinalized kc (fst (acctSetBalance b (fst (acctSetNonce n a)))))) = n"
proof -
  obtain a1 us where b: "bump_version a = (a1, us)" by (rule prod.exhaust)
  then have u: "interpretVersion a1 = updating" using bump_alive [OF assms] by simp
  then have "fst (acctSetNonce n a) = a1\<lparr>nonce := n\<rparr>" by (simp add: acctSetNonce_def Let_def b)
  moreover have "bump_version (a1\<lparr>nonce := n\<rparr>) = (a1\<lparr>nonce := n\<rparr>, [])" using u by (intro bump_idle) simp
  ultimately have "fst (acctSetBalance b (fst (acctSetNonce n a))) = a1\<lparr>nonce := n, balance := b\<rparr>"
    by (simp add: acctSetBalance_def Let_def)
  then show "Balance (finalState (Account.GetFinalized kc (fst (acctSetBalance b (fst (acctSetNonce n a)))))) = b"
    and "Nonce (finalState (Account.GetFinalized kc (fst (acctSetBalance b (fst (acctSetNonce n a)))))) = n"
    using u by (simp_all add: Account.GetFinalized_def)
qed

lemma apply_account_parent: "tparent (apply_account kc x s) = tparent s"
  by (cases x) (simp add: apply_account_def Let_def split: option.split list.split)

lemma finalise_one:
  assumes "DirtyAccounts s = [(ad, a)]" "logger s = None"
  shows "\<exists>s'. Finalise kc False s = Inr s' \<and> DirtyAccounts s' = [] \<and> tparent (sparent s') = tparent (sparent s) \<and>
    CommittedAccounts (sparent s') = mput ad (finalState (Account.GetFinalized kc a)) (CommittedAccounts (sparent s))"
proof -
  have "rfold (finalise_account kc False) (DirtyAccounts s) s = Inr s"
    by (simp add: assms finalise_account_def hooked_def)
  then show ?thesis
    by (simp add: Finalise_def ApplyChanges_def assms Let_def apply_account_parent apply_account_accounts)
qed

lemma override_reads:
  assumes "s = newMutableWorldState cfg par h None" and "Version (pvAccount par ad) mod 3 \<noteq> 2" "Version (pvAccount par ad) \<noteq> - 1"
  shows "\<exists>s'. StateOverride_Apply kc (Some [(ad, \<lparr> oaNonce = Some n, oaCode = None, oaBalance = Some b, oaState = None,
      oaStateDiff = None \<rparr>)]) s = Inr s' \<and>
    GetBalance ad s' = word_of_int b \<and> GetNonce ad s' = n \<and>
    (\<forall>ad'. ad' \<noteq> ad \<longrightarrow> GetBalance ad' s' = GetBalance ad' s)"
proof -
  define a where "a = GetMutableAccount (sparent s) ad"
  have a: "interpretVersion a \<noteq> beingDeleted" "version a \<noteq> - 1"
    using assms by (simp_all add: a_def newMutableWorldState_def newTempCommittedState_def GetMutableAccount_def
      newMutableAccountImplWithOverriden_def Let_def interpretVersion_def version_consts)
  let ?a2 = "fst (acctSetBalance (word_of_int b) (fst (acctSetNonce n a)))"
  have s: "DirtyAccounts s = []" "logger s = None" "CommittedAccounts (sparent s) = []"
    using assms(1) by (simp_all add: newMutableWorldState_def newTempCommittedState_def)
  have "\<exists>s2. rfold (apply_account_override kc) [(ad, \<lparr> oaNonce = Some n, oaCode = None, oaBalance = Some b, oaState = None,
      oaStateDiff = None \<rparr>)] s = Inr s2 \<and> DirtyAccounts s2 = [(ad, ?a2)] \<and> sparent s2 = sparent s \<and> logger s2 = None"
    by (simp add: apply_account_override_def lift_call_def SetNonce_def SetBalance_def nonce_hook_def balance_hook_def hooked_def
        loadAccount_def recordJournal_def journalAccount_def storeAccount_def Let_def s a_def [symmetric])
  then obtain s2 where s2: "rfold (apply_account_override kc) [(ad, \<lparr> oaNonce = Some n, oaCode = None, oaBalance = Some b,
      oaState = None, oaStateDiff = None \<rparr>)] s = Inr s2" "DirtyAccounts s2 = [(ad, ?a2)]" "sparent s2 = sparent s" "logger s2 = None"
    by blast
  obtain s3 where s3: "Finalise kc False s2 = Inr s3" "DirtyAccounts s3 = []" "tparent (sparent s3) = tparent (sparent s)"
    "CommittedAccounts (sparent s3) = mput ad (finalState (Account.GetFinalized kc ?a2)) []"
    using finalise_one [OF s2(2,4)] s2(3) s(3) by auto
  have g: "GetBalance x s' = Balance (case map_of (CommittedAccounts (sparent s')) x of Some v \<Rightarrow> v | None \<Rightarrow> pvAccount (tparent (sparent s')) x)"
    "GetNonce x s' = Nonce (case map_of (CommittedAccounts (sparent s')) x of Some v \<Rightarrow> v | None \<Rightarrow> pvAccount (tparent (sparent s')) x)"
    if "DirtyAccounts s' = []" for x s'
    using that by (simp_all add: GetBalance_def GetNonce_def loadAccount_def GetMutableAccount_def
        newMutableAccountImplWithOverriden_def Let_def)
  show ?thesis
    using s2(1) s3 setters_final [OF a, of kc "word_of_int b" n] s
    by (intro exI [of _ s3]) (simp add: StateOverride_Apply_def lift_call_def g)
qed

end
