(* ===== verification/Trace.thy ===== *)
theory Trace
  imports RpcState
begin

section \<open>Tracing transactions\<close>

text \<open>
  The model of \<open>rpc/trace.go\<close> and of the handlers of \<open>rpc/trace_handlers.go\<close> that trace blocks
  and mined transactions. A tracer of go-ethereum is a parameter: which hooks it sets, the
  execution of a message under it, its result. The message of a transaction comes without the
  error of \<open>core.TransactionToMessage\<close>, which this code drops.
\<close>

record 'c trace_config =
  tcTracer :: "string option"
  tcTimeout :: "string option"
  tcConfig :: 'c

record ('m, 'c, 't, 'r) trace_env =
  teMessage :: "block \<Rightarrow> transaction \<Rightarrow> 'm"
  teTxGas :: "transaction \<Rightarrow> u64"
  teGasLimit :: "'m \<Rightarrow> u64"
  teIsJS :: "string \<Rightarrow> bool"
  teStructLogger :: "'c option \<Rightarrow> hooks \<times> 't"
  teNew :: "string \<Rightarrow> hash \<Rightarrow> nat \<Rightarrow> 'c option \<Rightarrow> (hooks \<times> 't) option"
  teDuration :: "string \<Rightarrow> bool"
  teApply :: "'t \<Rightarrow> block \<Rightarrow> 'm \<Rightarrow> u64 \<Rightarrow> mutable_state \<Rightarrow> (exec_result \<times> u64 \<times> mutable_state) option \<times> 't"
  teResult :: "'t \<Rightarrow> mutable_state \<Rightarrow> 'r option"

datatype trace_err =
    TRpc rpc_err
  | TGenesis
  | TNoParent hash
  | TNoState u64 hash
  | TFailed hash
  | TPanic panic
  | TOutOfRange int hash
  | TTracer
  | TTimeout
  | TTracing proc_err
  | TResult
  | TIndexing
  | TNotFound
  | TNilTx
  | TMessage

definition of_read :: "rpc_err + 'a \<Rightarrow> trace_err + 'a" where
  "of_read r = (case r of Inl e \<Rightarrow> Inl (TRpc e) | Inr x \<Rightarrow> Inr x)"

subsection \<open>The state of a transaction\<close>

text \<open>The system call of EIP-4788, if the header has a beacon root.\<close>

definition beacon_call :: "'m proc_env \<Rightarrow> block \<Rightarrow> mutable_state \<Rightarrow> mutable_state" where
  "beacon_call env blk s = (case bBeaconRoot blk of Some r \<Rightarrow> peBeaconRoot env r s | None \<Rightarrow> s)"

text \<open>The transactions before the one asked for, executed one after the other.\<close>

fun replay_to ::
  "('m, 'c, 't, 'r) trace_env \<Rightarrow> 'm proc_env \<Rightarrow> block \<Rightarrow> int \<Rightarrow> nat \<Rightarrow> transaction list \<Rightarrow> mutable_state \<Rightarrow>
   trace_err + (transaction option \<times> mutable_state)"
where
  "replay_to te env blk txIndex idx [] s = Inl (TOutOfRange txIndex (bHash blk))"
| "replay_to te env blk txIndex idx (tx # txs) s =
     (if int idx = txIndex then Inr (Some tx, s)
      else case peApplyMessage env blk (teMessage te blk tx) (teTxGas te tx) (SetTxContext (txHash tx) (int idx) s) of
             None \<Rightarrow> Inl (TFailed (txHash tx))
           | Some (res, gp, s1) \<Rightarrow>
               (case Finalise (peHash env) (peEIP158 env (NumberU64 blk)) s1 of
                  Inl p \<Rightarrow> Inl (TPanic p)
                | Inr s2 \<Rightarrow> replay_to te env blk txIndex (Suc idx) txs s2))"

definition stateAtTransaction ::
  "('m, 'c, 't, 'r) trace_env \<Rightarrow> ('db, 'ws, 'm) node_env \<Rightarrow> ('db, 'ws) node_state \<Rightarrow> block \<Rightarrow> int \<Rightarrow>
   trace_err + (transaction option \<times> mutable_state)"
where
  "stateAtTransaction te env n blk txIndex =
     (if NumberU64 blk = 0 then Inl TGenesis
      else case GetHeaderByHash (neChain env) (nsChain n) (ParentHash blk) of
             Inl e \<Rightarrow> Inl (TNoParent (ParentHash blk))
           | Inr parent \<Rightarrow>
               (case aGetMutable (peEIP158 (neProc env)) (neLayers env) (nsWorld n) (hNumber parent) (hRoot parent) of
                  None \<Rightarrow> Inl (TNoState (hNumber parent) (hRoot parent))
                | Some s \<Rightarrow>
                    (let s1 = beacon_call (neProc env) blk s
                     in if txIndex = 0 \<and> bTransactions blk = [] then Inr (None, s1)
                        else replay_to te (neProc env) blk txIndex 0 (bTransactions blk) s1)))"

subsection \<open>One transaction under a tracer\<close>

definition choose_tracer ::
  "('m, 'c, 't, 'r) trace_env \<Rightarrow> hash \<Rightarrow> nat \<Rightarrow> 'c trace_config option \<Rightarrow> trace_err + (hooks \<times> 't)"
where
  "choose_tracer te h i cfg =
     (case map_option tcTracer cfg of
        Some (Some name) \<Rightarrow>
          (case teNew te name h i (map_option tcConfig cfg) of None \<Rightarrow> Inl TTracer | Some t \<Rightarrow> Inr t)
      | _ \<Rightarrow> Inr (teStructLogger te (map_option tcConfig cfg)))"

definition timeout_ok :: "('m, 'c, 't, 'r) trace_env \<Rightarrow> 'c trace_config option \<Rightarrow> bool" where
  "timeout_ok te cfg = (case map_option tcTimeout cfg of Some (Some d) \<Rightarrow> teDuration te d | _ \<Rightarrow> True)"

text \<open>
  \<open>traceTx\<close>: the tracer's hooks are the state's logger and those of the EVM; the pool has the
  gas of the message. The state is returned as the tracer leaves it.
\<close>

definition traceTx ::
  "('m, 'c, 't, 'r) trace_env \<Rightarrow> 'm proc_env \<Rightarrow> block \<Rightarrow> 'm \<Rightarrow> nat \<Rightarrow> transaction \<Rightarrow> 'c trace_config option \<Rightarrow>
   mutable_state \<Rightarrow> trace_err + ('r \<times> mutable_state)"
where
  "traceTx te env blk msg i tx cfg s =
     rbind (choose_tracer te (txHash tx) i cfg) (\<lambda>(hk, tr).
       if \<not> timeout_ok te cfg then Inl TTimeout
       else
         let s1 = SetTxContext (txHash tx) (int i) (SetLogger (Some hk) s);
             tr1 = snd (teApply te tr blk msg (teGasLimit te msg) s1)
         in case ApplyTransaction (env\<lparr>peApplyMessage := \<lambda>b m gp st. fst (teApply te tr b m gp st)\<rparr>)
                   blk msg i tx (teGasLimit te msg, 0, s1) of
              Inl e \<Rightarrow> Inl (TTracing e)
            | Inr (r, gp, used, s2) \<Rightarrow>
                (case teResult te tr1 s2 of None \<Rightarrow> Inl TResult | Some res \<Rightarrow> Inr (res, s2)))"

fun trace_txs ::
  "('m, 'c, 't, 'r) trace_env \<Rightarrow> 'm proc_env \<Rightarrow> block \<Rightarrow> 'c trace_config option \<Rightarrow> nat \<Rightarrow> transaction list \<Rightarrow>
   mutable_state \<Rightarrow> trace_err + (hash \<times> 'r) list"
where
  "trace_txs te env blk cfg i [] s = Inr []"
| "trace_txs te env blk cfg i (tx # txs) s =
     rbind (traceTx te env blk (teMessage te blk tx) i tx cfg s) (\<lambda>(res, s1).
     rbind (trace_txs te env blk cfg (Suc i) txs s1) (\<lambda>rest. Inr ((txHash tx, res) # rest)))"

text \<open>Does the configuration name a JavaScript tracer?\<close>

definition js_tracer :: "('m, 'c, 't, 'r) trace_env \<Rightarrow> 'c trace_config option \<Rightarrow> bool" where
  "js_tracer te cfg =
     (case map_option tcTracer cfg of Some (Some name) \<Rightarrow> name \<noteq> [] \<and> teIsJS te name | _ \<Rightarrow> False)"

text \<open>
  \<open>traceBlock\<close>. With a JavaScript tracer the block is traced by \<open>traceBlockParallel\<close>, on a
  state of its own, and what that returns is dropped: the answer is nil (\<open>None\<close>).
\<close>

definition traceBlock ::
  "('m, 'c, 't, 'r) trace_env \<Rightarrow> ('db, 'ws, 'm) node_env \<Rightarrow> ('db, 'ws) node_state \<Rightarrow> block \<Rightarrow>
   'c trace_config option \<Rightarrow> trace_err + (hash \<times> 'r) list option"
where
  "traceBlock te env n blk cfg =
     (if NumberU64 blk = 0 then Inl TGenesis
      else case GetHeaderByHash (neChain env) (nsChain n) (ParentHash blk) of
             Inl e \<Rightarrow> Inl (TRpc (RChain e))
           | Inr parent \<Rightarrow>
               (case aGetMutable (peEIP158 (neProc env)) (neLayers env) (nsWorld n) (hNumber parent) (hRoot parent) of
                  None \<Rightarrow> Inl (TNoState (hNumber parent) (hRoot parent))
                | Some s \<Rightarrow>
                    if js_tracer te cfg then Inr None
                    else rbind (trace_txs te (neProc env) blk cfg 0 (bTransactions blk) (beacon_call (neProc env) blk s))
                           (\<lambda>rs. Inr (Some rs))))"

subsection \<open>The handlers\<close>

definition traceBlockByNumber ::
  "('m, 'c, 't, 'r) trace_env \<Rightarrow> ('db, 'ws, 'm) node_env \<Rightarrow> ('db, 'ws) node_state \<Rightarrow> block_number \<Rightarrow>
   'c trace_config option \<Rightarrow> trace_err + (hash \<times> 'r) list option"
where
  "traceBlockByNumber te env n i cfg =
     rbind (of_read (getBlockByNumber env n i)) (\<lambda>b. traceBlock te env n b cfg)"

definition traceBlockByHash ::
  "('m, 'c, 't, 'r) trace_env \<Rightarrow> ('db, 'ws, 'm) node_env \<Rightarrow> ('db, 'ws) node_state \<Rightarrow> hash \<Rightarrow>
   'c trace_config option \<Rightarrow> trace_err + (hash \<times> 'r) list option"
where
  "traceBlockByHash te env n h cfg =
     rbind (of_read (of_chain (GetBlockByHash (neChain env) (nsChain n) h))) (\<lambda>b. traceBlock te env n b cfg)"

text \<open>The transaction is nil when its block is stored without transactions.\<close>

definition traceTransaction ::
  "('m, 'c, 't, 'r) trace_env \<Rightarrow> ('db, 'ws, 'm) node_env \<Rightarrow> ('db, 'ws) node_state \<Rightarrow> hash \<Rightarrow>
   'c trace_config option \<Rightarrow> trace_err + 'r"
where
  "traceTransaction te env n h cfg =
     (case GetTransaction (neChain env) (nsChain n) h of
        Inl e \<Rightarrow> Inl TIndexing
      | Inr None \<Rightarrow> Inl TNotFound
      | Inr (Some (tx0, blockHash, index)) \<Rightarrow>
          rbind (of_read (of_chain (GetBlockByHash (neChain env) (nsChain n) blockHash))) (\<lambda>blk.
          rbind (stateAtTransaction te env n blk (sint index)) (\<lambda>(otx, s).
            case otx of
              None \<Rightarrow> Inl TNilTx
            | Some tx \<Rightarrow>
                (case peMessage (neProc env) blk tx of
                   None \<Rightarrow> Inl TMessage
                 | Some msg \<Rightarrow>
                     rbind (traceTx te (neProc env) blk msg (unat index) tx cfg s) (\<lambda>(res, s1). Inr res)))))"

end
