(* ===== verification/TraceLaws.thy ===== *)
theory TraceLaws
  imports Trace ProcessorLaws
begin

section \<open>What is traced\<close>

text \<open>
  The state \<open>stateAtTransaction\<close> hands to the tracer is the one the block processor executed the
  transaction on, for blocks without the fork rules that the trace code leaves out.
\<close>

text \<open>
  What is documented of \<open>core.ApplyMessage\<close>: the gas pool only has to have the gas of the message,
  and it does not set the transaction of the state. The message with its error dropped is the
  message.
\<close>

definition trace_law :: "('m, 'c, 't, 'r) trace_env \<Rightarrow> 'm proc_env \<Rightarrow> bool" where
  "trace_law te env =
     ((\<forall>blk tx msg. peMessage env blk tx = Some msg \<longrightarrow> teMessage te blk tx = msg) \<and>
      (\<forall>blk tx msg gp s r gp' s'. peMessage env blk tx = Some msg \<and> peApplyMessage env blk msg gp s = Some (r, gp', s') \<longrightarrow>
         TxHash s' = TxHash s \<and> (\<exists>gp1. peApplyMessage env blk msg (teTxGas te tx) s = Some (r, gp1, s'))))"

text \<open>States that are the same once the transaction is set.\<close>

definition ctx_eq :: "mutable_state \<Rightarrow> mutable_state \<Rightarrow> bool" where
  "ctx_eq s t = (\<forall>h i. SetTxContext h i s = SetTxContext h i t)"

lemma ctx_eq_refl [simp]: "ctx_eq s s"
  by (simp add: ctx_eq_def)

lemma ctx_eq_Logs: "ctx_eq (s\<lparr>Logs := ls\<rparr>) s"
  by (simp add: ctx_eq_def SetTxContext_def)

text \<open>Before Byzantium the root is taken, and with it the changes of empty accounts as EIP-158 says.\<close>

lemma settle_finalises:
  assumes "settle env blk s = Inr (root, s')" and "peByzantium env (NumberU64 blk) \<Longrightarrow> peEIP158 env (NumberU64 blk)"
  shows "Finalise (peHash env) (peEIP158 env (NumberU64 blk)) s = Inr s'"
  using assms by (auto simp: settle_def IntermediateRoot_def rbind_Inr_iff split: if_splits)

lemma rfold_TxHash:
  "rfold (finalise_account kc del) xs s = Inr s' \<Longrightarrow> TxHash s' = TxHash s"
proof (induction xs arbitrary: s)
  case (Cons x xs)
  then obtain s1 where s1: "finalise_account kc del x s = Inr s1" "rfold (finalise_account kc del) xs s1 = Inr s'"
    by (auto simp: rbind_Inr_iff)
  have "TxHash (storeAccount ad a s) = TxHash s" for ad a by (simp add: storeAccount_def split: option.split)
  then have "TxHash s1 = TxHash s" using s1(1)
    by (cases x) (auto simp: finalise_account_def rbind_Inr_iff emit_def split: if_splits)
  then show ?case using Cons.IH [OF s1(2)] by simp
qed simp

lemma Finalise_TxHash: "Finalise kc del s = Inr s' \<Longrightarrow> TxHash s' = TxHash s"
  by (auto simp: Finalise_def rbind_Inr_iff dest: rfold_TxHash)

lemma applied_step:
  assumes law: "trace_law te env" and fork: "peByzantium env (NumberU64 blk) \<Longrightarrow> peEIP158 env (NumberU64 blk)"
    and m: "peMessage env blk tx = Some msg" and "TxHash s = txHash tx"
    and a: "ApplyTransaction env blk msg i tx (gp, used, s) = Inr (r, gp1, used1, s1)"
  shows "\<exists>res gp2 x t. peApplyMessage env blk (teMessage te blk tx) (teTxGas te tx) s = Some (res, gp2, x) \<and>
    Finalise (peHash env) (peEIP158 env (NumberU64 blk)) x = Inr t \<and> ctx_eq s1 t"
proof -
  obtain res gpx x where am: "peApplyMessage env blk msg gp s = Some (res, gpx, x)"
    using a by (cases "peApplyMessage env blk msg gp s") (auto simp: ApplyTransaction_def)
  obtain root t where t: "settle env blk x = Inr (root, t)"
    using a unfolding ApplyTransaction_def prod.case am option.case by (auto elim!: rbind_InrE)
  have f: "Finalise (peHash env) (peEIP158 env (NumberU64 blk)) x = Inr t" using settle_finalises [OF t fork] .
  have l: "TxHash x = TxHash s" "\<exists>gp2. peApplyMessage env blk (teMessage te blk tx) (teTxGas te tx) s = Some (res, gp2, x)"
    using law m am unfolding trace_law_def by blast+
  then have "TxHash t = txHash tx" using Finalise_TxHash [OF f] assms(4) by simp
  then have "s1 = t\<lparr>Logs := map (annotate_log (NumberU64 blk) (bHash blk)) (Logs t)\<rparr>"
    using a by (simp add: ApplyTransaction_def am t GetLogs_def Let_def)
  then show ?thesis using l(2) f ctx_eq_Logs by blast
qed

lemma replay_applied:
  assumes law: "trace_law te env" and fork: "peByzantium env (NumberU64 blk) \<Longrightarrow> peEIP158 env (NumberU64 blk)"
  shows "\<lbrakk>applyAll env blk k txs (gp, used, s) = Inr (rs, gp', used', s'); i < length txs; ctx_eq s t\<rbrakk> \<Longrightarrow>
   \<exists>t' gp1 used1 si. replay_to te env blk (int (k + i)) k txs t = Inr (Some (txs ! i), t') \<and>
     applyAll env blk k (take i txs) (gp, used, s) = Inr (take i rs, gp1, used1, si) \<and> ctx_eq si t'"
proof (induction txs arbitrary: k i gp used s t rs)
  case (Cons tx txs)
  show ?case
  proof (cases i)
    case 0
    then show ?thesis using Cons.prems(3) by auto
  next
    case (Suc j)
    obtain msg where m: "peMessage env blk tx = Some msg"
      using Cons.prems(1) by (cases "peMessage env blk tx") auto
    from Cons.prems(1) m obtain r gp1 used1 s1 rs1 where
      a: "ApplyTransaction env blk msg k tx (gp, used, SetTxContext (txHash tx) (int k) s) = Inr (r, gp1, used1, s1)"
      and b: "applyAll env blk (Suc k) txs (gp1, used1, s1) = Inr (rs1, gp', used', s')" and rs: "rs = r # rs1"
      by (auto elim!: rbind_InrE)
    have e: "SetTxContext (txHash tx) (int k) s = SetTxContext (txHash tx) (int k) t"
      using Cons.prems(3) unfolding ctx_eq_def by blast
    have "TxHash (SetTxContext (txHash tx) (int k) s) = txHash tx" by (simp add: SetTxContext_def)
    from applied_step [OF law fork m this a] obtain res gp2 x t1 where
      p: "peApplyMessage env blk (teMessage te blk tx) (teTxGas te tx) (SetTxContext (txHash tx) (int k) t) = Some (res, gp2, x)"
        "Finalise (peHash env) (peEIP158 env (NumberU64 blk)) x = Inr t1" "ctx_eq s1 t1"
      unfolding e by blast
    obtain t' gp3 used3 si where "replay_to te env blk (int (Suc k + j)) (Suc k) txs t1 = Inr (Some (txs ! j), t')"
      "applyAll env blk (Suc k) (take j txs) (gp1, used1, s1) = Inr (take j rs1, gp3, used3, si)" "ctx_eq si t'"
      using Cons.IH [OF b _ p(3), of j] Cons.prems(2) Suc by auto
    then show ?thesis using Suc m a p rs by simp
  qed
qed simp

text \<open>(C19)
  Tracing a mined transaction traces what the node executed: for a block that the processor
  accepts on the state of its parent, and whose fork rules have no DAO fork and no system call
  for the parent hash, the state handed to the tracer is, once the transaction is set, the one
  in which the processor executed it, after the same transactions with the same receipts.
\<close>

theorem trace_replays_process:
  assumes law: "trace_law te (neProc env)"
    and blk: "NumberU64 blk \<noteq> 0" "GetHeaderByHash (neChain env) (nsChain n) (ParentHash blk) = Inr parent"
    and s: "aGetMutable (peEIP158 (neProc env)) (neLayers env) (nsWorld n) (hNumber parent) (hRoot parent) = Some s"
    and p: "Process (neProc env) blk s = Inr (receipts, logs, gas, s')"
    and forks: "\<not> (peDAOForkSupport (neProc env) \<and> peDAOForkBlock (neProc env) = Some (NumberU64 blk))"
      "\<not> pePrague (neProc env) (NumberU64 blk) (hTime (bHeader blk))"
      "\<not> peVerkle (neProc env) (NumberU64 blk) (hTime (bHeader blk))"
      "peByzantium (neProc env) (NumberU64 blk) \<Longrightarrow> peEIP158 (neProc env) (NumberU64 blk)"
    and i: "i < length (bTransactions blk)"
  shows "\<exists>t gp used s0 si. stateAtTransaction te env n blk (int i) = Inr (Some (bTransactions blk ! i), t) \<and>
    preamble (neProc env) blk s = Inr s0 \<and>
    applyAll (neProc env) blk 0 (take i (bTransactions blk)) (hGasLimit (bHeader blk), 0, s0) =
      Inr (take i receipts, gp, used, si) \<and>
    SetTxContext (txHash (bTransactions blk ! i)) (int i) t = SetTxContext (txHash (bTransactions blk ! i)) (int i) si"
proof -
  have pre: "preamble (neProc env) blk s = Inr (beacon_call (neProc env) blk s)"
    using forks(1-3) by (auto simp: preamble_def beacon_call_def Let_def)
  obtain gp used s2 where "applyAll (neProc env) blk 0 (bTransactions blk)
      (hGasLimit (bHeader blk), 0, beacon_call (neProc env) blk s) = Inr (receipts, gp, used, s2)"
    using p by (auto simp: Process_def pre Let_def elim!: rbind_InrE)
  from replay_applied [OF law forks(4) this i ctx_eq_refl] obtain t gp1 used1 si where
    t: "replay_to te (neProc env) blk (int (0 + i)) 0 (bTransactions blk) (beacon_call (neProc env) blk s) =
        Inr (Some (bTransactions blk ! i), t)"
      "applyAll (neProc env) blk 0 (take i (bTransactions blk)) (hGasLimit (bHeader blk), 0, beacon_call (neProc env) blk s) =
        Inr (take i receipts, gp1, used1, si)" "ctx_eq si t"
    by blast
  have "bTransactions blk \<noteq> []" using i by auto
  then have "stateAtTransaction te env n blk (int i) = Inr (Some (bTransactions blk ! i), t)"
    using t(1) by (simp add: stateAtTransaction_def blk s Let_def)
  then show ?thesis using pre t(2,3) unfolding ctx_eq_def by metis
qed

text \<open>
  From Prague on the processor also runs the system call for the parent hash before the
  transactions, the trace code does not.
\<close>

lemma trace_omits_parent_hash:
  assumes "pePrague env (NumberU64 blk) (hTime (bHeader blk))" "\<not> (peDAOForkSupport env \<and> peDAOForkBlock env = Some (NumberU64 blk))"
  shows "preamble env blk s = Inr (peParentHash env (ParentHash blk) (beacon_call env blk s))"
  using assms by (auto simp: preamble_def beacon_call_def Let_def)

text \<open>And whatever a JavaScript tracer finds in a block, the answer is nil.\<close>

lemma js_results_dropped:
  assumes "traceBlock te env n blk cfg = Inr r" and "js_tracer te cfg"
  shows "r = None"
  using assms by (auto simp: traceBlock_def split: if_splits sum.splits option.splits)

end
