(* ===== verification/TraceDemo.thy ===== *)
theory TraceDemo
  imports TraceLaws NodeDemo
begin

section \<open>An example of a trace\<close>

text \<open>The second transaction of the block that \<open>NodeDemo\<close> imports, traced on the node that has its parent.\<close>

definition demo_tracing :: "(unit, unit, unit, unit) trace_env" where
  "demo_tracing = \<lparr> teMessage = (\<lambda>b t. ()), teTxGas = (\<lambda>t. 21000), teGasLimit = (\<lambda>m. 21000), teIsJS = (\<lambda>name. False),
     teStructLogger = (\<lambda>c. (\<lparr> OnBalanceChange = True, OnNonceChange = False, OnNonceChangeV2 = False, OnCodeChange = False,
       OnStorageChange = False, OnLog = False \<rparr>, ())),
     teNew = (\<lambda>name h i c. None), teDuration = (\<lambda>d. True), teApply = (\<lambda>t b m gp s. (peApplyMessage call_env b m gp s, ())),
     teResult = (\<lambda>t s. Some ()) \<rparr>"

lemma AddBalance_TxHash: "TxHash (snd (AddBalance ad amt s)) = TxHash s"
  by (simp add: AddBalance_def loadAccount_def recordJournal_def journalAccount_def storeAccount_def balance_hook_def emit_def
      Let_def split: option.split)

lemma demo_trace_law: "trace_law demo_tracing (neProc node_demo_env)"
  by (auto simp: trace_law_def demo_tracing_def node_demo_env_def call_env_def AddBalance_TxHash not_less split: if_splits)

abbreviation trace_state :: mutable_state where
  "trace_state \<equiv> the (aGetMutable (peEIP158 (neProc node_demo_env)) (neLayers node_demo_env) (nsWorld node_demo) 2 21)"

lemma trace_state_there:
  "\<not> Option.is_none (aGetMutable (peEIP158 (neProc node_demo_env)) (neLayers node_demo_env) (nsWorld node_demo) 2 21)"
  by code_simp

lemma trace_process: "\<not> isl (Process (neProc node_demo_env) block3 trace_state)"
  by code_simp

lemma trace_parent:
  "GetHeaderByHash (neChain node_demo_env) (nsChain node_demo) (ParentHash block3) = Inr (bHeader (node_block 202 101 2 21 []))"
  by code_simp

theorem trace_replays_process_witness:
  "\<exists>t gp used s0 si. stateAtTransaction demo_tracing node_demo_env node_demo block3 1 = Inr (Some (bTransactions block3 ! 1), t) \<and>
    preamble (neProc node_demo_env) block3 trace_state = Inr s0 \<and>
    applyAll (neProc node_demo_env) block3 0 [bTransactions block3 ! 0] (50000, 0, s0) =
      Inr (take 1 (fst (projr (Process (neProc node_demo_env) block3 trace_state))), gp, used, si) \<and>
    SetTxContext 8 1 t = SetTxContext 8 1 si"
proof -
  obtain receipts logs gas s' where p: "Process (neProc node_demo_env) block3 trace_state = Inr (receipts, logs, gas, s')"
    using trace_process by (cases "Process (neProc node_demo_env) block3 trace_state") auto
  have s: "aGetMutable (peEIP158 (neProc node_demo_env)) (neLayers node_demo_env) (nsWorld node_demo)
      (hNumber (bHeader (node_block 202 101 2 21 []))) (hRoot (bHeader (node_block 202 101 2 21 []))) = Some trace_state"
    using trace_state_there by (simp add: node_block_def Option.is_none_def)
  have b: "NumberU64 block3 = 3" "hGasLimit (bHeader block3) = 50000" "length (bTransactions block3) = 2"
    "txHash (bTransactions block3 ! 1) = 8" "take 1 (bTransactions block3) = [bTransactions block3 ! 0]"
    by (simp_all add: block3_def node_block_def call_block_def)
  have f: "\<not> peDAOForkSupport (neProc node_demo_env)" "\<not> pePrague (neProc node_demo_env) n t"
    "\<not> peVerkle (neProc node_demo_env) n t" "peEIP158 (neProc node_demo_env) n" for n t
    by (simp_all add: node_demo_env_def call_env_def)
  from trace_replays_process [OF demo_trace_law _ trace_parent s p _ _ _ _, of 1] b f p show ?thesis
    by simp
qed

end
