(* ===== verification/DestructLaws.thy ===== *)
theory DestructLaws
  imports BackendLaws NodeDemo
begin

section \<open>Destroying a branch of states\<close>

text \<open>
  \<open>DestructChild\<close> of a layer, which the debug operation \<open>DebugDestructStateChild\<close> of the backend
  calls: the child and everything below it leave the store, the archive and the tree together.
\<close>

lemma remove_split:
  "\<forall>y\<in>set ys. lRoot y \<noteq> r \<Longrightarrow> lRoot c = r \<Longrightarrow> remove_child r (ys @ c # zs) = ys @ zs"
  by (induction ys) auto

lemma remove_subset: "set (remove_child r kids) \<subseteq> set kids"
  by (induction kids) auto

lemma destruct_child_world:
  assumes rel: "ds_reliable (leApi env) view" and ok: "world_ok view w" and rt: "route_of (wKids w) p = Some rt"
    and c: "find (\<lambda>l. lRoot l = child) (route_kids w rt) = Some c"
  shows "world_ok view (DestructChild env p child w)"
    and "Has h r (wStates (DestructChild env p child w)) = (Has h r (wStates w) \<and> (h, r) \<notin> set (layer_keys c))"
proof -
  note W = world_okD [OF ok]
  let ?w1 = "DestructChild env p child w" and ?f = "remove_child child"
  obtain ys zs where s: "route_kids w rt = ys @ c # zs" "lRoot c = child" "\<forall>y\<in>set ys. lRoot y \<noteq> child"
    using find_split [OF c] by blast
  have f: "?f (route_kids w rt) = ys @ zs" unfolding s(1) by (rule remove_split [OF s(3,2)])
  obtain db st where d: "Destruct env c (wDb w, wStates w) = (db, st)" by (rule prod.exhaust)
  have D: "view db k = (if erased (set (layer_keys c)) k then None else view (wDb w) k)"
    "Has h r st = (Has h r (wStates w) \<and> (h, r) \<notin> set (layer_keys c))" for k h r
    using Destruct_rel [OF rel, of c "(wDb w, wStates w)"] by (simp_all add: d)
  have w1: "?w1 = w\<lparr>wDb := write_children env (route_height w rt) (route_root w rt) (ys @ zs) db, wStates := st,
      wKids := upd_kids ?f p (wKids w)\<rparr>"
    by (simp add: DestructChild_def layer_at_route [OF rt] c d f)
  have v: "view (wDb ?w1) = (view db)(KChildren (route_height w rt) (route_root w rt) := Some (VChildren (map lRoot (ys @ zs))))"
    unfolding w1 by (simp add: write_children_view [OF rel])
  show H: "Has h r (wStates ?w1) = (Has h r (wStates w) \<and> (h, r) \<notin> set (layer_keys c))" for h r
    by (simp add: w1 D(2))
  note key = route_key [OF rt] and above = route_key_above [OF ok rt]
  have ms: "mset (kids_keys (wKids ?w1)) + mset (layer_keys c) = mset (kids_keys (wKids w))"
    using updated_keys [OF rt, of ?f] unfolding f by (simp add: w1 s(1))
  have dw: "distinct (kids_keys (wKids w))" using W(1) by simp
  have dc: "distinct (kids_keys (wKids ?w1) @ layer_keys c)"
    using mset_eq_imp_distinct_iff [of "kids_keys (wKids ?w1) @ layer_keys c" "kids_keys (wKids w)"] ms dw by simp
  have ks: "set (kids_keys (wKids w)) = set (kids_keys (wKids ?w1)) \<union> set (layer_keys c)"
    using mset_eq_setD [of "kids_keys (wKids ?w1) @ layer_keys c" "kids_keys (wKids w)"] ms by simp
  have root: "(wHeight w, wRoot w) \<notin> set (layer_keys c)" using W(1) ks by auto
  have cut: "set (layer_keys c) \<inter> set (kids_keys (ys @ zs)) = {}" using above(2) s(1) by auto
  have st: "stored (view (wDb ?w1)) k" if k: "k \<in> set (ys @ zs)" for k
  proof -
    have k': "k \<in> set (route_kids w rt)" using k s(1) by auto
    have "stored (view (wDb ?w1)) k = stored (view (wDb w)) k"
    proof (rule stored_cong)
      fix h' r' assume "(h', r') \<in> set (layer_keys k)"
      then have "(h', r') \<in> set (kids_keys (ys @ zs))" using kids_keys_mem [OF k] by blast
      then have "(h', r') \<notin> set (layer_keys c)" "(h', r') \<noteq> (route_height w rt, route_root w rt)"
        using cut above(1) s(1) by auto
      then show "view (wDb ?w1) (KLayerLog h' r') = view (wDb w) (KLayerLog h' r') \<and>
          view (wDb ?w1) (KChildren h' r') = view (wDb w) (KChildren h' r')" by (auto simp: v D(1) erased_def)
    qed
    then show ?thesis using route_kids_ok(2) [OF ok rt k'] by simp
  qed
  have ck: "set (layer_keys c) \<subseteq> set (kids_keys (route_kids w rt))" using s(1) by auto
  show "world_ok view ?w1"
  proof (rule updated_ok [OF ok rt, where f = ?f])
    show "distinct ((wHeight w, wRoot w) # kids_keys (wKids ?w1))" using W(1) dc ks by auto
    show "Has h' r' (wStates ?w1) = ((h', r') \<in> set ((wHeight w, wRoot w) # kids_keys (wKids ?w1)))" for h' r'
      using W(3) ks dc root by (auto simp: H)
    show "\<forall>k\<in>set (?f (route_kids w rt)). heights_ok (route_height w rt + 1) k"
      unfolding f using route_kids_ok(1) [OF ok rt] s(1) by auto
    show "\<forall>k\<in>set (?f (route_kids w rt)). stored (view (wDb ?w1)) k" unfolding f using st by blast
    show "view (wDb ?w1) KPersisted = view (wDb w) KPersisted" by (auto simp: v D(1) erased_def)
    show "view (wDb ?w1) (KLayerLog h' r') = view (wDb w) (KLayerLog h' r')"
      if "(h', r') \<notin> set (kids_keys (route_kids w rt))" for h' r'
      using that ck by (auto simp: v D(1) erased_def)
    show "view (wDb ?w1) (KChildren h' r') = view (wDb w) (KChildren h' r')"
      if "(h', r') \<notin> set (kids_keys (route_kids w rt))" "(h', r') \<noteq> (route_height w rt, route_root w rt)" for h' r'
      using that ck by (auto simp: v D(1) erased_def)
      show "view (wDb ?w1) (KChildren (route_height w rt) (route_root w rt)) =
        Some (VChildren (map lRoot (?f (route_kids w rt))))" unfolding v f by simp
  qed (simp_all add: w1)
qed

text \<open>The states of a branch: a child with its descendants, if there is one with that root.\<close>

definition doomed :: "'db world \<Rightarrow> route \<Rightarrow> hash \<Rightarrow> (u64 \<times> hash) set" where
  "doomed w rt child =
     (case find (\<lambda>l. lRoot l = child) (route_kids w rt) of None \<Rightarrow> {} | Some c \<Rightarrow> set (layer_keys c))"

text \<open>(C24)
  Destroying a branch of states by the debug operation keeps the node consistent. When it reports
  success, exactly the states of that branch are gone: those of the child with the given root and
  of its descendants, or none if the layer has no such child.
\<close>

theorem destruct_child_keeps_node:
  assumes law: "node_law env cv wv" and ok: "node_ok cv wv s"
    and d: "DebugDestructStateChild env height root child s = (r, s')"
  shows "node_ok cv wv s' \<and> nsChain s' = nsChain s \<and>
    (r = Inr () \<longrightarrow> (\<exists>p rt. route_of (wKids (nsWorld s)) p = Some rt \<and>
       route_height (nsWorld s) rt = height \<and> route_root (nsWorld s) rt = root \<and>
       (\<forall>h r'. Has h r' (wStates (nsWorld s')) =
          (Has h r' (wStates (nsWorld s)) \<and> (h, r') \<notin> doomed (nsWorld s) rt child))))"
proof (cases "GetLayared height root (nsWorld s)")
  case None
  then show ?thesis using d ok by (auto simp: DebugDestructStateChild_def)
next
  case (Some p)
  from ok obtain hh n where N: "chain_ok (cv (bcDb (nsChain s))) (tail (nsChain s)) hh n"
    "PruningFrequency (nsChain s) \<le> MaxBlockToRetain (nsChain s)"
    "world_ok wv (nsWorld s)" "\<forall>k\<in>set (wKids (nsWorld s)). logs_distinct k" by (rule node_okD)
  have rel: "ds_reliable (leApi (neLayers env)) wv" using node_lawD [OF law] by blast
  obtain kids where at: "layer_at (nsWorld s) p = Some (height, root, kids)"
    using found_at [OF N(3) Some] by blast
  then obtain rt where rt: "route_of (wKids (nsWorld s)) p = Some rt"
    by (auto simp: layer_at_def split: option.splits)
  have k: "height = route_height (nsWorld s) rt" "root = route_root (nsWorld s) rt" "kids = route_kids (nsWorld s) rt"
    using at layer_at_route [OF rt] by simp_all
  have s': "r = Inr ()" "s' = s\<lparr>nsWorld := DestructChild (neLayers env) p child (nsWorld s)\<rparr>"
    using d by (simp_all add: DebugDestructStateChild_def Some)
  show ?thesis
  proof (cases "find (\<lambda>l. lRoot l = child) (route_kids (nsWorld s) rt)")
    case None
    then have "DestructChild (neLayers env) p child (nsWorld s) = nsWorld s" by (simp add: DestructChild_def at k)
    then show ?thesis using ok k None by (auto simp: s' doomed_def intro!: exI [of _ p] exI [of _ rt] rt)
  next
    case (Some c)
    note D = destruct_child_world [OF rel N(3) rt Some]
    have "wKids (DestructChild (neLayers env) p child (nsWorld s)) = upd_kids (remove_child child) p (wKids (nsWorld s))"
      by (simp add: DestructChild_def at k Some split: prod.split)
    then have "\<forall>k\<in>set (wKids (DestructChild (neLayers env) p child (nsWorld s))). logs_distinct k"
      using upd_kids_logs [of "remove_child child" "wKids (nsWorld s)" p] N(4) remove_subset by fastforce
    then have "node_ok cv wv s'" by (intro node_okI [of cv s' hh n]) (use D(1) N in \<open>simp_all add: s'\<close>)
    then show ?thesis using k Some D(2) by (auto simp: s' doomed_def intro!: exI [of _ p] exI [of _ rt] rt)
  qed
qed

lemma demo_destruct_ok: "fst (DebugDestructStateChild node_demo_env 1 11 21 node_demo) = Inr ()"
  by code_simp

lemma demo_destruct_gone: "\<not> Has 2 21 (wStates (nsWorld (snd (DebugDestructStateChild node_demo_env 1 11 21 node_demo))))"
  by code_simp

theorem destruct_child_keeps_node_witness:
  "node_ok map_of map_of (snd (DebugDestructStateChild node_demo_env 1 11 21 node_demo)) \<and>
   Has 2 21 (wStates (nsWorld node_demo)) \<and>
   \<not> Has 2 21 (wStates (nsWorld (snd (DebugDestructStateChild node_demo_env 1 11 21 node_demo))))"
proof -
  have "DebugDestructStateChild node_demo_env 1 11 21 node_demo =
      (Inr (), snd (DebugDestructStateChild node_demo_env 1 11 21 node_demo))"
    using demo_destruct_ok by (simp add: prod_eq_iff)
  from destruct_child_keeps_node [OF node_demo_law node_demo_ok this] demo_destruct_gone show ?thesis
    by (auto simp: node_demo_def demo_world_def Has_def)
qed

end
