(* ===== verification/ImportErrors.thy ===== *)
theory ImportErrors
  imports NodeDemo
begin

section \<open>What a failed import leaves behind\<close>

text \<open>
  The error path of \<open>ImportBlock\<close> of \<open>backend/backend_impl.go\<close>: what an import that reports an
  error has already written, and what that means for importing the block again.
\<close>

lemma add_block_stored:
  assumes law: "bc_law api view" and r: "AddBlock api blk rs bc = Inr bc'" and t: "tail bc \<le> NumberU64 blk"
  shows "view (bcDb bc') (BlockK (bHash blk)) \<noteq> None"
  using law r
proof (cases rule: AddBlock_cases)
  case 1
  then show ?thesis using t by auto
next
  case (2 forks)
  have "view (bcDb bc') = fold apply_bop ([BcPut (BlockK (bHash blk)) (VBlock blk),
      BcPut (ForkK (NumberU64 blk)) (VForks (forks @ [bHash blk]))] @ tx_puts blk @ receipt_puts blk rs) (view (bcDb bc))"
    using bcEnd_Inr [OF law 2(6)] by simp
  then show ?thesis by (simp add: tx_puts_view)
qed

lemma commit_state_fails:
  assumes "commit_state env blk ms p s = (Inl e, s1)"
  shows "\<exists>err. e = ICommit err" "nsChain s1 = nsChain s"
  using assms by (auto simp: commit_state_def split: prod.splits sum.splits store_err.splits)

text \<open>(C17)
  An import that fails changes nothing, or it failed in committing the state, after the block was
  stored: then the error cannot be repaired by importing the block again, since every later
  import reports success at once and does nothing (unless the block was below the tail, where
  blocks are not stored). Given that the block store can be read.
\<close>

theorem failed_import_sticks:
  assumes law: "bc_law (neChain env) cv"
    and reads: "\<And>bc h. HasBlock (neChain env) bc h = Inr (cv (bcDb bc) (BlockK h) \<noteq> None)"
    and r: "ImportBlock env blk prv s = (Inl e, s')"
  shows "s' = s \<or>
    (\<exists>err. e = ICommit err) \<and>
    (tail (nsChain s) \<le> NumberU64 blk \<longrightarrow> (\<forall>prv'. ImportBlock env blk prv' s' = (Inr (), s')))"
  using law r
proof (cases rule: import_cases)
  case 1
  then show ?thesis by simp
next
  case (2 b receipts gasUsed ms p bc rc s1)
  then have c: "commit_state env blk ms p (s\<lparr>nsChain := bc\<rparr>) = (Inl e, s')" by auto
  have "ImportBlock env blk prv' s' = (Inr (), s')" if "tail (nsChain s) \<le> NumberU64 blk" for prv'
    using import_known [of env s' blk prv'] reads add_block_stored [OF law 2(3) that] commit_state_fails(2) [OF c] by simp
  then show ?thesis using commit_state_fails(1) [OF c] by blast
qed

theorem failed_import_sticks_witness:
  "failed_import \<noteq> node_demo \<and> ImportBlock failing_env block3 None failed_import = (Inr (), failed_import)"
proof -
  have r: "ImportBlock failing_env block3 None node_demo = (Inl (ICommit ErrDatastore), failed_import)"
    using failed_import_error by (simp add: prod_eq_iff)
  have h: "HasBlock (neChain failing_env) bc k = Inr (map_of (bcDb bc) (BlockK k) \<noteq> None)" for bc k
    using bc_lawD(3) [OF mem_bc_law] by (simp add: HasBlock_def failing_env_def node_demo_env_def mem_bc_def mhas_iff)
  have l: "bc_law (neChain failing_env) map_of" using mem_bc_law by (simp add: failing_env_def node_demo_env_def)
  have "HasBlock (neChain node_demo_env) (nsChain node_demo) (bHash block3) = Inr False" by code_simp
  then have "failed_import \<noteq> node_demo" using failed_import_known by auto
  moreover have "tail (nsChain node_demo) \<le> NumberU64 block3" by code_simp
  ultimately show ?thesis using failed_import_sticks [OF l h r] by blast
qed

end
