(* ===== verification/RpcHandlers.thy ===== *)
theory RpcHandlers
  imports RpcState NodeLoop
begin

section \<open>More handlers\<close>

text \<open>
  The handlers of \<open>rpc/eth_handlers.go\<close> that return blocks and transactions by position, the
  reads that the gas price oracle of go-ethereum makes (\<open>rpc/gasprice.go\<close>) and the handlers of
  \<open>rpc/admin_handlers.go\<close>. What would be marshalled to JSON is returned as it is.
\<close>

subsection \<open>Blocks and transactions by position\<close>

definition ethGetBlockByHash :: "('db, 'ws, 'm) node_env \<Rightarrow> ('db, 'ws) node_state \<Rightarrow> hash \<Rightarrow> rpc_err + block" where
  "ethGetBlockByHash env n h = of_chain (GetBlockByHash (neChain env) (nsChain n) h)"

text \<open>A pending block is never found, so the fields blanked for one are no case.\<close>

definition ethGetBlockByNumber :: "('db, 'ws, 'm) node_env \<Rightarrow> ('db, 'ws) node_state \<Rightarrow> block_number \<Rightarrow> rpc_err + block" where
  "ethGetBlockByNumber env n i = getBlockByNumber env n i"

definition newRPCTransactionFromBlockIndex :: "block \<Rightarrow> u64 \<Rightarrow> (transaction \<times> hash \<times> header \<times> u64) option" where
  "newRPCTransactionFromBlockIndex b index =
     (if unat index \<ge> length (bTransactions b) then None
      else Some (bTransactions b ! unat index, bHash b, bHeader b, index))"

definition ethGetTransactionByBlockHashAndIndex ::
  "('db, 'ws, 'm) node_env \<Rightarrow> ('db, 'ws) node_state \<Rightarrow> hash \<Rightarrow> u64 \<Rightarrow> (transaction \<times> hash \<times> header \<times> u64) option"
where
  "ethGetTransactionByBlockHashAndIndex env n h index =
     (case GetBlockByHash (neChain env) (nsChain n) h of
        Inl e \<Rightarrow> None | Inr b \<Rightarrow> newRPCTransactionFromBlockIndex b index)"

definition ethGetTransactionByBlockNumberAndIndex ::
  "('db, 'ws, 'm) node_env \<Rightarrow> ('db, 'ws) node_state \<Rightarrow> block_number \<Rightarrow> u64 \<Rightarrow> (transaction \<times> hash \<times> header \<times> u64) option"
where
  "ethGetTransactionByBlockNumberAndIndex env n i index =
     (case getBlockByNumber env n i of Inl e \<Rightarrow> None | Inr b \<Rightarrow> newRPCTransactionFromBlockIndex b index)"

subsection \<open>The reads of the gas price oracle\<close>

definition oracleHeaderByNumber :: "('db, 'ws, 'm) node_env \<Rightarrow> ('db, 'ws) node_state \<Rightarrow> block_number \<Rightarrow> rpc_err + header" where
  "oracleHeaderByNumber env n i = rbind (getBlockByNumber env n i) (\<lambda>b. Inr (bHeader b))"

definition oracleBlockByNumber :: "('db, 'ws, 'm) node_env \<Rightarrow> ('db, 'ws) node_state \<Rightarrow> block_number \<Rightarrow> rpc_err + block" where
  "oracleBlockByNumber env n i = getBlockByNumber env n i"

definition oracleGetReceipts :: "('db, 'ws, 'm) node_env \<Rightarrow> ('db, 'ws) node_state \<Rightarrow> hash \<Rightarrow> rpc_err + receipt list" where
  "oracleGetReceipts env n h =
     rbind (of_chain (GetBlockByHash (neChain env) (nsChain n) h)) (\<lambda>b.
       rfold (\<lambda>tx rs.
           rbind (of_tagged (RNoReceipt (txHash tx)) (GetReceipt (neChain env) (nsChain n) (txHash tx)))
             (\<lambda>(r, blkHash, index). Inr (rs @ [r]))) (bTransactions b) [])"

text \<open>The oracle sees the receipts that \<open>eth_getBlockReceipts\<close> returns for the block.\<close>

lemma oracle_receipts:
  assumes "oracleGetReceipts env n h = Inr rs" and "GetBlockByHash (neChain env) (nsChain n) h = Inr b"
  shows "ethGetBlockReceipts env n \<lparr> bnNumber = None, bnHash = Some h, bnRequireCanonical = c \<rparr> =
    Inr (Some (zip rs (zip (bTransactions b) [0..<length rs])))"
  using assms by (simp add: oracleGetReceipts_def ethGetBlockReceipts_def block_of_def orNull_def of_chain_def)

subsection \<open>The administration of the node\<close>

definition adminPause :: "('db, 'ws) node_loop \<Rightarrow> panic option \<times> ('db, 'ws) node_loop" where
  "adminPause l = Pause l"

definition adminUnpause :: "('db, 'ws) node_loop \<Rightarrow> ('db, 'ws) node_loop" where
  "adminUnpause l = Unpause l"

definition adminDestructStateChild ::
  "('db, 'ws, 'm) node_env \<Rightarrow> u64 \<Rightarrow> hash \<Rightarrow> hash \<Rightarrow> ('db, 'ws) node_state \<Rightarrow> (imp_err + unit) \<times> ('db, 'ws) node_state"
where
  "adminDestructStateChild env height root child n = DebugDestructStateChild env height root child n"

text \<open>The block to process is the stored one, or the one of the block source if none is stored.\<close>

definition adminForceProcessBlock ::
  "('db, 'ws, 'm) node_env \<Rightarrow> block_source \<Rightarrow> hash \<Rightarrow> ('db, 'ws) node_state \<Rightarrow> (imp_err + unit) \<times> ('db, 'ws) node_state"
where
  "adminForceProcessBlock env src h n =
     (case HasBlock (neChain env) (nsChain n) h of
        Inl e \<Rightarrow> (Inl (IChain e), n)
      | Inr exists \<Rightarrow>
          (case (if exists
                 then (case GetBlockByHash (neChain env) (nsChain n) h of Inl e \<Rightarrow> Inl (IChain e) | Inr b \<Rightarrow> Inr b)
                 else (case srcByHash src h of None \<Rightarrow> Inl ISource | Some b \<Rightarrow> Inr b)) of
             Inl e \<Rightarrow> (Inl e, n)
           | Inr blk \<Rightarrow> DebugForceProcessBlock env blk n))"

text \<open>
  Forcing a block to be processed keeps the node consistent, leaves the block store alone and,
  when it reports success, makes the state of the block available.
\<close>

lemma force_process_node:
  assumes "node_law env cv wv" and "node_ok cv wv s" and "block_fits env cv blk None s"
    and f: "DebugForceProcessBlock env blk s = (r, s')"
  shows "node_ok cv wv s'" "nsChain s' = nsChain s"
    "r = Inr () \<Longrightarrow> Has (NumberU64 blk) (hRoot (bHeader blk)) (wStates (nsWorld s'))"
proof -
  note L = node_lawD [OF assms(1)]
  from assms(2) obtain hh n where N: "chain_ok (cv (bcDb (nsChain s))) (tail (nsChain s)) hh n"
    "PruningFrequency (nsChain s) \<le> MaxBlockToRetain (nsChain s)"
    "world_ok wv (nsWorld s)" "\<forall>k\<in>set (wKids (nsWorld s)). logs_distinct k" by (rule node_okD)
  note F = assms(3) [unfolded block_fits_def]
  have "node_ok cv wv s' \<and> nsChain s' = nsChain s \<and>
    (r = Inr () \<longrightarrow> Has (NumberU64 blk) (hRoot (bHeader blk)) (wStates (nsWorld s')))"
  proof (cases "rbind (prev_block env blk None s) (\<lambda>p. process_on env blk p s)")
    case (Inl e)
    then show ?thesis using f assms(2) by (auto simp: DebugForceProcessBlock_def)
  next
    case (Inr x)
    obtain receipts gasUsed ms p where x: "x = (receipts, gasUsed, ms, p)" by (rule prod_cases4)
    from Inr [unfolded x] obtain b where b: "prev_block env blk None s = Inr b"
      "process_on env blk b s = Inr (receipts, gasUsed, ms, p)" by (rule rbind_InrE)
    have c: "commit_state env blk ms p s = (r, s')" using f Inr x by (simp add: DebugForceProcessBlock_def)
    have pb: "has_block (cv (bcDb (nsChain s))) (ParentHash blk) b"
      by (rule prev_block_stored [OF L(1) b(1)]) (use F in blast)
    have num: "NumberU64 blk = NumberU64 b + 1" using F pb unfolding numbered_def by blast
    obtain rt where rt: "route_of (wKids (nsWorld s)) p = Some rt" "NumberU64 b = route_height (nsWorld s) rt"
      using process_on_path [OF N(3) b(2)] by blast
    have ready: "commit_ready (neLayers env) (nsWorld s) p (sparent s2) (NumberU64 blk) (hRoot (bHeader blk))"
      if "IntermediateRoot (leHash (neLayers env)) (peEmptyRoot (neProc env)) (peEIP158 (neProc env) (NumberU64 blk)) ms = Inr (root, s2)"
      for root s2
      unfolding commit_ready_def using rt num F b that by auto
    have C: "world_ok wv (nsWorld s') \<and> (\<forall>k\<in>set (wKids (nsWorld s')). logs_distinct k) \<and> nsChain s' = nsChain s \<and>
        (r = Inr () \<longrightarrow> Has (NumberU64 blk) (hRoot (bHeader blk)) (wStates (nsWorld s')))"
      using commit_state_ok [OF L(3,4) _ _ ready c] N(3,4) by simp
    then have "node_ok cv wv s'" by (intro node_okI [of cv s' hh n]) (use N in auto)
    then show ?thesis using C by blast
  qed
  then show "node_ok cv wv s'" "nsChain s' = nsChain s"
    "r = Inr () \<Longrightarrow> Has (NumberU64 blk) (hRoot (bHeader blk)) (wStates (nsWorld s'))" by blast+
qed

end
